(* ===== verification/Prelude.thy ===== *)
theory Prelude
  imports Main "HOL-Library.Word" "HOL-Library.Mapping" "HOL-Library.RBT_Mapping"
    "HOL-Library.Multiset" "HOL-Library.Char_ord" "HOL-Library.List_Lexorder"
    "HOL-Library.Product_Lexorder"
begin

text \<open>
  Shared vocabulary of the development: the machine integers and byte strings of the
  C++ code, the reading of \<^verbatim>\<open>std::map\<close> and \<^verbatim>\<open>std::set\<close>, decimal and hexadecimal
  printing, and the general lemmas on words, sorted enumerations and maps that the
  component theories share.

  \<^item> \<^verbatim>\<open>std::set<K>\<close> is a HOL set; iterating it is \<open>sorted_list_of_set\<close>, the ascending
    enumeration (every key type here is finite, so every set is).
  \<^item> \<^verbatim>\<open>std::map<K,V>\<close> is the library's \<open>mapping\<close>; \<open>Mapping.ordered_entries\<close> is its
    iteration order.
  \<^item> \<^verbatim>\<open>std::string\<close> is \<open>string\<close>, one \<open>char\<close> per byte.
\<close>

unbundle bit_operations_syntax

named_theorems set_at_simps "reading and updating a map of sets"
named_theorems xor_inj "cancellation of exclusive or"
named_theorems bytes_simps "bytes and characters"

type_synonym u8 = "8 word"
type_synonym u32 = "32 word"
type_synonym u64 = "64 word"
type_synonym byte = "8 word"
type_synonym i64 = "64 word"

section \<open>Maps of sets\<close>

text \<open>
  \<open>set_at m k\<close> is what \<^verbatim>\<open>m[k]\<close> denotes for a map of sets: the stored set, or a fresh empty
  one. \<open>insert_at\<close> is \<^verbatim>\<open>m[k].insert(x)\<close> and \<open>erase_at\<close> is \<^verbatim>\<open>m[k].erase(x)\<close>; both
  leave the key present, as \<^verbatim>\<open>operator[]\<close> does.
\<close>

definition set_at :: "('k, 'v set) mapping \<Rightarrow> 'k \<Rightarrow> 'v set" where
  "set_at m k = (case Mapping.lookup m k of None \<Rightarrow> {} | Some s \<Rightarrow> s)"

definition insert_at :: "'k \<Rightarrow> 'v \<Rightarrow> ('k, 'v set) mapping \<Rightarrow> ('k, 'v set) mapping" where
  "insert_at k x m = Mapping.update k (insert x (set_at m k)) m"

definition erase_at :: "'k \<Rightarrow> 'v \<Rightarrow> ('k, 'v set) mapping \<Rightarrow> ('k, 'v set) mapping" where
  "erase_at k x m = Mapping.update k (Set.remove x (set_at m k)) m"

definition touch_at :: "'k \<Rightarrow> ('k, 'v set) mapping \<Rightarrow> ('k, 'v set) mapping" where
  "touch_at k m = Mapping.update k (set_at m k) m"

lemma set_at_empty [simp, set_at_simps]: "set_at Mapping.empty k = {}"
  by (simp add: set_at_def)

lemma set_at_update [set_at_simps]:
  "set_at (Mapping.update k s m) k' = (if k' = k then s else set_at m k')"
  by (auto simp: set_at_def lookup_update')

lemma set_at_insert_at [simp, set_at_simps]:
  "set_at (insert_at k x m) k' = (if k' = k then insert x (set_at m k) else set_at m k')"
  by (auto simp: insert_at_def set_at_simps)

lemma set_at_erase_at [simp, set_at_simps]:
  "set_at (erase_at k x m) k' = (if k' = k then set_at m k - {x} else set_at m k')"
  by (auto simp: erase_at_def set_at_simps)

lemma set_at_touch_at [simp, set_at_simps]: "set_at (touch_at k m) k' = set_at m k'"
  by (auto simp: touch_at_def set_at_simps)

lemma keys_insert_at [simp]: "Mapping.keys (insert_at k x m) = insert k (Mapping.keys m)"
  by (simp add: insert_at_def)

lemma keys_touch_at [simp]: "Mapping.keys (touch_at k m) = insert k (Mapping.keys m)"
  by (simp add: touch_at_def)

lemma lookup_in_keys: "Mapping.lookup m k = Some v \<Longrightarrow> k \<in> Mapping.keys m"
  by (auto simp: keys_dom_lookup)

lemma lookup_None_iff: "Mapping.lookup m k = None \<longleftrightarrow> k \<notin> Mapping.keys m"
  by (auto simp: keys_dom_lookup)

lemma lookup_Some_iff: "k \<in> Mapping.keys m \<longleftrightarrow> (\<exists>v. Mapping.lookup m k = Some v)"
  by (auto simp: keys_dom_lookup)

section \<open>Bytes and characters\<close>

definition byte_of_char :: "char \<Rightarrow> byte" where
  "byte_of_char c = of_nat (of_char c)"

definition char_of_byte :: "byte \<Rightarrow> char" where
  "char_of_byte b = char_of (unat b)"

lemma unat_byte_of_char [bytes_simps]: "unat (byte_of_char c) = of_char c"
proof -
  have "(of_char c :: nat) = of_char c mod 256" by simp
  then show ?thesis by (simp add: byte_of_char_def unat_of_nat)
qed

lemma char_of_byte_of_char [simp, bytes_simps]: "char_of_byte (byte_of_char c) = c"
  by (simp add: char_of_byte_def unat_byte_of_char)

lemma unat_byte_less [bytes_simps]: "unat (b :: byte) < 256"
proof -
  have "unat b < 2 ^ LENGTH(8)" by (rule unsigned_less)
  then show ?thesis by simp
qed

lemma byte_of_char_of_byte [simp, bytes_simps]: "byte_of_char (char_of_byte b) = b"
proof -
  have "unat b mod 256 = unat b" using unat_byte_less [of b] by simp
  then show ?thesis by (simp add: char_of_byte_def byte_of_char_def)
qed

definition bytes_of_string :: "string \<Rightarrow> byte list" where
  "bytes_of_string s = map byte_of_char s"

definition string_of_bytes :: "byte list \<Rightarrow> string" where
  "string_of_bytes bs = map char_of_byte bs"

lemma string_of_bytes_of_string [simp, bytes_simps]:
  "string_of_bytes (bytes_of_string s) = s"
  by (simp add: string_of_bytes_def bytes_of_string_def comp_def)

lemma bytes_of_string_of_bytes [simp, bytes_simps]:
  "bytes_of_string (string_of_bytes bs) = bs"
  by (simp add: string_of_bytes_def bytes_of_string_def comp_def)

lemma length_bytes_of_string [simp]: "length (bytes_of_string s) = length s"
  by (simp add: bytes_of_string_def)

lemma length_string_of_bytes [simp]: "length (string_of_bytes bs) = length bs"
  by (simp add: string_of_bytes_def)

lemma string_of_bytes_append [simp]:
  "string_of_bytes (xs @ ys) = string_of_bytes xs @ string_of_bytes ys"
  by (simp add: string_of_bytes_def)

lemma bytes_of_string_append [simp]:
  "bytes_of_string (xs @ ys) = bytes_of_string xs @ bytes_of_string ys"
  by (simp add: bytes_of_string_def)

lemma bytes_of_string_inject [simp]: "bytes_of_string s = bytes_of_string t \<longleftrightarrow> s = t"
  by (metis string_of_bytes_of_string)

section \<open>Printing integers\<close>

text \<open>
  \<open>hex_fixed w n\<close> is the \<open>w\<close>-digit lower-case hexadecimal text that \<^verbatim>\<open>%0<w>llx\<close> prints for a
  value of at most \<open>w\<close> digits; \<open>dec_string\<close> is \<^verbatim>\<open>std::to_string\<close> and \<^verbatim>\<open>%llu\<close>.
\<close>

definition hex_digit :: "nat \<Rightarrow> char" where
  "hex_digit d = ''0123456789abcdef'' ! d"

primrec hex_fixed :: "nat \<Rightarrow> nat \<Rightarrow> string" where
  "hex_fixed 0 n = []"
| "hex_fixed (Suc w) n = hex_fixed w (n div 16) @ [hex_digit (n mod 16)]"

fun dec_string :: "nat \<Rightarrow> string" where
  "dec_string n = (if n < 10 then [hex_digit n] else dec_string (n div 10) @ [hex_digit (n mod 10)])"

declare dec_string.simps [simp del]

lemma length_hex_fixed [simp]: "length (hex_fixed w n) = w"
  by (induction w arbitrary: n) auto

text \<open>Case distinction on a digit below sixteen, for facts checked digit by digit.\<close>

lemma less_16_cases:
  "(d::nat) < 16 \<Longrightarrow> d \<in> {0, 1, 2, 3, 4, 5, 6, 7, 8, 9, 10, 11, 12, 13, 14, 15}"
  by (simp add: numeral_eq_Suc) presburger

lemma unat_u64_less: "unat (w :: u64) < 2 ^ 64"
proof -
  have "unat w < 2 ^ LENGTH(64)" by (rule unsigned_less)
  then show ?thesis by simp
qed

lemma eq_of_nat_u64_iff: "n < 2 ^ 64 \<Longrightarrow> w = of_nat n \<longleftrightarrow> unat (w :: u64) = n"
  by (auto simp: word_unat_eq_iff unat_of_nat)

lemma hex_fixed_eq_Nil [simp]: "hex_fixed w n = [] \<longleftrightarrow> w = 0"
  by (cases w) auto

section \<open>Exclusive or on words\<close>

lemma xor_left_cancel [xor_inj]: "a XOR b = a XOR c \<longleftrightarrow> b = (c :: 'a::len word)"
  by (metis (no_types) xor.left_neutral xor.assoc xor_self_eq)

lemma xor_right_cancel [xor_inj]: "b XOR a = c XOR a \<longleftrightarrow> b = (c :: 'a::len word)"
  by (metis (no_types) xor.commute xor_left_cancel)

text \<open>A right shift folded into its own argument loses nothing: the top bits survive and
  determine the rest.\<close>

lemma xor_shift_inj:
  fixes x y :: "'a::len word"
  assumes eq: "x XOR drop_bit n x = y XOR drop_bit n y" and n: "0 < n"
  shows "x = y"
proof (rule bit_word_eqI)
  fix i assume "i < LENGTH('a)"
  have "\<forall>i. LENGTH('a) - i = k \<longrightarrow> bit x i = bit y i" for k
  proof (induction k rule: less_induct)
    case (less k)
    show ?case
    proof (intro allI impI)
      fix i assume k: "LENGTH('a) - i = k"
      show "bit x i = bit y i"
      proof (cases "i < LENGTH('a)")
        case False
        then show ?thesis by (auto dest: bit_imp_le_length)
      next
        case True
        with k n have "LENGTH('a) - (i + n) < k" by simp
        with less.IH have "bit x (i + n) = bit y (i + n)" by blast
        moreover have "bit (x XOR drop_bit n x) i = bit (y XOR drop_bit n y) i"
          using eq by simp
        ultimately show ?thesis
          by (auto simp: bit_xor_iff bit_drop_bit_eq add.commute)
      qed
    qed
  qed
  then show "bit x i = bit y i" by blast
qed

lemma word_mult_inj:
  fixes a :: "'a::len word"
  assumes "a * b = 1" and "x * a = y * a"
  shows "x = y"
proof -
  have "x * a * b = y * a * b" using assms(2) by simp
  then show ?thesis using assms(1) by (simp add: mult.assoc)
qed

section \<open>Sorted enumerations\<close>

lemma sorted_list_of_set_eq_iff [simp]:
  "sorted_list_of_set A = sorted_list_of_set B \<longleftrightarrow> A = B"
  for A B :: "('a::{linorder, finite}) set"
  by (metis finite set_sorted_list_of_set)

lemma sort_eq_if_mset_eq: "mset xs = mset ys \<Longrightarrow> sort xs = sort ys"
  by (metis mset_sort properties_for_sort sorted_sort)

lemma foldl_append_split: "foldl f a (xs @ y # ys) = foldl f (f (foldl f a xs) y) ys"
  by simp

lemma length_dec_string: "n < 10 ^ Suc k \<Longrightarrow> length (dec_string n) \<le> Suc k"
proof (induction k arbitrary: n)
  case 0
  then show ?case by (simp add: dec_string.simps [of n])
next
  case (Suc k)
  then have "n div 10 < 10 ^ Suc k" by (simp add: less_mult_imp_div_less mult.commute)
  with Suc.IH show ?case by (cases "n < 10") (simp_all add: dec_string.simps [of n])
qed

end
