(* ===== verification/Ids.thy ===== *)
theory Ids
  imports Prelude
begin

text \<open>
  \<^verbatim>\<open>ids.hpp\<close>: the strongly typed 64-bit identities and generations. The tag is a
  phantom type parameter, as in the C++ template, so that \<open>StateId\<close> and \<open>ModelId\<close> are
  different types; 0 is the null value. The theory proves that printing and parsing an
  identity are inverse, that parsing accepts exactly the numerals that fit 64 bits, and that
  the hash of an identity is injective.
\<close>

section \<open>ScalarIdentifier\<close>

datatype 'tag ScalarIdentifier = ScalarIdentifier (get: u64)

definition valid :: "'tag ScalarIdentifier \<Rightarrow> bool" where
  "valid i \<longleftrightarrow> get i \<noteq> 0"

definition is_null :: "'tag ScalarIdentifier \<Rightarrow> bool" where
  "is_null i \<longleftrightarrow> get i = 0"

definition null_id :: "'tag ScalarIdentifier" where
  "null_id = ScalarIdentifier 0"

lemma valid_ScalarIdentifier [simp]: "valid (ScalarIdentifier v) \<longleftrightarrow> v \<noteq> 0"
  by (simp add: valid_def)

lemma valid_null_id [simp]: "\<not> valid null_id"
  by (simp add: null_id_def)

lemma get_null_id [simp]: "get null_id = 0"
  by (simp add: null_id_def)

lemma not_valid_iff: "\<not> valid i \<longleftrightarrow> i = null_id"
  by (cases i) (simp add: null_id_def)

text \<open>The defaulted \<^verbatim>\<open>operator<=>\<close> compares the numeric values.\<close>

instantiation ScalarIdentifier :: (type) linorder
begin

definition less_eq_ScalarIdentifier :: "'a ScalarIdentifier \<Rightarrow> 'a ScalarIdentifier \<Rightarrow> bool" where
  "less_eq_ScalarIdentifier a b \<longleftrightarrow> get a \<le> get b"

definition less_ScalarIdentifier :: "'a ScalarIdentifier \<Rightarrow> 'a ScalarIdentifier \<Rightarrow> bool" where
  "less_ScalarIdentifier a b \<longleftrightarrow> get a < get b"

instance
  by standard
    (auto simp: less_eq_ScalarIdentifier_def less_ScalarIdentifier_def
      intro: ScalarIdentifier.expand)

end

instance ScalarIdentifier :: (type) finite
proof
  have "finite (range (ScalarIdentifier :: u64 \<Rightarrow> 'a ScalarIdentifier))"
    by (rule finite_imageI) (rule finite)
  moreover have "(UNIV :: 'a ScalarIdentifier set) = range ScalarIdentifier"
    by (metis ScalarIdentifier.exhaust surj_def)
  ultimately show "finite (UNIV :: 'a ScalarIdentifier set)" by simp
qed

lemma ScalarIdentifier_le [simp]: "ScalarIdentifier a \<le> ScalarIdentifier b \<longleftrightarrow> a \<le> b"
  by (simp add: less_eq_ScalarIdentifier_def)

lemma ScalarIdentifier_less [simp]: "ScalarIdentifier a < ScalarIdentifier b \<longleftrightarrow> a < b"
  by (simp add: less_ScalarIdentifier_def)

section \<open>Text form\<close>

definition to_string :: "'tag ScalarIdentifier \<Rightarrow> string" where
  "to_string i = ''0x'' @ hex_fixed 16 (unat (get i))"

text \<open>
  \<^verbatim>\<open>try_parse\<close>: \<open>digit_value\<close> is the body's classification of one character, \<open>parse_loop\<close>
  the loop with its overflow test.
\<close>

definition is_hex_text :: "string \<Rightarrow> bool" where
  "is_hex_text s \<longleftrightarrow> 2 < length s \<and> s ! 0 = CHR ''0'' \<and> (s ! 1 = CHR ''x'' \<or> s ! 1 = CHR ''X'')"

definition digit_value :: "bool \<Rightarrow> char \<Rightarrow> u64 option" where
  "digit_value hex c =
     (if CHR ''0'' \<le> c \<and> c \<le> CHR ''9'' then Some (of_nat (of_char c - of_char (CHR ''0'')))
      else if hex \<and> CHR ''a'' \<le> c \<and> c \<le> CHR ''f'' then Some (of_nat (of_char c - of_char (CHR ''a'') + 10))
      else if hex \<and> CHR ''A'' \<le> c \<and> c \<le> CHR ''F'' then Some (of_nat (of_char c - of_char (CHR ''A'') + 10))
      else None)"

fun parse_loop :: "bool \<Rightarrow> u64 \<Rightarrow> u64 \<Rightarrow> string \<Rightarrow> u64 option" where
  "parse_loop hex base v [] = Some v"
| "parse_loop hex base v (c # cs) =
     (case digit_value hex c of
        None \<Rightarrow> None
      | Some d \<Rightarrow>
          if (- 1 - d) div base < v then None
          else parse_loop hex base (v * base + d) cs)"

definition try_parse :: "string \<Rightarrow> 'tag ScalarIdentifier option" where
  "try_parse s =
     (if s = [] then None
      else
        let hex = is_hex_text s;
            body = (if hex then drop 2 s else s)
        in if length body = 0 then None
           else map_option ScalarIdentifier (parse_loop hex (if hex then 16 else 10) 0 body))"

section \<open>Tags and domain names\<close>

datatype StateIdTag = StateIdTag
datatype ProvenanceIdTag = ProvenanceIdTag
datatype ProducerIdTag = ProducerIdTag
datatype ExecutionIdTag = ExecutionIdTag
datatype AttemptIdTag = AttemptIdTag
datatype WorkerIdTag = WorkerIdTag
datatype WorkerBootIdTag = WorkerBootIdTag
datatype DependencyIdTag = DependencyIdTag
datatype ArtifactIdTag = ArtifactIdTag
datatype ModelIdTag = ModelIdTag
datatype AdapterIdTag = AdapterIdTag
datatype CompositionIdTag = CompositionIdTag
datatype PolicyIdTag = PolicyIdTag
datatype RuntimeIdTag = RuntimeIdTag
datatype DeviceIdTag = DeviceIdTag
datatype BackendIdTag = BackendIdTag
datatype ToolchainIdTag = ToolchainIdTag

type_synonym StateId = "StateIdTag ScalarIdentifier"
type_synonym ProvenanceId = "ProvenanceIdTag ScalarIdentifier"
type_synonym ProducerId = "ProducerIdTag ScalarIdentifier"
type_synonym ExecutionId = "ExecutionIdTag ScalarIdentifier"
type_synonym AttemptId = "AttemptIdTag ScalarIdentifier"
type_synonym WorkerId = "WorkerIdTag ScalarIdentifier"
type_synonym WorkerBootId = "WorkerBootIdTag ScalarIdentifier"
type_synonym DependencyId = "DependencyIdTag ScalarIdentifier"
type_synonym ArtifactId = "ArtifactIdTag ScalarIdentifier"
type_synonym ModelId = "ModelIdTag ScalarIdentifier"
type_synonym AdapterId = "AdapterIdTag ScalarIdentifier"
type_synonym CompositionId = "CompositionIdTag ScalarIdentifier"
type_synonym PolicyId = "PolicyIdTag ScalarIdentifier"
type_synonym RuntimeId = "RuntimeIdTag ScalarIdentifier"
type_synonym DeviceId = "DeviceIdTag ScalarIdentifier"
type_synonym BackendId = "BackendIdTag ScalarIdentifier"
type_synonym ToolchainId = "ToolchainIdTag ScalarIdentifier"

datatype ProvenanceGenerationTag = ProvenanceGenerationTag
datatype AttemptGenerationTag = AttemptGenerationTag
datatype StateGenerationTag = StateGenerationTag
datatype ProducerGenerationTag = ProducerGenerationTag
datatype DependencyGenerationTag = DependencyGenerationTag
datatype PolicyGenerationTag = PolicyGenerationTag
datatype RuntimeGenerationTag = RuntimeGenerationTag
datatype ArtifactGenerationTag = ArtifactGenerationTag
datatype ModelGenerationTag = ModelGenerationTag
datatype AdapterGenerationTag = AdapterGenerationTag
datatype CompositionGenerationTag = CompositionGenerationTag

type_synonym ProvenanceGeneration = "ProvenanceGenerationTag ScalarIdentifier"
type_synonym AttemptGeneration = "AttemptGenerationTag ScalarIdentifier"
type_synonym StateGeneration = "StateGenerationTag ScalarIdentifier"
type_synonym ProducerGeneration = "ProducerGenerationTag ScalarIdentifier"
type_synonym DependencyGeneration = "DependencyGenerationTag ScalarIdentifier"
type_synonym PolicyGeneration = "PolicyGenerationTag ScalarIdentifier"
type_synonym RuntimeGeneration = "RuntimeGenerationTag ScalarIdentifier"
type_synonym ArtifactGeneration = "ArtifactGenerationTag ScalarIdentifier"
type_synonym ModelGeneration = "ModelGenerationTag ScalarIdentifier"
type_synonym AdapterGeneration = "AdapterGenerationTag ScalarIdentifier"
type_synonym CompositionGeneration = "CompositionGenerationTag ScalarIdentifier"

section \<open>Hashing\<close>

text \<open>The \<^verbatim>\<open>std::hash\<close> specialisation: the splitmix64 finaliser of the value.\<close>

definition hash_id :: "'tag ScalarIdentifier \<Rightarrow> u64" where
  "hash_id i =
     (let x = get i + 0x9e3779b97f4a7c15;
          x = (x XOR drop_bit 30 x) * 0xbf58476d1ce4e5b9;
          x = (x XOR drop_bit 27 x) * 0x94d049bb133111eb
      in x XOR drop_bit 31 x)"

section \<open>Parsing is exact\<close>

text \<open>The number a digit string denotes, read without any bound on its size.\<close>

definition numeral_value :: "nat \<Rightarrow> nat \<Rightarrow> u64 list \<Rightarrow> nat" where
  "numeral_value b v ds = foldl (\<lambda>a d. a * b + unat d) v ds"

lemma numeral_value_Nil [simp]: "numeral_value b v [] = v"
  by (simp add: numeral_value_def)

lemma numeral_value_Cons [simp]:
  "numeral_value b v (d # ds) = numeral_value b (v * b + unat d) ds"
  by (simp add: numeral_value_def)

lemma numeral_value_ge: "1 \<le> b \<Longrightarrow> v \<le> numeral_value b v ds"
proof (induction ds arbitrary: v)
  case (Cons d ds)
  have "v \<le> v * b + unat d" using Cons.prems by (simp add: trans_le_add1)
  also have "\<dots> \<le> numeral_value b (v * b + unat d) ds" using Cons by simp
  finally show ?case by simp
qed simp

text \<open>The overflow test of the loop is exact: it fires just when the next value would not fit.\<close>

lemma overflow_test_iff:
  fixes v d base :: u64
  assumes "0 < unat base"
  shows "(- 1 - d) div base < v \<longleftrightarrow> 2 ^ 64 \<le> unat v * unat base + unat d"
proof -
  have d: "unat d < 2 ^ 64" by (rule unat_u64_less)
  have max: "unat (- 1 - d) = 2 ^ 64 - 1 - unat d"
    using d by (simp add: unat_sub_if' unsigned_minus_1_eq_mask mask_eq_exp_minus_1)
  have "(- 1 - d) div base < v \<longleftrightarrow> (2 ^ 64 - 1 - unat d) div unat base < unat v"
    by (simp add: word_less_nat_alt unat_div max)
  also have "\<dots> \<longleftrightarrow> 2 ^ 64 - 1 - unat d < unat v * unat base"
    using assms by (simp add: div_less_iff_less_mult)
  also have "\<dots> \<longleftrightarrow> 2 ^ 64 \<le> unat v * unat base + unat d" using d by linarith
  finally show ?thesis .
qed

lemma no_overflow_unat:
  fixes v d base :: u64
  assumes "unat v * unat base + unat d < 2 ^ 64"
  shows "unat (v * base + d) = unat v * unat base + unat d"
  using assms by (simp add: unat_word_ariths)

lemma parse_loop_Some_iff:
  assumes "0 < unat base"
  shows "parse_loop hex base v s = Some w \<longleftrightarrow>
    (\<exists>ds. those (map (digit_value hex) s) = Some ds \<and>
      numeral_value (unat base) (unat v) ds < 2 ^ 64 \<and>
      w = of_nat (numeral_value (unat base) (unat v) ds))"
proof (induction s arbitrary: v)
  case Nil
  show ?case using unat_u64_less [of v] by auto
next
  case (Cons c s)
  show ?case
  proof (cases "digit_value hex c")
    case None
    then show ?thesis by simp
  next
    case (Some d)
    have those: "(\<exists>ds. those (map (digit_value hex) (c # s)) = Some ds \<and> P ds) \<longleftrightarrow>
        (\<exists>ds. those (map (digit_value hex) s) = Some ds \<and> P (d # ds))" for P
      using Some by auto
    show ?thesis
    proof (cases "2 ^ 64 \<le> unat v * unat base + unat d")
      case True
      have "\<not> numeral_value (unat base) (unat v * unat base + unat d) ds < 2 ^ 64" for ds
        using numeral_value_ge [of "unat base" "unat v * unat base + unat d" ds] True assms by simp
      moreover have "parse_loop hex base v (c # s) = None"
        using Some True overflow_test_iff [OF assms] by simp
      ultimately show ?thesis unfolding those by simp
    next
      case False
      then have "parse_loop hex base v (c # s) = parse_loop hex base (v * base + d) s"
        using Some overflow_test_iff [OF assms] by simp
      moreover have "unat (v * base + d) = unat v * unat base + unat d"
        using False by (simp add: no_overflow_unat)
      ultimately show ?thesis unfolding those using Cons.IH [of "v * base + d"] by simp
    qed
  qed
qed

lemma parse_loop_Some_unat:
  assumes "0 < unat base"
  shows "parse_loop hex base v s = Some w \<longleftrightarrow>
    (\<exists>ds. those (map (digit_value hex) s) = Some ds \<and>
      numeral_value (unat base) (unat v) ds < 2 ^ 64 \<and>
      unat w = numeral_value (unat base) (unat v) ds)"
  unfolding parse_loop_Some_iff [OF assms] using eq_of_nat_u64_iff by blast

text \<open>Printing with a fixed width and parsing back.\<close>

lemma parse_loop_append:
  "parse_loop hex base v (xs @ ys) =
     Option.bind (parse_loop hex base v xs) (\<lambda>v. parse_loop hex base v ys)"
  by (induction xs arbitrary: v) (auto split: option.splits)

lemma digit_value_table:
  "list_all (\<lambda>d. digit_value True (hex_digit d) = Some (of_nat d)) [0..<16]"
  "list_all (\<lambda>d. digit_value hex (hex_digit d) = Some (of_nat d)) [0..<10]"
  by (cases hex; code_simp)+

lemma digit_value_hex_digit: "d < 16 \<Longrightarrow> digit_value True (hex_digit d) = Some (of_nat d)"
  using digit_value_table(1) by (simp add: list_all_iff)

lemma digit_value_dec_digit: "d < 10 \<Longrightarrow> digit_value hex (hex_digit d) = Some (of_nat d)"
  using digit_value_table(2) by (simp add: list_all_iff)

lemma parse_loop_digit:
  assumes d: "digit_value hex c = Some (of_nat d)" and b: "0 < unat base"
    and fits: "n * unat base + d < 2 ^ 64"
  shows "parse_loop hex base (of_nat n) [c] = Some (of_nat (n * unat base + d))"
proof -
  have "n * 1 \<le> n * unat base" using b by (intro mult_le_mono) auto
  then have "n < 2 ^ 64" and "d < 2 ^ 64" using fits by linarith+
  then have n: "unat (of_nat n :: u64) = n" and dd: "unat (of_nat d :: u64) = d"
    by (simp_all add: unat_of_nat)
  have "unat (of_nat n * base + of_nat d :: u64) = n * unat base + d"
    using fits by (subst no_overflow_unat) (simp_all add: n dd)
  then have "of_nat n * base + of_nat d = (of_nat (n * unat base + d) :: u64)"
    using fits by (simp add: word_unat_eq_iff unat_of_nat)
  then show ?thesis using fits by (simp add: d overflow_test_iff [OF b] n dd)
qed

lemma parse_loop_hex_fixed:
  "w \<le> 16 \<Longrightarrow> parse_loop True 16 0 (hex_fixed w n) = Some (of_nat (n mod 16 ^ w))"
proof (induction w arbitrary: n)
  case (Suc w)
  let ?m = "(n div 16) mod 16 ^ w"
  have split: "n mod 16 ^ Suc w = ?m * 16 + n mod 16"
    by (metis mod_mult2_eq add.commute mult.commute power_Suc)
  have "n mod 16 ^ Suc w < (16 :: nat) ^ Suc w" by simp
  also have "(16 :: nat) ^ Suc w \<le> 16 ^ 16" using Suc.prems by (intro power_increasing) auto
  finally have "n mod 16 ^ Suc w < 16 ^ 16" .
  then have fits: "?m * 16 + n mod 16 < 2 ^ 64" unfolding split by simp
  have "parse_loop True 16 (of_nat ?m) [hex_digit (n mod 16)] = Some (of_nat (?m * 16 + n mod 16))"
    using parse_loop_digit [of True "hex_digit (n mod 16)" "n mod 16" 16 ?m] fits
    by (simp add: digit_value_hex_digit)
  with Suc show ?case by (simp only: hex_fixed.simps parse_loop_append split) simp
qed simp

lemma parse_loop_dec_string:
  "n < 2 ^ 64 \<Longrightarrow> parse_loop False 10 0 (dec_string n) = Some (of_nat n)"
proof (induction n rule: dec_string.induct)
  case (1 n)
  show ?case
  proof (cases "n < 10")
    case True
    then show ?thesis
      using parse_loop_digit [of False "hex_digit n" n 10 0]
      by (simp add: dec_string.simps [of n] digit_value_dec_digit)
  next
    case False
    have step: "parse_loop False 10 (of_nat (n div 10)) [hex_digit (n mod 10)]
        = Some (of_nat (n div 10 * 10 + n mod 10))"
      using parse_loop_digit [of False "hex_digit (n mod 10)" "n mod 10" 10 "n div 10"] 1(2)
      by (simp add: digit_value_dec_digit)
    from 1 False have "parse_loop False 10 0 (dec_string (n div 10)) = Some (of_nat (n div 10))"
      by simp
    with False step show ?thesis
      by (simp add: dec_string.simps [of n] parse_loop_append del: parse_loop.simps)
  qed
qed

lemma dec_string_nonempty [simp]: "dec_string n \<noteq> []"
  by (simp add: dec_string.simps [of n])

lemma dec_string_digits: "c \<in> set (dec_string n) \<Longrightarrow> \<exists>d<10. c = hex_digit d"
proof (induction n rule: dec_string.induct)
  case (1 n)
  then show ?case
    by (cases "n < 10") (auto simp: dec_string.simps [of n] intro: exI [of _ "n mod 10"])
qed

lemma hex_digit_not_x:
  assumes "d < 10" shows "hex_digit d \<noteq> CHR ''x''" "hex_digit d \<noteq> CHR ''X''"
proof -
  have "list_all (\<lambda>d. hex_digit d \<noteq> CHR ''x'' \<and> hex_digit d \<noteq> CHR ''X'') [0..<10]"
    by code_simp
  with assms show "hex_digit d \<noteq> CHR ''x''" "hex_digit d \<noteq> CHR ''X''"
    by (simp_all add: list_all_iff)
qed

lemma dec_string_not_hex: "\<not> is_hex_text (dec_string n)"
proof
  assume "is_hex_text (dec_string n)"
  then have "1 < length (dec_string n)" and x: "dec_string n ! 1 \<in> {CHR ''x'', CHR ''X''}"
    by (auto simp: is_hex_text_def)
  then have "dec_string n ! 1 \<in> set (dec_string n)" by simp
  then obtain d where "d < 10" "dec_string n ! 1 = hex_digit d" using dec_string_digits by blast
  with x show False using hex_digit_not_x [of d] by auto
qed

section \<open>Properties\<close>

text \<open>Parsing an identity is exact and never wraps.  It succeeds just on a non-empty
  decimal numeral, or a hexadecimal one after \<^verbatim>\<open>0x\<close>, whose value (read without any size
  bound) is below \<open>2 ^ 64\<close>, and it yields that value.\<close>

theorem try_parse_iff:
  "try_parse s = Some i \<longleftrightarrow>
    (\<exists>ds. those (map (digit_value (is_hex_text s)) (if is_hex_text s then drop 2 s else s)) = Some ds \<and>
      ds \<noteq> [] \<and>
      numeral_value (if is_hex_text s then 16 else 10) 0 ds < 2 ^ 64 \<and>
      unat (get i) = numeral_value (if is_hex_text s then 16 else 10) 0 ds)"
proof -
  let ?hex = "is_hex_text s"
  let ?base = "if ?hex then 16 else 10 :: u64" and ?b = "if ?hex then 16 else 10 :: nat"
  let ?body = "if ?hex then drop 2 s else s"
  have base: "unat ?base = ?b" and pos: "0 < unat ?base" by auto
  have body: "?body \<noteq> [] \<longleftrightarrow> s \<noteq> []" by (auto simp: is_hex_text_def)
  have len: "those (map f xs) = Some ds \<Longrightarrow> (xs \<noteq> []) = (ds \<noteq> [])" for f :: "char \<Rightarrow> u64 option" and xs ds
    by (cases xs) (auto split: option.splits)
  have "try_parse s = Some i \<longleftrightarrow> ?body \<noteq> [] \<and> parse_loop ?hex ?base 0 ?body = Some (get i)"
    using body by (cases i) (auto simp: try_parse_def Let_def)
  also have "\<dots> \<longleftrightarrow> ?body \<noteq> [] \<and> (\<exists>ds. those (map (digit_value ?hex) ?body) = Some ds \<and>
      numeral_value ?b 0 ds < 2 ^ 64 \<and> unat (get i) = numeral_value ?b 0 ds)"
    unfolding parse_loop_Some_unat [OF pos] base unat_0 ..
  also have "\<dots> \<longleftrightarrow> (\<exists>ds. those (map (digit_value ?hex) ?body) = Some ds \<and> ds \<noteq> [] \<and>
      numeral_value ?b 0 ds < 2 ^ 64 \<and> unat (get i) = numeral_value ?b 0 ds)"
    using len [of "digit_value ?hex" ?body] by blast
  finally show ?thesis .
qed

lemma try_parse_to_string: "try_parse (to_string i) = Some i"
proof -
  have "is_hex_text (to_string i)" by (simp add: is_hex_text_def to_string_def)
  moreover have "unat (get i) mod 16 ^ 16 = unat (get i)"
    using unat_u64_less [of "get i"] by simp
  ultimately show ?thesis
    by (simp add: try_parse_def to_string_def parse_loop_hex_fixed Let_def)
qed

lemma to_string_inject [simp]: "to_string i = to_string j \<longleftrightarrow> i = j"
  by (metis option.inject try_parse_to_string)

lemma length_to_string [simp]: "length (to_string i) = 18"
  by (simp add: to_string_def)

lemma try_parse_dec_string: "try_parse (dec_string (unat (get i))) = Some i"
proof -
  have "parse_loop False 10 0 (dec_string (unat (get i))) = Some (get i)"
    using unat_u64_less [of "get i"] by (simp add: parse_loop_dec_string)
  then show ?thesis by (simp add: try_parse_def dec_string_not_hex Let_def)
qed

text \<open>Parsing inverts printing: the fixed-width hexadecimal text of an identity and its
  decimal text both parse back to the same identity.\<close>

theorem parse_print_roundtrip:
  "try_parse (to_string i) = Some i \<and> try_parse (dec_string (unat (get i))) = Some i"
  by (simp add: try_parse_to_string try_parse_dec_string)

end
