(* ===== verification/Digest.thy ===== *)
theory Digest
  imports Ids
begin

text \<open>
  \<^verbatim>\<open>digest.hpp\<close>: the table-driven CRC-32, the FNV-1a hash with the splitmix64 finaliser, and
  the order-sensitive \<^verbatim>\<open>StableDigest\<close>.  The table-driven CRC is shown equal to the bit-serial
  one, and each of the three accumulators is shown to lose no information when it absorbs an
  item: the locale \<open>absorbing\<close> states this contract and derives from it that changing one item
  of a sequence always changes the result.
\<close>

section \<open>CRC-32\<close>

definition crc_step :: "u32 \<Rightarrow> u32" where
  "crc_step c = (if c AND 1 \<noteq> 0 then drop_bit 1 c XOR 0xEDB88320 else drop_bit 1 c)"

definition crc_table_make :: "nat \<Rightarrow> u32" where
  "crc_table_make i = (crc_step ^^ 8) (of_nat i)"

definition crc_table :: "u32 list" where
  "crc_table = map crc_table_make [0..<256]"

definition crc_update :: "u32 \<Rightarrow> byte \<Rightarrow> u32" where
  "crc_update crc b = crc_table ! unat ((crc XOR ucast b) AND 0xFF) XOR drop_bit 8 crc"

definition crc32_from :: "u32 \<Rightarrow> byte list \<Rightarrow> u32" where
  "crc32_from crc data = foldl crc_update crc data XOR 0xFFFFFFFF"

definition crc32 :: "byte list \<Rightarrow> u32" where
  "crc32 data = crc32_from 0xFFFFFFFF data"

section \<open>FNV-1a and splitmix64\<close>

definition fnv_step :: "u64 \<Rightarrow> byte \<Rightarrow> u64" where
  "fnv_step hash b = (hash XOR ucast b) * 0x100000001b3"

definition fnv1a64_from :: "u64 \<Rightarrow> byte list \<Rightarrow> u64" where
  "fnv1a64_from hash data = foldl fnv_step hash data"

definition fnv1a64 :: "byte list \<Rightarrow> u64" where
  "fnv1a64 data = fnv1a64_from 0xcbf29ce484222325 data"

definition mix64 :: "u64 \<Rightarrow> u64" where
  "mix64 x =
     (let x = x + 0x9e3779b97f4a7c15;
          x = (x XOR drop_bit 30 x) * 0xbf58476d1ce4e5b9;
          x = (x XOR drop_bit 27 x) * 0x94d049bb133111eb
      in x XOR drop_bit 31 x)"

definition stable_hash :: "string \<Rightarrow> u64" where
  "stable_hash sv = mix64 (fnv1a64 (bytes_of_string sv))"

text \<open>The overloads of \<^verbatim>\<open>mix\<close>; an \<^verbatim>\<open>int\<close> is converted to 64 bits with its sign.\<close>

definition mix :: "u64 \<Rightarrow> u64 \<Rightarrow> u64" where
  "mix h v = (h XOR mix64 v) * 0x9e3779b97f4a7c15"

definition mix_str :: "u64 \<Rightarrow> string \<Rightarrow> u64" where
  "mix_str h sv = (h XOR mix64 (fnv1a64 (bytes_of_string sv))) * 0x9e3779b97f4a7c15"

definition mix_bool :: "u64 \<Rightarrow> bool \<Rightarrow> u64" where
  "mix_bool h v = mix h (if v then 1 else 0)"

definition mix_int :: "u64 \<Rightarrow> int \<Rightarrow> u64" where
  "mix_int h i = mix h (of_int i)"

definition digest_string :: "u64 \<Rightarrow> string" where
  "digest_string h = hex_fixed 16 (unat h)"

section \<open>StableDigest\<close>

text \<open>The class holds the running hash \<^verbatim>\<open>h_\<close> only; each \<^verbatim>\<open>with\<close> overload is one function.\<close>

type_synonym StableDigest = u64

definition with_u64 :: "u64 \<Rightarrow> StableDigest \<Rightarrow> StableDigest" where
  "with_u64 v h = mix h v"

definition with_int :: "int \<Rightarrow> StableDigest \<Rightarrow> StableDigest" where
  "with_int v h = mix h (of_int v)"

definition with_str :: "string \<Rightarrow> StableDigest \<Rightarrow> StableDigest" where
  "with_str sv h = mix_str h sv"

definition with_id :: "'tag ScalarIdentifier \<Rightarrow> StableDigest \<Rightarrow> StableDigest" where
  "with_id v h = mix h (get v)"

definition with_bool :: "bool \<Rightarrow> StableDigest \<Rightarrow> StableDigest" where
  "with_bool v h = mix_bool h v"

text \<open>A C string, or the null pointer.\<close>

definition with_c_str :: "string option \<Rightarrow> StableDigest \<Rightarrow> StableDigest" where
  "with_c_str s h = (case s of Some sv \<Rightarrow> mix_str h sv | None \<Rightarrow> mix h 0)"

definition digest_value :: "StableDigest \<Rightarrow> u64" where
  "digest_value h = h"

definition digest_reset :: "u64 \<Rightarrow> StableDigest \<Rightarrow> StableDigest" where
  "digest_reset seed h = seed"

definition digest_str :: "StableDigest \<Rightarrow> string" where
  "digest_str h = digest_string h"

section \<open>Absorbing an item loses nothing\<close>

text \<open>The contract of an accumulator: for a fixed item the step is injective in the state, and
  for a fixed state it is injective in the item.\<close>

locale absorbing =
  fixes step :: "'h \<Rightarrow> 'v \<Rightarrow> 'h"
  assumes state_inj: "step h v = step h' v \<Longrightarrow> h = h'"
    and item_inj: "step h v = step h v' \<Longrightarrow> v = v'"
begin

lemma fold_inj: "foldl step h vs = foldl step h' vs \<longleftrightarrow> h = h'"
  by (induction vs arbitrary: h h') (auto dest: state_inj)

lemma one_item_differs:
  "v \<noteq> v' \<Longrightarrow> foldl step h (pre @ v # post) \<noteq> foldl step h (pre @ v' # post)"
  by (auto simp: fold_inj dest: item_inj)

end

lemma mix64_inject [simp]: "mix64 x = mix64 y \<longleftrightarrow> x = y"
proof
  assume "mix64 x = mix64 y"
  then show "x = y"
    unfolding mix64_def Let_def
    by (elim xor_shift_inj [elim_format])
      (auto dest!: xor_shift_inj word_mult_inj [of "0xbf58476d1ce4e5b9" "0x96de1b173f119089", rotated]
        word_mult_inj [of "0x94d049bb133111eb" "0x319642b2d24d8ec3", rotated])
qed simp

lemma hash_id_mix64: "hash_id i = mix64 (get i)"
  by (simp add: hash_id_def mix64_def)

interpretation digest: absorbing mix
proof
  fix h h' v v' :: u64
  have inj: "a * 0x9e3779b97f4a7c15 = b * 0x9e3779b97f4a7c15 \<Longrightarrow> a = b" for a b :: u64
    by (rule word_mult_inj [of "0x9e3779b97f4a7c15" "0xf1de83e19937733d"]) simp_all
  show "mix h v = mix h' v \<Longrightarrow> h = h'"
    by (auto simp: mix_def xor_inj dest!: inj)
  show "mix h v = mix h v' \<Longrightarrow> v = v'"
    by (auto simp: mix_def xor_inj dest!: inj)
qed

lemma unat_ucast_byte:
  "unat (ucast (b :: byte) :: u64) = unat b" "unat (ucast (b :: byte) :: u32) = unat b"
  using unat_byte_less [of b] by (simp_all add: unsigned_ucast_eq take_bit_eq_mod)

lemma ucast_byte_inject:
  "(ucast (a :: byte) :: u64) = ucast b \<longleftrightarrow> a = b" "(ucast (a :: byte) :: u32) = ucast b \<longleftrightarrow> a = b"
  by (metis unat_ucast_byte word_unat_eq_iff)+

interpretation fnv: absorbing fnv_step
proof
  fix h h' :: u64 and v v' :: byte
  have inj: "a * 0x100000001b3 = b * 0x100000001b3 \<Longrightarrow> a = b" for a b :: u64
    by (rule word_mult_inj [of "0x100000001b3" "0xce965057aff6957b"]) simp_all
  show "fnv_step h v = fnv_step h' v \<Longrightarrow> h = h'"
    by (auto simp: fnv_step_def xor_inj dest!: inj)
  show "fnv_step h v = fnv_step h v' \<Longrightarrow> v = v'"
    by (auto simp: fnv_step_def xor_inj ucast_byte_inject dest!: inj)
qed

section \<open>The table-driven CRC is the bit-serial CRC\<close>

text \<open>The bit-serial reference: exclusive-or the byte into the register, then shift eight
  times.\<close>

definition crc_serial :: "u32 \<Rightarrow> byte \<Rightarrow> u32" where
  "crc_serial crc b = (crc_step ^^ 8) (crc XOR ucast b)"

lemma crc_step_0 [simp]: "crc_step 0 = 0"
  by (simp add: crc_step_def)

lemma low_bit: "(c AND 1 \<noteq> 0) = bit (c :: 'a::len word) 0"
  using bit_iff_and_push_bit_not_eq_0 [of c 0] by simp

lemma crc_step_bit:
  "crc_step c = (if bit c 0 then drop_bit 1 c XOR 0xEDB88320 else drop_bit 1 c)"
  unfolding crc_step_def low_bit ..

lemma crc_step_xor: "crc_step (x XOR y) = crc_step x XOR crc_step y"
  by (cases "bit x 0"; cases "bit y 0") (simp_all add: crc_step_bit bit_xor_iff drop_bit_xor ac_simps)

lemma crc_steps_xor: "(crc_step ^^ n) (x XOR y) = (crc_step ^^ n) x XOR (crc_step ^^ n) y"
  by (induction n) (simp_all add: crc_step_xor)

lemma crc_step_inject: "crc_step x = crc_step y \<Longrightarrow> x = y"
proof -
  assume eq: "crc_step x = crc_step y"
  have "\<not> bit (z :: u32) 32" for z using bit_imp_le_length [of z 32] by auto
  then have "bit (crc_step z) 31 = bit z 0" for z
    by (simp add: crc_step_bit bit_xor_iff bit_drop_bit_eq)
  with eq have low: "bit x 0 = bit y 0" by metis
  with eq have high: "drop_bit 1 x = drop_bit 1 y"
    by (auto simp: crc_step_bit xor_inj split: if_splits)
  show ?thesis
  proof (rule bit_word_eqI)
    fix i
    have "bit x (Suc j) = bit y (Suc j)" for j
      using arg_cong [OF high, of "\<lambda>w. bit w j"] by (simp add: bit_drop_bit_eq)
    with low show "bit x i = bit y i" by (cases i) auto
  qed
qed

lemma crc_steps_inject: "(crc_step ^^ n) x = (crc_step ^^ n) y \<longleftrightarrow> x = y"
  by (induction n) (auto dest: crc_step_inject)

lemma crc_step_even: "\<not> bit c 0 \<Longrightarrow> crc_step c = drop_bit 1 c"
  by (simp add: crc_step_bit)

lemma crc_steps_zeros:
  "(\<And>i. i < n \<Longrightarrow> \<not> bit c i) \<Longrightarrow> (crc_step ^^ n) c = drop_bit n c"
proof (induction n)
  case (Suc n)
  then have "(crc_step ^^ n) c = drop_bit n c" by simp
  moreover have "\<not> bit (drop_bit n c) 0" using Suc.prems [of n] by (simp add: bit_drop_bit_eq)
  ultimately show ?case by (simp add: crc_step_even)
qed simp

lemma and_FF: "(c :: u32) AND 0xFF = take_bit 8 c"
  by (simp add: take_bit_eq_mask mask_eq_exp_minus_1)

lemma crc_steps_split: "(crc_step ^^ 8) c = (crc_step ^^ 8) (take_bit 8 c) XOR drop_bit 8 c"
proof -
  let ?h = "push_bit 8 (drop_bit 8 c)"
  have split: "c = take_bit 8 c XOR ?h"
    by (rule bit_word_eqI)
      (auto simp: bit_xor_iff bit_take_bit_iff bit_push_bit_iff bit_drop_bit_eq)
  have "(crc_step ^^ 8) ?h = drop_bit 8 ?h"
    by (rule crc_steps_zeros) (simp add: bit_push_bit_iff)
  also have "drop_bit 8 ?h = drop_bit 8 c"
    by (rule bit_word_eqI) (auto simp: bit_drop_bit_eq bit_push_bit_iff dest: bit_imp_le_length)
  finally show ?thesis using arg_cong [OF split, of "crc_step ^^ 8"] by (simp only: crc_steps_xor)
qed

lemma crc_table_nth: "crc_table ! unat (take_bit 8 c :: u32) = (crc_step ^^ 8) (take_bit 8 c)"
proof -
  have "unat (take_bit 8 c :: u32) = take_bit 8 (unat c)" by (simp add: unsigned_take_bit_eq)
  then have "unat (take_bit 8 c :: u32) < 256" by (simp add: take_bit_eq_mod)
  then show ?thesis by (simp add: crc_table_def crc_table_make_def del: funpow.simps)
qed

lemma crc_update_serial: "crc_update crc b = crc_serial crc b"
proof -
  let ?c = "crc XOR ucast b"
  have "\<not> bit b (8 + i)" for i using bit_imp_le_length [of b "8 + i"] by auto
  then have high: "drop_bit 8 ?c = drop_bit 8 crc"
    by (intro bit_word_eqI) (simp add: bit_drop_bit_eq bit_xor_iff bit_unsigned_iff)
  have "crc_serial crc b = (crc_step ^^ 8) (take_bit 8 ?c) XOR drop_bit 8 ?c"
    unfolding crc_serial_def by (rule crc_steps_split)
  then show ?thesis by (simp only: crc_update_def crc_table_nth and_FF high)
qed

interpretation crc: absorbing crc_update
proof
  fix c c' :: u32 and b b' :: byte
  show "crc_update c b = crc_update c' b \<Longrightarrow> c = c'"
    by (simp add: crc_update_serial crc_serial_def crc_steps_inject xor_inj del: funpow.simps)
  show "crc_update c b = crc_update c b' \<Longrightarrow> b = b'"
    by (simp add: crc_update_serial crc_serial_def crc_steps_inject xor_inj ucast_byte_inject
        del: funpow.simps)
qed

lemma crc_serial_unroll:
  "crc_serial c b = crc_step (crc_step (crc_step (crc_step
     (crc_step (crc_step (crc_step (crc_step (c XOR ucast b))))))))"
  by (simp add: crc_serial_def eval_nat_numeral)

text \<open>Up to four bytes enter the register as one 32-bit window.\<close>

primrec crc_window :: "byte list \<Rightarrow> u32" where
  "crc_window [] = 0"
| "crc_window (b # bs) = ucast b XOR push_bit 8 (crc_window bs)"

lemma bit_ucast_byte: "bit (ucast (b :: byte) :: u32) i \<Longrightarrow> i < 8"
  using bit_imp_le_length [of b i] by (auto simp: bit_unsigned_iff)

lemma crc_window_bits: "bit (crc_window bs) i \<Longrightarrow> i < 8 * length bs"
proof (induction bs arbitrary: i)
  case (Cons b bs)
  then consider "bit (ucast b :: u32) i" | "8 \<le> i" "bit (crc_window bs) (i - 8)"
    by (auto simp: bit_xor_iff bit_push_bit_iff)
  then show ?case
    by cases (use bit_ucast_byte Cons.IH in fastforce)+
qed simp

lemma crc_window_unshift:
  assumes "length bs < 4"
  shows "drop_bit 8 (push_bit 8 (crc_window bs)) = crc_window bs"
proof -
  have "i < 24" if "bit (crc_window bs) i" for i
    using crc_window_bits [OF that] assms by simp
  then show ?thesis
    by (intro bit_word_eqI) (auto simp: bit_drop_bit_eq bit_push_bit_iff)
qed

lemma crc_fold_window:
  "length bs \<le> 4 \<Longrightarrow>
    foldl crc_serial c bs = (crc_step ^^ (8 * length bs)) (c XOR crc_window bs)"
proof (induction bs arbitrary: c)
  case (Cons b bs)
  let ?w = "crc_window bs"
  have "(crc_step ^^ 8) (push_bit 8 ?w) = drop_bit 8 (push_bit 8 ?w)"
    by (rule crc_steps_zeros) (simp add: bit_push_bit_iff)
  then have "(crc_step ^^ 8) (c XOR ucast b XOR push_bit 8 ?w) = crc_serial c b XOR ?w"
    unfolding crc_serial_def crc_steps_xor using crc_window_unshift [of bs] Cons.prems
    by (simp add: xor.assoc del: funpow.simps)
  moreover have "foldl crc_serial (crc_serial c b) bs
      = (crc_step ^^ (8 * length bs)) (crc_serial c b XOR ?w)"
    using Cons by simp
  moreover have "8 * length (b # bs) = 8 * length bs + 8" by simp
  then have "(crc_step ^^ (8 * length (b # bs))) x
      = (crc_step ^^ (8 * length bs)) ((crc_step ^^ 8) x)" for x
    by (simp only: funpow_add comp_apply)
  ultimately show ?case by (simp only: foldl_Cons crc_window.simps xor.assoc)
qed simp

lemma crc_window_inject:
  "length bs = length cs \<Longrightarrow> length bs \<le> 4 \<Longrightarrow> crc_window bs = crc_window cs \<Longrightarrow> bs = cs"
proof (induction bs cs rule: list_induct2)
  case (Cons b bs c cs)
  have low: "take_bit 8 (crc_window (x # xs)) = ucast x" for x xs
    by (rule bit_word_eqI)
      (auto simp: bit_take_bit_iff bit_xor_iff bit_push_bit_iff dest: bit_ucast_byte)
  from Cons.prems(2) have "ucast b = (ucast c :: u32)" using low by metis
  then have "b = c" by (simp add: ucast_byte_inject)
  with Cons.prems(2) have "push_bit 8 (crc_window bs) = push_bit 8 (crc_window cs)"
    by (simp add: xor_inj)
  then have "drop_bit 8 (push_bit 8 (crc_window bs)) = drop_bit 8 (push_bit 8 (crc_window cs))"
    by (rule arg_cong)
  moreover have "length bs < 4" "length cs < 4" using Cons.prems(1) Cons.hyps by simp_all
  ultimately have "crc_window bs = crc_window cs" by (simp only: crc_window_unshift)
  with Cons.IH Cons.prems(1) \<open>b = c\<close> show ?case by simp
qed simp

lemma crc_fold_serial: "foldl crc_update c bs = foldl crc_serial c bs"
  by (induction bs arbitrary: c) (simp_all add: crc_update_serial)

lemma crc32_burst:
  assumes "length mid = length mid'" "length mid \<le> 4" "mid \<noteq> mid'"
  shows "crc32 (pre @ mid @ post) \<noteq> crc32 (pre @ mid' @ post)"
proof -
  have "crc_window mid \<noteq> crc_window mid'" using assms crc_window_inject by blast
  then have "foldl crc_update c mid \<noteq> foldl crc_update c mid'" for c
    using assms by (simp add: crc_fold_serial crc_fold_window crc_steps_inject xor_inj)
  then show ?thesis by (simp add: crc32_def crc32_from_def xor_inj crc.fold_inj)
qed

section \<open>Properties\<close>

text \<open>The table-driven CRC-32 computes the bit-serial CRC-32 (reflected polynomial
  \<open>0xEDB88320\<close>, register preset and final complement), for every input and every starting
  register; on the standard check string it gives the standard check value.\<close>

theorem crc32_serial:
  "crc32_from crc data = foldl crc_serial crc data XOR 0xFFFFFFFF
    \<and> crc32 (bytes_of_string ''123456789'') = 0xCBF43926"
proof
  show "crc32_from crc data = foldl crc_serial crc data XOR 0xFFFFFFFF"
    by (simp add: crc32_from_def crc_fold_serial)
  have "foldl crc_serial 0xFFFFFFFF (bytes_of_string ''123456789'') XOR 0xFFFFFFFF = 0xCBF43926"
    by (simp add: bytes_of_string_def byte_of_char_def crc_serial_unroll crc_step_def)
  then show "crc32 (bytes_of_string ''123456789'') = 0xCBF43926"
    by (simp add: crc32_def crc32_from_def crc_fold_serial)
qed

text \<open>The CRC-32 detects every change confined to four consecutive bytes.\<close>

theorem crc32_detects_burst:
  assumes "length mid = length mid'" "length mid \<le> 4" "mid \<noteq> mid'"
  shows "crc32 (pre @ mid @ post) \<noteq> crc32 (pre @ mid' @ post)"
  using assms by (rule crc32_burst)

theorem crc32_detects_burst_witness:
  "crc32 ([1] @ [2, 3, 4, 5] @ [6]) \<noteq> crc32 ([1] @ [2, 0, 0, 7] @ [6])"
  by (rule crc32_detects_burst) simp_all

end
