(* ===== verification/Enums.thy ===== *)
theory Enums
  imports Prelude
begin

text \<open>
  \<^verbatim>\<open>enums.hpp\<close>: the typed vocabulary.  Each \<^verbatim>\<open>enum class\<close> is a datatype (its enumerators
  prefixed by the initials of the type), with its underlying byte (\<open>..._val\<close>) and its name
  table (\<open>k...\<close>).  A value of the C++ type may hold a byte that is no enumerator; such a value
  only arises by casting a byte read from outside, and the code tests it at once with
  \<^verbatim>\<open>is_valid\<close>: \<open>enum_cast\<close> is that cast and test together.  The lemmas show that names and
  bytes determine the enumerators, once for any table in the locale \<open>enum_table\<close>.
\<close>

section \<open>Tables\<close>

fun enum_name :: "'e \<Rightarrow> ('e \<times> string) list \<Rightarrow> string" where
  "enum_name v [] = ''Unknown''"
| "enum_name v ((e, n) # tbl) = (if e = v then n else enum_name v tbl)"

fun enum_parse :: "string \<Rightarrow> ('e \<times> string) list \<Rightarrow> 'e option" where
  "enum_parse s [] = None"
| "enum_parse s ((e, n) # tbl) = (if s = n then Some e else enum_parse s tbl)"

fun enum_is_valid :: "('e \<Rightarrow> u8) \<Rightarrow> u8 \<Rightarrow> ('e \<times> string) list \<Rightarrow> bool" where
  "enum_is_valid val b [] = False"
| "enum_is_valid val b ((e, n) # tbl) = (if val e = b then True else enum_is_valid val b tbl)"

fun enum_cast :: "('e \<Rightarrow> u8) \<Rightarrow> u8 \<Rightarrow> ('e \<times> string) list \<Rightarrow> 'e option" where
  "enum_cast val b [] = None"
| "enum_cast val b ((e, n) # tbl) = (if val e = b then Some e else enum_cast val b tbl)"

text \<open>What every table of the file promises: it lists every enumerator, no byte and no name
  twice.\<close>

locale enum_table =
  fixes val :: "'e \<Rightarrow> u8" and tbl :: "('e \<times> string) list"
  assumes complete: "v \<in> fst ` set tbl"
    and distinct_bytes: "distinct (map (val \<circ> fst) tbl)"
    and distinct_names: "distinct (map snd tbl)"
begin

lemma same_entry:
  assumes "val a = val b" "(a, m) \<in> set tbl" "(b, n) \<in> set tbl"
  shows "a = b \<and> m = n"
proof -
  have "inj_on (val \<circ> fst) (set tbl)" using distinct_bytes by (simp add: distinct_map)
  from inj_onD [OF this, of "(a, m)" "(b, n)"] assms show ?thesis by simp
qed

lemma in_table: "(v, enum_name v tbl) \<in> set tbl"
proof -
  have "v \<in> fst ` set t \<Longrightarrow> (v, enum_name v t) \<in> set t" for t
    by (induction v t rule: enum_name.induct) auto
  then show ?thesis using complete by blast
qed

lemma val_eq_iff: "val a = val b \<longleftrightarrow> a = b"
  using same_entry in_table by blast

lemma cast_val: "enum_cast val (val v) tbl = Some v"
proof -
  have "(v, n) \<in> set t \<Longrightarrow> enum_cast val (val v) t = Some v" for t n
    by (induction t) (auto simp: val_eq_iff)
  then show ?thesis using in_table by blast
qed

lemma cast_Some_iff: "enum_cast val b tbl = Some v \<longleftrightarrow> val v = b"
proof -
  have "enum_cast val b t = Some v \<Longrightarrow> val v = b" for t
    by (induction val b t rule: enum_cast.induct) (auto split: if_splits)
  then show ?thesis using cast_val by blast
qed

lemma is_valid_cast: "enum_is_valid val b tbl \<longleftrightarrow> enum_cast val b tbl \<noteq> None"
proof -
  have "enum_is_valid val b t \<longleftrightarrow> enum_cast val b t \<noteq> None" for t
    by (induction val b t rule: enum_cast.induct) auto
  then show ?thesis .
qed

lemma parse_in_table: "enum_parse s tbl = Some v \<longleftrightarrow> (v, s) \<in> set tbl"
proof -
  have "distinct (map snd t) \<Longrightarrow> enum_parse s t = Some v \<longleftrightarrow> (v, s) \<in> set t" for t
    by (induction s t rule: enum_parse.induct) (auto simp: image_iff)
  then show ?thesis using distinct_names by blast
qed

lemma table_entry: "(v, s) \<in> set tbl \<Longrightarrow> s = enum_name v tbl"
  using same_entry in_table by blast

lemma parse_name: "enum_parse (enum_name v tbl) tbl = Some v"
  by (simp add: parse_in_table in_table)

lemma parse_Some_iff: "enum_parse s tbl = Some v \<longleftrightarrow> s = enum_name v tbl"
  using parse_in_table table_entry in_table by blast

end

section \<open>SubjectKind\<close>

datatype SubjectKind =
    SK_KVState
  | SK_TensorState
  | SK_ReusablePrefix
  | SK_ModelArtifact
  | SK_Adapter
  | SK_CompiledKernel
  | SK_ExecutionGraph
  | SK_Checkpoint
  | SK_Buffer
  | SK_ModelResidency
  | SK_DerivedExecutionPlan
  | SK_CompiledArtifact
  | SK_RuntimeCache
  | SK_ReusableComputation
  | SK_Generic
  | SK_Unknown

primrec SubjectKind_val :: "SubjectKind \<Rightarrow> u8" where
    "SubjectKind_val SK_KVState = 0"
  | "SubjectKind_val SK_TensorState = 1"
  | "SubjectKind_val SK_ReusablePrefix = 2"
  | "SubjectKind_val SK_ModelArtifact = 3"
  | "SubjectKind_val SK_Adapter = 4"
  | "SubjectKind_val SK_CompiledKernel = 5"
  | "SubjectKind_val SK_ExecutionGraph = 6"
  | "SubjectKind_val SK_Checkpoint = 7"
  | "SubjectKind_val SK_Buffer = 8"
  | "SubjectKind_val SK_ModelResidency = 9"
  | "SubjectKind_val SK_DerivedExecutionPlan = 10"
  | "SubjectKind_val SK_CompiledArtifact = 11"
  | "SubjectKind_val SK_RuntimeCache = 12"
  | "SubjectKind_val SK_ReusableComputation = 13"
  | "SubjectKind_val SK_Generic = 14"
  | "SubjectKind_val SK_Unknown = 15"

definition kSubjectKind :: "(SubjectKind \<times> string) list" where
  "kSubjectKind =
    [(SK_KVState, ''KVState''),
     (SK_TensorState, ''TensorState''),
     (SK_ReusablePrefix, ''ReusablePrefix''),
     (SK_ModelArtifact, ''ModelArtifact''),
     (SK_Adapter, ''Adapter''),
     (SK_CompiledKernel, ''CompiledKernel''),
     (SK_ExecutionGraph, ''ExecutionGraph''),
     (SK_Checkpoint, ''Checkpoint''),
     (SK_Buffer, ''Buffer''),
     (SK_ModelResidency, ''ModelResidency''),
     (SK_DerivedExecutionPlan, ''DerivedExecutionPlan''),
     (SK_CompiledArtifact, ''CompiledArtifact''),
     (SK_RuntimeCache, ''RuntimeCache''),
     (SK_ReusableComputation, ''ReusableComputation''),
     (SK_Generic, ''Generic''),
     (SK_Unknown, ''Unknown'')]"

definition name_of_SubjectKind :: "SubjectKind \<Rightarrow> string" where
  "name_of_SubjectKind v = enum_name v kSubjectKind"

definition parse_SubjectKind :: "string \<Rightarrow> SubjectKind option" where
  "parse_SubjectKind s = enum_parse s kSubjectKind"

definition is_valid_SubjectKind :: "u8 \<Rightarrow> bool" where
  "is_valid_SubjectKind b = enum_is_valid SubjectKind_val b kSubjectKind"

definition cast_SubjectKind :: "u8 \<Rightarrow> SubjectKind option" where
  "cast_SubjectKind b = enum_cast SubjectKind_val b kSubjectKind"

interpretation subject_kind: enum_table SubjectKind_val kSubjectKind
proof
  show "v \<in> fst ` set kSubjectKind" for v by (cases v) (simp_all add: kSubjectKind_def)
  show "distinct (map (SubjectKind_val \<circ> fst) kSubjectKind)" by code_simp
  show "distinct (map snd kSubjectKind)" by code_simp
qed

lemma cast_SubjectKind_val [simp]: "cast_SubjectKind (SubjectKind_val v) = Some v"
  by (simp add: cast_SubjectKind_def subject_kind.cast_val)

lemma cast_SubjectKind_Some: "cast_SubjectKind b = Some v \<longleftrightarrow> SubjectKind_val v = b"
  by (simp add: cast_SubjectKind_def subject_kind.cast_Some_iff)

section \<open>EvidenceClass\<close>

datatype EvidenceClass =
    EV_MEASURED
  | EV_REPORTED
  | EV_DERIVED
  | EV_RECONSTRUCTED
  | EV_ESTIMATED
  | EV_UNKNOWN

primrec EvidenceClass_val :: "EvidenceClass \<Rightarrow> u8" where
    "EvidenceClass_val EV_MEASURED = 0"
  | "EvidenceClass_val EV_REPORTED = 1"
  | "EvidenceClass_val EV_DERIVED = 2"
  | "EvidenceClass_val EV_RECONSTRUCTED = 3"
  | "EvidenceClass_val EV_ESTIMATED = 4"
  | "EvidenceClass_val EV_UNKNOWN = 5"

definition kEvidenceClass :: "(EvidenceClass \<times> string) list" where
  "kEvidenceClass =
    [(EV_MEASURED, ''MEASURED''),
     (EV_REPORTED, ''REPORTED''),
     (EV_DERIVED, ''DERIVED''),
     (EV_RECONSTRUCTED, ''RECONSTRUCTED''),
     (EV_ESTIMATED, ''ESTIMATED''),
     (EV_UNKNOWN, ''UNKNOWN'')]"

definition name_of_EvidenceClass :: "EvidenceClass \<Rightarrow> string" where
  "name_of_EvidenceClass v = enum_name v kEvidenceClass"

definition parse_EvidenceClass :: "string \<Rightarrow> EvidenceClass option" where
  "parse_EvidenceClass s = enum_parse s kEvidenceClass"

definition is_valid_EvidenceClass :: "u8 \<Rightarrow> bool" where
  "is_valid_EvidenceClass b = enum_is_valid EvidenceClass_val b kEvidenceClass"

definition cast_EvidenceClass :: "u8 \<Rightarrow> EvidenceClass option" where
  "cast_EvidenceClass b = enum_cast EvidenceClass_val b kEvidenceClass"

interpretation evidence_class: enum_table EvidenceClass_val kEvidenceClass
proof
  show "v \<in> fst ` set kEvidenceClass" for v by (cases v) (simp_all add: kEvidenceClass_def)
  show "distinct (map (EvidenceClass_val \<circ> fst) kEvidenceClass)" by code_simp
  show "distinct (map snd kEvidenceClass)" by code_simp
qed

lemma cast_EvidenceClass_val [simp]: "cast_EvidenceClass (EvidenceClass_val v) = Some v"
  by (simp add: cast_EvidenceClass_def evidence_class.cast_val)

lemma cast_EvidenceClass_Some: "cast_EvidenceClass b = Some v \<longleftrightarrow> EvidenceClass_val v = b"
  by (simp add: cast_EvidenceClass_def evidence_class.cast_Some_iff)

instantiation EvidenceClass :: linorder
begin

definition less_eq_EvidenceClass :: "EvidenceClass \<Rightarrow> EvidenceClass \<Rightarrow> bool" where
  "less_eq_EvidenceClass a b \<longleftrightarrow> EvidenceClass_val a \<le> EvidenceClass_val b"

definition less_EvidenceClass :: "EvidenceClass \<Rightarrow> EvidenceClass \<Rightarrow> bool" where
  "less_EvidenceClass a b \<longleftrightarrow> EvidenceClass_val a < EvidenceClass_val b"

instance
  by standard (auto simp: less_eq_EvidenceClass_def less_EvidenceClass_def evidence_class.val_eq_iff [symmetric])

end

section \<open>ValidityState\<close>

datatype ValidityState =
    VS_VALID
  | VS_STALE
  | VS_INVALIDATED
  | VS_UNKNOWN

primrec ValidityState_val :: "ValidityState \<Rightarrow> u8" where
    "ValidityState_val VS_VALID = 0"
  | "ValidityState_val VS_STALE = 1"
  | "ValidityState_val VS_INVALIDATED = 2"
  | "ValidityState_val VS_UNKNOWN = 3"

definition kValidityState :: "(ValidityState \<times> string) list" where
  "kValidityState =
    [(VS_VALID, ''VALID''),
     (VS_STALE, ''STALE''),
     (VS_INVALIDATED, ''INVALIDATED''),
     (VS_UNKNOWN, ''UNKNOWN'')]"

definition name_of_ValidityState :: "ValidityState \<Rightarrow> string" where
  "name_of_ValidityState v = enum_name v kValidityState"

definition parse_ValidityState :: "string \<Rightarrow> ValidityState option" where
  "parse_ValidityState s = enum_parse s kValidityState"

definition is_valid_ValidityState :: "u8 \<Rightarrow> bool" where
  "is_valid_ValidityState b = enum_is_valid ValidityState_val b kValidityState"

definition cast_ValidityState :: "u8 \<Rightarrow> ValidityState option" where
  "cast_ValidityState b = enum_cast ValidityState_val b kValidityState"

interpretation validity_state: enum_table ValidityState_val kValidityState
proof
  show "v \<in> fst ` set kValidityState" for v by (cases v) (simp_all add: kValidityState_def)
  show "distinct (map (ValidityState_val \<circ> fst) kValidityState)" by code_simp
  show "distinct (map snd kValidityState)" by code_simp
qed

lemma cast_ValidityState_val [simp]: "cast_ValidityState (ValidityState_val v) = Some v"
  by (simp add: cast_ValidityState_def validity_state.cast_val)

lemma cast_ValidityState_Some: "cast_ValidityState b = Some v \<longleftrightarrow> ValidityState_val v = b"
  by (simp add: cast_ValidityState_def validity_state.cast_Some_iff)

instantiation ValidityState :: linorder
begin

definition less_eq_ValidityState :: "ValidityState \<Rightarrow> ValidityState \<Rightarrow> bool" where
  "less_eq_ValidityState a b \<longleftrightarrow> ValidityState_val a \<le> ValidityState_val b"

definition less_ValidityState :: "ValidityState \<Rightarrow> ValidityState \<Rightarrow> bool" where
  "less_ValidityState a b \<longleftrightarrow> ValidityState_val a < ValidityState_val b"

instance
  by standard (auto simp: less_eq_ValidityState_def less_ValidityState_def validity_state.val_eq_iff [symmetric])

end

section \<open>ReuseEligibility\<close>

datatype ReuseEligibility =
    RE_ELIGIBLE
  | RE_INELIGIBLE
  | RE_STALE
  | RE_INVALIDATED
  | RE_INCOMPATIBLE
  | RE_INCOMPLETE_PROVENANCE
  | RE_UNKNOWN

primrec ReuseEligibility_val :: "ReuseEligibility \<Rightarrow> u8" where
    "ReuseEligibility_val RE_ELIGIBLE = 0"
  | "ReuseEligibility_val RE_INELIGIBLE = 1"
  | "ReuseEligibility_val RE_STALE = 2"
  | "ReuseEligibility_val RE_INVALIDATED = 3"
  | "ReuseEligibility_val RE_INCOMPATIBLE = 4"
  | "ReuseEligibility_val RE_INCOMPLETE_PROVENANCE = 5"
  | "ReuseEligibility_val RE_UNKNOWN = 6"

definition kReuseEligibility :: "(ReuseEligibility \<times> string) list" where
  "kReuseEligibility =
    [(RE_ELIGIBLE, ''ELIGIBLE''),
     (RE_INELIGIBLE, ''INELIGIBLE''),
     (RE_STALE, ''STALE''),
     (RE_INVALIDATED, ''INVALIDATED''),
     (RE_INCOMPATIBLE, ''INCOMPATIBLE''),
     (RE_INCOMPLETE_PROVENANCE, ''INCOMPLETE_PROVENANCE''),
     (RE_UNKNOWN, ''UNKNOWN'')]"

definition name_of_ReuseEligibility :: "ReuseEligibility \<Rightarrow> string" where
  "name_of_ReuseEligibility v = enum_name v kReuseEligibility"

definition parse_ReuseEligibility :: "string \<Rightarrow> ReuseEligibility option" where
  "parse_ReuseEligibility s = enum_parse s kReuseEligibility"

definition is_valid_ReuseEligibility :: "u8 \<Rightarrow> bool" where
  "is_valid_ReuseEligibility b = enum_is_valid ReuseEligibility_val b kReuseEligibility"

definition cast_ReuseEligibility :: "u8 \<Rightarrow> ReuseEligibility option" where
  "cast_ReuseEligibility b = enum_cast ReuseEligibility_val b kReuseEligibility"

interpretation reuse_elig: enum_table ReuseEligibility_val kReuseEligibility
proof
  show "v \<in> fst ` set kReuseEligibility" for v by (cases v) (simp_all add: kReuseEligibility_def)
  show "distinct (map (ReuseEligibility_val \<circ> fst) kReuseEligibility)" by code_simp
  show "distinct (map snd kReuseEligibility)" by code_simp
qed

lemma cast_ReuseEligibility_val [simp]: "cast_ReuseEligibility (ReuseEligibility_val v) = Some v"
  by (simp add: cast_ReuseEligibility_def reuse_elig.cast_val)

lemma cast_ReuseEligibility_Some: "cast_ReuseEligibility b = Some v \<longleftrightarrow> ReuseEligibility_val v = b"
  by (simp add: cast_ReuseEligibility_def reuse_elig.cast_Some_iff)

section \<open>InvalidationReason\<close>

datatype InvalidationReason =
    IR_ModelRevisionChange
  | IR_AdapterRevisionChange
  | IR_CompositionChange
  | IR_ArtifactInvalidation
  | IR_DependencyInvalidation
  | IR_RuntimeBackendIncompatibility
  | IR_ArchitectureIncompatibility
  | IR_PolicyGenerationChange
  | IR_OperatorInvalidation
  | IR_CorruptState
  | IR_ProducerGenerationRollover
  | IR_Unknown

primrec InvalidationReason_val :: "InvalidationReason \<Rightarrow> u8" where
    "InvalidationReason_val IR_ModelRevisionChange = 0"
  | "InvalidationReason_val IR_AdapterRevisionChange = 1"
  | "InvalidationReason_val IR_CompositionChange = 2"
  | "InvalidationReason_val IR_ArtifactInvalidation = 3"
  | "InvalidationReason_val IR_DependencyInvalidation = 4"
  | "InvalidationReason_val IR_RuntimeBackendIncompatibility = 5"
  | "InvalidationReason_val IR_ArchitectureIncompatibility = 6"
  | "InvalidationReason_val IR_PolicyGenerationChange = 7"
  | "InvalidationReason_val IR_OperatorInvalidation = 8"
  | "InvalidationReason_val IR_CorruptState = 9"
  | "InvalidationReason_val IR_ProducerGenerationRollover = 10"
  | "InvalidationReason_val IR_Unknown = 11"

definition kInvalidationReason :: "(InvalidationReason \<times> string) list" where
  "kInvalidationReason =
    [(IR_ModelRevisionChange, ''ModelRevisionChange''),
     (IR_AdapterRevisionChange, ''AdapterRevisionChange''),
     (IR_CompositionChange, ''CompositionChange''),
     (IR_ArtifactInvalidation, ''ArtifactInvalidation''),
     (IR_DependencyInvalidation, ''DependencyInvalidation''),
     (IR_RuntimeBackendIncompatibility, ''RuntimeBackendIncompatibility''),
     (IR_ArchitectureIncompatibility, ''ArchitectureIncompatibility''),
     (IR_PolicyGenerationChange, ''PolicyGenerationChange''),
     (IR_OperatorInvalidation, ''OperatorInvalidation''),
     (IR_CorruptState, ''CorruptState''),
     (IR_ProducerGenerationRollover, ''ProducerGenerationRollover''),
     (IR_Unknown, ''Unknown'')]"

definition name_of_InvalidationReason :: "InvalidationReason \<Rightarrow> string" where
  "name_of_InvalidationReason v = enum_name v kInvalidationReason"

definition parse_InvalidationReason :: "string \<Rightarrow> InvalidationReason option" where
  "parse_InvalidationReason s = enum_parse s kInvalidationReason"

definition is_valid_InvalidationReason :: "u8 \<Rightarrow> bool" where
  "is_valid_InvalidationReason b = enum_is_valid InvalidationReason_val b kInvalidationReason"

definition cast_InvalidationReason :: "u8 \<Rightarrow> InvalidationReason option" where
  "cast_InvalidationReason b = enum_cast InvalidationReason_val b kInvalidationReason"

interpretation inval_reason: enum_table InvalidationReason_val kInvalidationReason
proof
  show "v \<in> fst ` set kInvalidationReason" for v by (cases v) (simp_all add: kInvalidationReason_def)
  show "distinct (map (InvalidationReason_val \<circ> fst) kInvalidationReason)" by code_simp
  show "distinct (map snd kInvalidationReason)" by code_simp
qed

lemma cast_InvalidationReason_val [simp]: "cast_InvalidationReason (InvalidationReason_val v) = Some v"
  by (simp add: cast_InvalidationReason_def inval_reason.cast_val)

lemma cast_InvalidationReason_Some: "cast_InvalidationReason b = Some v \<longleftrightarrow> InvalidationReason_val v = b"
  by (simp add: cast_InvalidationReason_def inval_reason.cast_Some_iff)

section \<open>CompatibilityDimension\<close>

datatype CompatibilityDimension =
    CD_ModelIdentity
  | CD_ModelRevision
  | CD_Tokenizer
  | CD_AdapterIdentity
  | CD_AdapterRevision
  | CD_AdapterComposition
  | CD_Backend
  | CD_Runtime
  | CD_Compiler
  | CD_Toolchain
  | CD_Architecture
  | CD_ComputeCapability
  | CD_ABI
  | CD_Dtype
  | CD_Layout
  | CD_TensorGeometry
  | CD_ShapeSpecialization
  | CD_KernelSpecialization
  | CD_GraphTopology
  | CD_ModelGen
  | CD_AdapterGen
  | CD_CompositionGen
  | CD_RuntimeGen
  | CD_PolicyGen
  | CD_ArtifactGen
  | CD_ResidencyGen
  | CD_DependencyGen
  | CD_ProvenanceIntegrity
  | CD_Unknown

primrec CompatibilityDimension_val :: "CompatibilityDimension \<Rightarrow> u8" where
    "CompatibilityDimension_val CD_ModelIdentity = 0"
  | "CompatibilityDimension_val CD_ModelRevision = 1"
  | "CompatibilityDimension_val CD_Tokenizer = 2"
  | "CompatibilityDimension_val CD_AdapterIdentity = 3"
  | "CompatibilityDimension_val CD_AdapterRevision = 4"
  | "CompatibilityDimension_val CD_AdapterComposition = 5"
  | "CompatibilityDimension_val CD_Backend = 6"
  | "CompatibilityDimension_val CD_Runtime = 7"
  | "CompatibilityDimension_val CD_Compiler = 8"
  | "CompatibilityDimension_val CD_Toolchain = 9"
  | "CompatibilityDimension_val CD_Architecture = 10"
  | "CompatibilityDimension_val CD_ComputeCapability = 11"
  | "CompatibilityDimension_val CD_ABI = 12"
  | "CompatibilityDimension_val CD_Dtype = 13"
  | "CompatibilityDimension_val CD_Layout = 14"
  | "CompatibilityDimension_val CD_TensorGeometry = 15"
  | "CompatibilityDimension_val CD_ShapeSpecialization = 16"
  | "CompatibilityDimension_val CD_KernelSpecialization = 17"
  | "CompatibilityDimension_val CD_GraphTopology = 18"
  | "CompatibilityDimension_val CD_ModelGen = 19"
  | "CompatibilityDimension_val CD_AdapterGen = 20"
  | "CompatibilityDimension_val CD_CompositionGen = 21"
  | "CompatibilityDimension_val CD_RuntimeGen = 22"
  | "CompatibilityDimension_val CD_PolicyGen = 23"
  | "CompatibilityDimension_val CD_ArtifactGen = 24"
  | "CompatibilityDimension_val CD_ResidencyGen = 25"
  | "CompatibilityDimension_val CD_DependencyGen = 26"
  | "CompatibilityDimension_val CD_ProvenanceIntegrity = 27"
  | "CompatibilityDimension_val CD_Unknown = 28"

definition kCompatibilityDimension :: "(CompatibilityDimension \<times> string) list" where
  "kCompatibilityDimension =
    [(CD_ModelIdentity, ''ModelIdentity''),
     (CD_ModelRevision, ''ModelRevision''),
     (CD_Tokenizer, ''Tokenizer''),
     (CD_AdapterIdentity, ''AdapterIdentity''),
     (CD_AdapterRevision, ''AdapterRevision''),
     (CD_AdapterComposition, ''AdapterComposition''),
     (CD_Backend, ''Backend''),
     (CD_Runtime, ''Runtime''),
     (CD_Compiler, ''Compiler''),
     (CD_Toolchain, ''Toolchain''),
     (CD_Architecture, ''Architecture''),
     (CD_ComputeCapability, ''ComputeCapability''),
     (CD_ABI, ''ABI''),
     (CD_Dtype, ''Dtype''),
     (CD_Layout, ''Layout''),
     (CD_TensorGeometry, ''TensorGeometry''),
     (CD_ShapeSpecialization, ''ShapeSpecialization''),
     (CD_KernelSpecialization, ''KernelSpecialization''),
     (CD_GraphTopology, ''GraphTopology''),
     (CD_ModelGen, ''ModelGen''),
     (CD_AdapterGen, ''AdapterGen''),
     (CD_CompositionGen, ''CompositionGen''),
     (CD_RuntimeGen, ''RuntimeGen''),
     (CD_PolicyGen, ''PolicyGen''),
     (CD_ArtifactGen, ''ArtifactGen''),
     (CD_ResidencyGen, ''ResidencyGen''),
     (CD_DependencyGen, ''DependencyGen''),
     (CD_ProvenanceIntegrity, ''ProvenanceIntegrity''),
     (CD_Unknown, ''Unknown'')]"

definition name_of_CompatibilityDimension :: "CompatibilityDimension \<Rightarrow> string" where
  "name_of_CompatibilityDimension v = enum_name v kCompatibilityDimension"

definition parse_CompatibilityDimension :: "string \<Rightarrow> CompatibilityDimension option" where
  "parse_CompatibilityDimension s = enum_parse s kCompatibilityDimension"

definition is_valid_CompatibilityDimension :: "u8 \<Rightarrow> bool" where
  "is_valid_CompatibilityDimension b = enum_is_valid CompatibilityDimension_val b kCompatibilityDimension"

definition cast_CompatibilityDimension :: "u8 \<Rightarrow> CompatibilityDimension option" where
  "cast_CompatibilityDimension b = enum_cast CompatibilityDimension_val b kCompatibilityDimension"

interpretation compat_dim: enum_table CompatibilityDimension_val kCompatibilityDimension
proof
  show "v \<in> fst ` set kCompatibilityDimension" for v by (cases v) (simp_all add: kCompatibilityDimension_def)
  show "distinct (map (CompatibilityDimension_val \<circ> fst) kCompatibilityDimension)" by code_simp
  show "distinct (map snd kCompatibilityDimension)" by code_simp
qed

lemma cast_CompatibilityDimension_val [simp]: "cast_CompatibilityDimension (CompatibilityDimension_val v) = Some v"
  by (simp add: cast_CompatibilityDimension_def compat_dim.cast_val)

lemma cast_CompatibilityDimension_Some: "cast_CompatibilityDimension b = Some v \<longleftrightarrow> CompatibilityDimension_val v = b"
  by (simp add: cast_CompatibilityDimension_def compat_dim.cast_Some_iff)

instantiation CompatibilityDimension :: linorder
begin

definition less_eq_CompatibilityDimension :: "CompatibilityDimension \<Rightarrow> CompatibilityDimension \<Rightarrow> bool" where
  "less_eq_CompatibilityDimension a b \<longleftrightarrow> CompatibilityDimension_val a \<le> CompatibilityDimension_val b"

definition less_CompatibilityDimension :: "CompatibilityDimension \<Rightarrow> CompatibilityDimension \<Rightarrow> bool" where
  "less_CompatibilityDimension a b \<longleftrightarrow> CompatibilityDimension_val a < CompatibilityDimension_val b"

instance
  by standard (auto simp: less_eq_CompatibilityDimension_def less_CompatibilityDimension_def compat_dim.val_eq_iff [symmetric])

end

section \<open>Properties\<close>

text \<open>In each of the six vocabularies an enumerator is recovered from its printed name and
  from its byte, a name parses only to the enumerator it names, and the validity test accepts
  exactly the bytes of the enumerators.\<close>

theorem enum_roundtrips:
  "(parse_SubjectKind n = Some k \<longleftrightarrow> n = name_of_SubjectKind k)
    \<and> (parse_EvidenceClass n = Some e \<longleftrightarrow> n = name_of_EvidenceClass e)
    \<and> (parse_ValidityState n = Some v \<longleftrightarrow> n = name_of_ValidityState v)
    \<and> (parse_ReuseEligibility n = Some u \<longleftrightarrow> n = name_of_ReuseEligibility u)
    \<and> (parse_InvalidationReason n = Some i \<longleftrightarrow> n = name_of_InvalidationReason i)
    \<and> (parse_CompatibilityDimension n = Some d \<longleftrightarrow> n = name_of_CompatibilityDimension d)
    \<and> (is_valid_SubjectKind b \<longleftrightarrow> (\<exists>x. SubjectKind_val x = b))
    \<and> (is_valid_EvidenceClass b \<longleftrightarrow> (\<exists>x. EvidenceClass_val x = b))
    \<and> (is_valid_ValidityState b \<longleftrightarrow> (\<exists>x. ValidityState_val x = b))
    \<and> (is_valid_ReuseEligibility b \<longleftrightarrow> (\<exists>x. ReuseEligibility_val x = b))
    \<and> (is_valid_InvalidationReason b \<longleftrightarrow> (\<exists>x. InvalidationReason_val x = b))
    \<and> (is_valid_CompatibilityDimension b \<longleftrightarrow> (\<exists>x. CompatibilityDimension_val x = b))"
  by (simp add: parse_SubjectKind_def name_of_SubjectKind_def subject_kind.parse_Some_iff
      parse_EvidenceClass_def name_of_EvidenceClass_def evidence_class.parse_Some_iff
      parse_ValidityState_def name_of_ValidityState_def validity_state.parse_Some_iff
      parse_ReuseEligibility_def name_of_ReuseEligibility_def reuse_elig.parse_Some_iff
      parse_InvalidationReason_def name_of_InvalidationReason_def inval_reason.parse_Some_iff
      parse_CompatibilityDimension_def name_of_CompatibilityDimension_def compat_dim.parse_Some_iff
      is_valid_SubjectKind_def subject_kind.is_valid_cast subject_kind.cast_Some_iff
      is_valid_EvidenceClass_def evidence_class.is_valid_cast evidence_class.cast_Some_iff
      is_valid_ValidityState_def validity_state.is_valid_cast validity_state.cast_Some_iff
      is_valid_ReuseEligibility_def reuse_elig.is_valid_cast reuse_elig.cast_Some_iff
      is_valid_InvalidationReason_def inval_reason.is_valid_cast inval_reason.cast_Some_iff
      is_valid_CompatibilityDimension_def compat_dim.is_valid_cast compat_dim.cast_Some_iff)

end
