(* ===== verification/Provenance_Record.thy ===== *)
theory Provenance_Record
  imports Digest Enums
begin

text \<open>
  \<^verbatim>\<open>record.hpp\<close>: the provenance record, its validation, its order-independent digest and the
  builder's validating constructors.  A \<^verbatim>\<open>ProvenanceRecord\<close> holds a constant \<^verbatim>\<open>RecordData\<close>
  and nothing else, so both are the record \<open>RecordData\<close> here (nothing in the model updates a
  published one); the builder's setters are its field updates.
\<close>

section \<open>Data\<close>

datatype Dependency =
  Dependency (dep_id: DependencyId) (dep_generation: DependencyGeneration)
    (dep_kind: string) (dep_revision: string)

datatype CompatibilityRequirement =
  CompatibilityRequirement (req_dimension: CompatibilityDimension)
    (req_required_value: string) (req_note: string)

text \<open>The defaulted comparisons are lexicographic in declaration order; \<^verbatim>\<open>std::string\<close>
  compares bytes.\<close>

definition dep_key :: "Dependency \<Rightarrow> DependencyId \<times> DependencyGeneration \<times> string \<times> string" where
  "dep_key d = (dep_id d, dep_generation d, dep_kind d, dep_revision d)"

lemma dep_key_inject: "dep_key a = dep_key b \<longleftrightarrow> a = b"
  by (cases a; cases b) (simp add: dep_key_def)

instantiation Dependency :: linorder
begin

definition less_eq_Dependency :: "Dependency \<Rightarrow> Dependency \<Rightarrow> bool" where
  "less_eq_Dependency a b \<longleftrightarrow> dep_key a \<le> dep_key b"

definition less_Dependency :: "Dependency \<Rightarrow> Dependency \<Rightarrow> bool" where
  "less_Dependency a b \<longleftrightarrow> dep_key a < dep_key b"

instance
  by standard
    (auto simp: less_eq_Dependency_def less_Dependency_def less_le_not_le dep_key_inject
      simp flip: dep_key_inject)

end

definition req_key :: "CompatibilityRequirement \<Rightarrow> CompatibilityDimension \<times> string \<times> string" where
  "req_key r = (req_dimension r, req_required_value r, req_note r)"

lemma req_key_inject: "req_key a = req_key b \<longleftrightarrow> a = b"
  by (cases a; cases b) (simp add: req_key_def)

instantiation CompatibilityRequirement :: linorder
begin

definition less_eq_CompatibilityRequirement ::
  "CompatibilityRequirement \<Rightarrow> CompatibilityRequirement \<Rightarrow> bool" where
  "less_eq_CompatibilityRequirement a b \<longleftrightarrow> req_key a \<le> req_key b"

definition less_CompatibilityRequirement ::
  "CompatibilityRequirement \<Rightarrow> CompatibilityRequirement \<Rightarrow> bool" where
  "less_CompatibilityRequirement a b \<longleftrightarrow> req_key a < req_key b"

instance
  by standard
    (auto simp: less_eq_CompatibilityRequirement_def less_CompatibilityRequirement_def
      less_le_not_le simp flip: req_key_inject)

end

record RecordData =
  provenance_id :: ProvenanceId
  provenance_generation :: ProvenanceGeneration
  subject_id :: StateId
  subject_kind :: SubjectKind
  state_generation :: StateGeneration
  producer_id :: ProducerId
  producer_generation :: ProducerGeneration
  execution_id :: ExecutionId
  attempt_id :: AttemptId
  attempt_generation :: AttemptGeneration
  created_at :: i64
  model_id :: ModelId
  model_generation :: ModelGeneration
  model_revision :: string
  tokenizer :: string
  adapter_id :: AdapterId
  adapter_generation :: AdapterGeneration
  adapter_revision :: string
  composition_id :: CompositionId
  composition_generation :: CompositionGeneration
  composition_fingerprint :: string
  runtime_id :: RuntimeId
  runtime_generation :: RuntimeGeneration
  artifact_generation :: ArtifactGeneration
  backend_id :: BackendId
  toolchain_id :: ToolchainId
  device_id :: DeviceId
  architecture :: string
  compute_capability :: string
  abi :: string
  dtype :: string
  layout :: string
  shape :: string
  input_states :: "StateId list"
  parent_provenance :: "ProvenanceId list"
  dependencies :: "Dependency list"
  requirements :: "CompatibilityRequirement list"
  policy_id :: PolicyId
  policy_generation :: PolicyGeneration
  policy_fingerprint :: string
  content_digest :: string
  coordinator_epoch :: u64
  worker_id :: WorkerId
  worker_boot :: WorkerBootId
  evidence :: EvidenceClass
  validity :: ValidityState
  invalidation_reason :: InvalidationReason
  reuse_eligibility :: ReuseEligibility
  record_note :: string

text \<open>A default-constructed \<^verbatim>\<open>RecordData\<close>.\<close>

definition empty_record :: RecordData where
  "empty_record = \<lparr>provenance_id = null_id,
     provenance_generation = null_id,
     subject_id = null_id,
     subject_kind = SK_Unknown,
     state_generation = null_id,
     producer_id = null_id,
     producer_generation = null_id,
     execution_id = null_id,
     attempt_id = null_id,
     attempt_generation = null_id,
     created_at = 0,
     model_id = null_id,
     model_generation = null_id,
     model_revision = [],
     tokenizer = [],
     adapter_id = null_id,
     adapter_generation = null_id,
     adapter_revision = [],
     composition_id = null_id,
     composition_generation = null_id,
     composition_fingerprint = [],
     runtime_id = null_id,
     runtime_generation = null_id,
     artifact_generation = null_id,
     backend_id = null_id,
     toolchain_id = null_id,
     device_id = null_id,
     architecture = [],
     compute_capability = [],
     abi = [],
     dtype = [],
     layout = [],
     shape = [],
     input_states = [],
     parent_provenance = [],
     dependencies = [],
     requirements = [],
     policy_id = null_id,
     policy_generation = null_id,
     policy_fingerprint = [],
     content_digest = [],
     coordinator_epoch = 0,
     worker_id = null_id,
     worker_boot = null_id,
     evidence = EV_UNKNOWN,
     validity = VS_VALID,
     invalidation_reason = IR_Unknown,
     reuse_eligibility = RE_UNKNOWN,
     record_note = []\<rparr>"

section \<open>Validation\<close>

text \<open>The duplicate test sorts a copy and asks whether \<^verbatim>\<open>std::unique\<close> dropped an element.\<close>

definition has_duplicate :: "('a::linorder) list \<Rightarrow> bool" where
  "has_duplicate xs = (let s = sort xs in length (remdups_adj s) \<noteq> length s)"

definition validate_requirement :: "CompatibilityRequirement \<Rightarrow> string option" where
  "validate_requirement req =
     (if req_dimension req = CD_Unknown then Some ''requirement dimension must be specified''
      else if req_required_value req = [] then Some ''requirement value must be non-empty''
      else None)"

fun first_error :: "('a \<Rightarrow> string option) \<Rightarrow> 'a list \<Rightarrow> string option" where
  "first_error f [] = None"
| "first_error f (x # xs) = (case f x of Some e \<Rightarrow> Some e | None \<Rightarrow> first_error f xs)"

definition validate_record :: "RecordData \<Rightarrow> string option" where
  "validate_record d =
     (if \<not> valid (provenance_id d) then Some ''provenance_id must be non-zero''
      else if \<not> valid (provenance_generation d) then Some ''provenance_generation must be non-zero''
      else if \<not> valid (subject_id d) then Some ''subject_id must be non-zero''
      else if \<not> valid (state_generation d) then Some ''state_generation must be non-zero''
      else if \<not> valid (producer_id d) then Some ''producer_id must be non-zero''
      else if \<not> valid (producer_generation d) then Some ''producer_generation must be non-zero''
      else if subject_kind d = SK_Unknown then Some ''subject_kind must be specified''
      else if input_states d = [] \<and> parent_provenance d = [] \<and> dependencies d = [] \<and>
          \<not> valid (execution_id d)
        then Some ''record must reference at least one input/execution/parent''
      else if has_duplicate (input_states d) then Some ''duplicate input_states reference''
      else if has_duplicate (parent_provenance d) then Some ''duplicate parent_provenance reference''
      else if list_ex (\<lambda>p. p = provenance_id d) (parent_provenance d)
        then Some ''record cannot be its own parent''
      else if list_ex (\<lambda>dep. \<not> valid (dep_id dep)) (dependencies d)
        then Some ''dependency id must be non-zero''
      else first_error validate_requirement (requirements d))"

section \<open>Builder\<close>

definition add_input_state :: "StateId \<Rightarrow> RecordData \<Rightarrow> RecordData" where
  "add_input_state v d = d\<lparr>input_states := input_states d @ [v]\<rparr>"

definition add_parent :: "ProvenanceId \<Rightarrow> RecordData \<Rightarrow> RecordData" where
  "add_parent v d = d\<lparr>parent_provenance := parent_provenance d @ [v]\<rparr>"

definition add_dependency :: "Dependency \<Rightarrow> RecordData \<Rightarrow> RecordData" where
  "add_dependency v d = d\<lparr>dependencies := dependencies d @ [v]\<rparr>"

definition add_requirement :: "CompatibilityRequirement \<Rightarrow> RecordData \<Rightarrow> RecordData" where
  "add_requirement v d = d\<lparr>requirements := requirements d @ [v]\<rparr>"

definition build :: "RecordData \<Rightarrow> string + RecordData" where
  "build d = (case validate_record d of
     Some e \<Rightarrow> Inl (''invalid provenance record: '' @ e)
   | None \<Rightarrow> Inr d)"

definition try_build :: "RecordData \<Rightarrow> RecordData option" where
  "try_build d = (case validate_record d of Some e \<Rightarrow> None | None \<Rightarrow> Some d)"

section \<open>Derivation digest\<close>

text \<open>A chain of \<^verbatim>\<open>with\<close> calls is a list of digest transformers, run from left to right.\<close>

definition digest_chain :: "(StableDigest \<Rightarrow> StableDigest) list \<Rightarrow> StableDigest \<Rightarrow> StableDigest" where
  "digest_chain fs h = fold (\<lambda>f. f) fs h"

definition with_enum :: "('e \<Rightarrow> u8) \<Rightarrow> 'e \<Rightarrow> StableDigest \<Rightarrow> StableDigest" where
  "with_enum val e = with_int (uint (val e))"

definition scalar_chain :: "RecordData \<Rightarrow> (StableDigest \<Rightarrow> StableDigest) list" where
  "scalar_chain r =
    [with_id (provenance_id r), with_id (provenance_generation r), with_id (subject_id r),
     with_enum SubjectKind_val (subject_kind r), with_id (state_generation r),
     with_id (producer_id r), with_id (producer_generation r), with_id (execution_id r),
     with_id (attempt_id r), with_id (attempt_generation r), with_u64 (created_at r),
     with_id (model_id r), with_id (model_generation r), with_str (model_revision r),
     with_str (tokenizer r), with_id (adapter_id r), with_id (adapter_generation r),
     with_str (adapter_revision r), with_id (composition_id r),
     with_id (composition_generation r), with_str (composition_fingerprint r),
     with_id (runtime_id r), with_id (runtime_generation r), with_id (backend_id r),
     with_id (toolchain_id r), with_id (device_id r), with_str (architecture r),
     with_str (compute_capability r), with_str (abi r), with_str (dtype r),
     with_str (layout r), with_str (shape r), with_id (policy_id r),
     with_id (policy_generation r), with_str (policy_fingerprint r),
     with_str (content_digest r), with_u64 (coordinator_epoch r), with_id (worker_id r),
     with_id (worker_boot r), with_enum EvidenceClass_val (evidence r),
     with_enum ValidityState_val (validity r),
     with_enum InvalidationReason_val (invalidation_reason r),
     with_enum ReuseEligibility_val (reuse_eligibility r), with_str (record_note r)]"

definition dependency_chain :: "Dependency \<Rightarrow> (StableDigest \<Rightarrow> StableDigest) list" where
  "dependency_chain dep =
    [with_id (dep_id dep), with_id (dep_generation dep), with_str (dep_kind dep),
     with_str (dep_revision dep)]"

definition requirement_chain :: "CompatibilityRequirement \<Rightarrow> (StableDigest \<Rightarrow> StableDigest) list" where
  "requirement_chain req =
    [with_enum CompatibilityDimension_val (req_dimension req), with_str (req_required_value req),
     with_str (req_note req)]"

definition size_chain :: "'a list \<Rightarrow> (StableDigest \<Rightarrow> StableDigest) list" where
  "size_chain xs = [with_u64 (of_nat (length xs))]"

definition derivation_chain :: "RecordData \<Rightarrow> (StableDigest \<Rightarrow> StableDigest) list" where
  "derivation_chain r =
     (let sorted_state = sort (input_states r);
          sorted_parent = sort (parent_provenance r);
          sorted_dep = sort (dependencies r);
          sorted_req = sort (requirements r)
      in scalar_chain r
         @ map (\<lambda>v. with_u64 (get v)) sorted_state @ size_chain sorted_state
         @ map (\<lambda>v. with_u64 (get v)) sorted_parent @ size_chain sorted_parent
         @ concat (map dependency_chain sorted_dep) @ size_chain sorted_dep
         @ concat (map requirement_chain sorted_req) @ size_chain sorted_req)"

definition derivation_digest :: "RecordData \<Rightarrow> string" where
  "derivation_digest r = digest_str (digest_chain (derivation_chain r) 0x70726f76656e6365)"

section \<open>Validation is exactly well-formedness\<close>

lemma sorted_distinct_adj: "sorted xs \<Longrightarrow> distinct_adj xs \<Longrightarrow> distinct xs"
proof (induction xs rule: induct_list012)
  case (3 x y zs)
  then show ?case by (auto simp: order_antisym)
qed auto

lemma distinct_distinct_adj: "distinct xs \<Longrightarrow> distinct_adj xs"
  by (induction xs rule: induct_list012) auto

lemma has_duplicate_iff: "has_duplicate xs \<longleftrightarrow> \<not> distinct xs"
proof -
  have "length (remdups_adj (sort xs)) = length (sort xs) \<longleftrightarrow> distinct (sort xs)"
    using sorted_distinct_adj [OF sorted_sort] distinct_adj_conv_length_remdups_adj
      distinct_distinct_adj by blast
  then show ?thesis by (simp add: has_duplicate_def)
qed

lemma first_error_None_iff: "first_error f xs = None \<longleftrightarrow> list_all (\<lambda>x. f x = None) xs"
  by (induction xs) (auto split: option.splits)

text \<open>What a well-formed record is.\<close>

definition requirement_ok :: "CompatibilityRequirement \<Rightarrow> bool" where
  "requirement_ok req \<longleftrightarrow> req_dimension req \<noteq> CD_Unknown \<and> req_required_value req \<noteq> []"

definition record_ok :: "RecordData \<Rightarrow> bool" where
  "record_ok d \<longleftrightarrow>
     valid (provenance_id d) \<and> valid (provenance_generation d) \<and> valid (subject_id d)
     \<and> valid (state_generation d) \<and> valid (producer_id d) \<and> valid (producer_generation d)
     \<and> subject_kind d \<noteq> SK_Unknown
     \<and> (input_states d \<noteq> [] \<or> parent_provenance d \<noteq> [] \<or> dependencies d \<noteq> []
         \<or> valid (execution_id d))
     \<and> distinct (input_states d) \<and> distinct (parent_provenance d)
     \<and> provenance_id d \<notin> set (parent_provenance d)
     \<and> list_all (\<lambda>dep. valid (dep_id dep)) (dependencies d)
     \<and> list_all requirement_ok (requirements d)"

lemma validate_record_None_iff: "validate_record d = None \<longleftrightarrow> record_ok d"
proof -
  have req: "(validate_requirement req = None) = requirement_ok req" for req
    by (simp add: validate_requirement_def requirement_ok_def)
  show ?thesis
    unfolding validate_record_def record_ok_def has_duplicate_iff
    by (auto simp: first_error_None_iff req list_ex_iff list_all_iff)
qed

section \<open>The digest\<close>

lemma digest_chain_Nil [simp]: "digest_chain [] h = h"
  by (simp add: digest_chain_def)

lemma digest_chain_Cons [simp]: "digest_chain (f # fs) h = digest_chain fs (f h)"
  by (simp add: digest_chain_def)

lemma digest_chain_append [simp]:
  "digest_chain (fs @ gs) h = digest_chain gs (digest_chain fs h)"
  by (simp add: digest_chain_def)

named_theorems digest_inj "no step of a digest loses information"

lemma mix_inject_state [digest_inj]: "mix h v = mix h' v \<longleftrightarrow> h = h'"
  using digest.state_inj by blast

lemma mix_inject_item [digest_inj]: "mix h v = mix h v' \<longleftrightarrow> v = v'"
  using digest.item_inj by blast

lemma mix_str_mix: "mix_str h s = mix h (fnv1a64 (bytes_of_string s))"
  by (simp add: mix_str_def mix_def)

lemma with_inject_state [digest_inj]:
  "with_u64 v h = with_u64 v h' \<longleftrightarrow> h = h'"
  "with_int i h = with_int i h' \<longleftrightarrow> h = h'"
  "with_str s h = with_str s h' \<longleftrightarrow> h = h'"
  "with_id d h = with_id d h' \<longleftrightarrow> h = h'"
  "with_enum val e h = with_enum val e h' \<longleftrightarrow> h = h'"
  by (simp_all add: with_u64_def with_int_def with_str_def with_id_def with_enum_def mix_str_mix
      digest_inj)

lemma of_int_uint_byte: "(of_int (uint (b :: byte)) :: u64) = ucast b"
  by (simp add: word_of_int_uint)

lemma with_inject_item [digest_inj]:
  "with_u64 v h = with_u64 v' h \<longleftrightarrow> v = v'"
  "with_id d h = with_id d' h \<longleftrightarrow> d = d'"
  "with_enum SubjectKind_val k h = with_enum SubjectKind_val k' h \<longleftrightarrow> k = k'"
  "with_enum EvidenceClass_val e h = with_enum EvidenceClass_val e' h \<longleftrightarrow> e = e'"
  "with_enum ValidityState_val s h = with_enum ValidityState_val s' h \<longleftrightarrow> s = s'"
  "with_enum InvalidationReason_val i h = with_enum InvalidationReason_val i' h \<longleftrightarrow> i = i'"
  "with_enum ReuseEligibility_val u h = with_enum ReuseEligibility_val u' h \<longleftrightarrow> u = u'"
  by (auto simp: with_u64_def with_id_def with_enum_def with_int_def digest_inj of_int_uint_byte
      ucast_byte_inject subject_kind.val_eq_iff evidence_class.val_eq_iff
      validity_state.val_eq_iff inval_reason.val_eq_iff reuse_elig.val_eq_iff
      intro: ScalarIdentifier.expand)

text \<open>A chain all of whose steps are injective is injective.\<close>

definition lossless :: "(StableDigest \<Rightarrow> StableDigest) list \<Rightarrow> bool" where
  "lossless fs \<longleftrightarrow> list_all inj fs"

lemma lossless_inject: "lossless fs \<Longrightarrow> digest_chain fs h = digest_chain fs h' \<longleftrightarrow> h = h'"
  by (induction fs arbitrary: h h') (auto simp: lossless_def dest: injD)

lemma lossless_with [digest_inj]:
  "inj (with_u64 v)" "inj (with_int i)" "inj (with_str s)" "inj (with_id d)"
  "inj (with_enum val e)"
  by (auto intro!: injI simp: digest_inj)

lemma lossless_parts [digest_inj]:
  "lossless (xs @ ys) \<longleftrightarrow> lossless xs \<and> lossless ys"
  "lossless (map (\<lambda>v. with_u64 (g v)) zs)"
  "lossless (size_chain zs)"
  "lossless (concat (map dependency_chain deps))"
  "lossless (concat (map requirement_chain reqs))"
  by (auto simp: lossless_def list_all_iff size_chain_def dependency_chain_def
      requirement_chain_def digest_inj)

lemma digest_str_inject [digest_inj]: "digest_str h = digest_str h' \<longleftrightarrow> h = h'"
proof
  assume "digest_str h = digest_str h'"
  then have "to_string (ScalarIdentifier h :: StateId) = to_string (ScalarIdentifier h' :: StateId)"
    by (simp add: to_string_def digest_str_def digest_string_def del: to_string_inject)
  then show "h = h'" by simp
qed simp

text \<open>Everything after the scalar part depends on the reference vectors only.\<close>

definition reference_chain ::
  "StateId list \<Rightarrow> ProvenanceId list \<Rightarrow> Dependency list \<Rightarrow> CompatibilityRequirement list
    \<Rightarrow> (StableDigest \<Rightarrow> StableDigest) list" where
  "reference_chain ss ps ds rs =
     map (\<lambda>v. with_u64 (get v)) (sort ss) @ size_chain (sort ss)
     @ map (\<lambda>v. with_u64 (get v)) (sort ps) @ size_chain (sort ps)
     @ concat (map dependency_chain (sort ds)) @ size_chain (sort ds)
     @ concat (map requirement_chain (sort rs)) @ size_chain (sort rs)"

lemma derivation_digest_split:
  "derivation_digest r = digest_str (digest_chain
     (reference_chain (input_states r) (parent_provenance r) (dependencies r) (requirements r))
     (digest_chain (scalar_chain r) 0x70726f76656e6365))"
  by (simp add: derivation_digest_def derivation_chain_def reference_chain_def Let_def
      del: sort_key_simps)

lemma derivation_digest_scalar:
  assumes "input_states r = input_states r'" "parent_provenance r = parent_provenance r'"
    "dependencies r = dependencies r'" "requirements r = requirements r'"
  shows "derivation_digest r = derivation_digest r' \<longleftrightarrow>
    digest_chain (scalar_chain r) 0x70726f76656e6365 = digest_chain (scalar_chain r') 0x70726f76656e6365"
proof -
  have "lossless (reference_chain ss ps ds rs)" for ss ps ds rs
    by (simp add: reference_chain_def digest_inj)
  then show ?thesis by (simp add: derivation_digest_split assms digest_inj lossless_inject)
qed

section \<open>Properties\<close>

text \<open>Validation accepts exactly the well-formed records: all six identities and generations
  non-null, a known kind, some input, parent, dependency or execution, no repeated reference, not
  its own parent, and every dependency and requirement specified; the builder then returns the
  record it holds, and fails otherwise.\<close>

theorem validate_record_iff:
  "(validate_record d = None \<longleftrightarrow> record_ok d)
    \<and> (build d = Inr d' \<longleftrightarrow> record_ok d \<and> d' = d)
    \<and> (try_build d = Some d' \<longleftrightarrow> record_ok d \<and> d' = d)"
  by (auto simp: build_def try_build_def simp flip: validate_record_None_iff split: option.splits)

text \<open>The derivation digest does not depend on the order in which inputs, parents,
  dependencies and requirements were added.\<close>

theorem derivation_digest_order_invariant:
  assumes "mset ss = mset (input_states r)" "mset ps = mset (parent_provenance r)"
    "mset ds = mset (dependencies r)" "mset rs = mset (requirements r)"
  shows "derivation_digest (r\<lparr>input_states := ss, parent_provenance := ps,
      dependencies := ds, requirements := rs\<rparr>) = derivation_digest r"
proof -
  let ?r = "r\<lparr>input_states := ss, parent_provenance := ps, dependencies := ds, requirements := rs\<rparr>"
  have "scalar_chain ?r = scalar_chain r" by (simp add: scalar_chain_def)
  then show ?thesis
    using assms [THEN sort_eq_if_mset_eq] by (simp add: derivation_digest_split reference_chain_def)
qed

theorem derivation_digest_order_invariant_witness:
  "derivation_digest (empty_record\<lparr>input_states := [ScalarIdentifier 2, ScalarIdentifier 1]\<rparr>)
    = derivation_digest (empty_record\<lparr>input_states := [ScalarIdentifier 1, ScalarIdentifier 2]\<rparr>)"
  using derivation_digest_order_invariant
    [of "[ScalarIdentifier 2, ScalarIdentifier 1]"
      "empty_record\<lparr>input_states := [ScalarIdentifier 1, ScalarIdentifier 2]\<rparr>" "[]" "[]" "[]"]
  by (simp add: empty_record_def)

text \<open>Changing any one of the numeric or enumerated fields the digest covers changes the
  digest: with the other fields fixed, the digest determines the field.\<close>

theorem derivation_digest_determines_field:
  "(derivation_digest (r\<lparr>provenance_id := x_provenance_id\<rparr>) = derivation_digest r \<longleftrightarrow> x_provenance_id = provenance_id r)
    \<and> (derivation_digest (r\<lparr>provenance_generation := x_provenance_generation\<rparr>) = derivation_digest r \<longleftrightarrow> x_provenance_generation = provenance_generation r)
    \<and> (derivation_digest (r\<lparr>subject_id := x_subject_id\<rparr>) = derivation_digest r \<longleftrightarrow> x_subject_id = subject_id r)
    \<and> (derivation_digest (r\<lparr>subject_kind := x_subject_kind\<rparr>) = derivation_digest r \<longleftrightarrow> x_subject_kind = subject_kind r)
    \<and> (derivation_digest (r\<lparr>state_generation := x_state_generation\<rparr>) = derivation_digest r \<longleftrightarrow> x_state_generation = state_generation r)
    \<and> (derivation_digest (r\<lparr>producer_id := x_producer_id\<rparr>) = derivation_digest r \<longleftrightarrow> x_producer_id = producer_id r)
    \<and> (derivation_digest (r\<lparr>producer_generation := x_producer_generation\<rparr>) = derivation_digest r \<longleftrightarrow> x_producer_generation = producer_generation r)
    \<and> (derivation_digest (r\<lparr>execution_id := x_execution_id\<rparr>) = derivation_digest r \<longleftrightarrow> x_execution_id = execution_id r)
    \<and> (derivation_digest (r\<lparr>attempt_id := x_attempt_id\<rparr>) = derivation_digest r \<longleftrightarrow> x_attempt_id = attempt_id r)
    \<and> (derivation_digest (r\<lparr>attempt_generation := x_attempt_generation\<rparr>) = derivation_digest r \<longleftrightarrow> x_attempt_generation = attempt_generation r)
    \<and> (derivation_digest (r\<lparr>created_at := x_created_at\<rparr>) = derivation_digest r \<longleftrightarrow> x_created_at = created_at r)
    \<and> (derivation_digest (r\<lparr>model_id := x_model_id\<rparr>) = derivation_digest r \<longleftrightarrow> x_model_id = model_id r)
    \<and> (derivation_digest (r\<lparr>model_generation := x_model_generation\<rparr>) = derivation_digest r \<longleftrightarrow> x_model_generation = model_generation r)
    \<and> (derivation_digest (r\<lparr>adapter_id := x_adapter_id\<rparr>) = derivation_digest r \<longleftrightarrow> x_adapter_id = adapter_id r)
    \<and> (derivation_digest (r\<lparr>adapter_generation := x_adapter_generation\<rparr>) = derivation_digest r \<longleftrightarrow> x_adapter_generation = adapter_generation r)
    \<and> (derivation_digest (r\<lparr>composition_id := x_composition_id\<rparr>) = derivation_digest r \<longleftrightarrow> x_composition_id = composition_id r)
    \<and> (derivation_digest (r\<lparr>composition_generation := x_composition_generation\<rparr>) = derivation_digest r \<longleftrightarrow> x_composition_generation = composition_generation r)
    \<and> (derivation_digest (r\<lparr>runtime_id := x_runtime_id\<rparr>) = derivation_digest r \<longleftrightarrow> x_runtime_id = runtime_id r)
    \<and> (derivation_digest (r\<lparr>runtime_generation := x_runtime_generation\<rparr>) = derivation_digest r \<longleftrightarrow> x_runtime_generation = runtime_generation r)
    \<and> (derivation_digest (r\<lparr>backend_id := x_backend_id\<rparr>) = derivation_digest r \<longleftrightarrow> x_backend_id = backend_id r)
    \<and> (derivation_digest (r\<lparr>toolchain_id := x_toolchain_id\<rparr>) = derivation_digest r \<longleftrightarrow> x_toolchain_id = toolchain_id r)
    \<and> (derivation_digest (r\<lparr>device_id := x_device_id\<rparr>) = derivation_digest r \<longleftrightarrow> x_device_id = device_id r)
    \<and> (derivation_digest (r\<lparr>policy_id := x_policy_id\<rparr>) = derivation_digest r \<longleftrightarrow> x_policy_id = policy_id r)
    \<and> (derivation_digest (r\<lparr>policy_generation := x_policy_generation\<rparr>) = derivation_digest r \<longleftrightarrow> x_policy_generation = policy_generation r)
    \<and> (derivation_digest (r\<lparr>coordinator_epoch := x_coordinator_epoch\<rparr>) = derivation_digest r \<longleftrightarrow> x_coordinator_epoch = coordinator_epoch r)
    \<and> (derivation_digest (r\<lparr>worker_id := x_worker_id\<rparr>) = derivation_digest r \<longleftrightarrow> x_worker_id = worker_id r)
    \<and> (derivation_digest (r\<lparr>worker_boot := x_worker_boot\<rparr>) = derivation_digest r \<longleftrightarrow> x_worker_boot = worker_boot r)
    \<and> (derivation_digest (r\<lparr>evidence := x_evidence\<rparr>) = derivation_digest r \<longleftrightarrow> x_evidence = evidence r)
    \<and> (derivation_digest (r\<lparr>validity := x_validity\<rparr>) = derivation_digest r \<longleftrightarrow> x_validity = validity r)
    \<and> (derivation_digest (r\<lparr>invalidation_reason := x_invalidation_reason\<rparr>) = derivation_digest r \<longleftrightarrow> x_invalidation_reason = invalidation_reason r)
    \<and> (derivation_digest (r\<lparr>reuse_eligibility := x_reuse_eligibility\<rparr>) = derivation_digest r \<longleftrightarrow> x_reuse_eligibility = reuse_eligibility r)"
  by (intro conjI; subst derivation_digest_scalar; simp add: scalar_chain_def digest_inj)

text \<open>The digest does not cover the artifact generation, although the record stores it and
  reuse is decided on it: two records that differ there alone have the same digest.\<close>

theorem derivation_digest_ignores_artifact_generation:
  "derivation_digest (r\<lparr>artifact_generation := g\<rparr>) = derivation_digest r"
  by (subst derivation_digest_scalar) (simp_all add: scalar_chain_def)

end
