(* ===== verification/Derivation_Graph.thy ===== *)
theory Derivation_Graph
  imports Provenance_Record
begin

text \<open>
  \<^verbatim>\<open>graph.hpp\<close>: the derivation graph, arcs pointing from parent to child.  The theory proves
  that the class invariant (consistent adjacency maps, arcs between registered nodes, arc count,
  no cycle) survives every mutation, that the cycle test is exact, that \<^verbatim>\<open>ancestors\<close> and
  \<^verbatim>\<open>descendants\<close> are the transitive closures, and that Kahn's algorithm returns a linear
  extension exactly when there is no cycle.  Kahn's loop occurs twice in the program (here and
  in the store's \<^verbatim>\<open>records_in_topo_order\<close>); its correctness is proved once, in the locale
  \<open>dependency_order\<close>.
\<close>

section \<open>State and mutation\<close>

datatype graph_error = GraphError string | OutOfRange

record ProvenanceGraph =
  g_nodes :: "StateId set"
  g_parents :: "(StateId, StateId set) mapping"
  g_children :: "(StateId, StateId set) mapping"
  g_arc_count :: nat

definition empty_graph :: ProvenanceGraph where
  "empty_graph = \<lparr>g_nodes = {}, g_parents = Mapping.empty, g_children = Mapping.empty,
     g_arc_count = 0\<rparr>"

definition has_node :: "ProvenanceGraph \<Rightarrow> StateId \<Rightarrow> bool" where
  "has_node g i \<longleftrightarrow> i \<in> g_nodes g"

definition node_count :: "ProvenanceGraph \<Rightarrow> nat" where
  "node_count g = card (g_nodes g)"

definition arc_count :: "ProvenanceGraph \<Rightarrow> nat" where
  "arc_count g = g_arc_count g"

text \<open>\<^verbatim>\<open>add_node\<close> returns false when the node was there already, and throws for the null id.\<close>

definition add_node :: "StateId \<Rightarrow> ProvenanceGraph \<Rightarrow> graph_error + (bool \<times> ProvenanceGraph)" where
  "add_node i g =
     (if \<not> valid i then Inl (GraphError ''graph node id must be non-zero'')
      else if i \<in> g_nodes g then Inr (False, g)
      else Inr (True, g\<lparr>g_nodes := insert i (g_nodes g),
                        g_parents := touch_at i (g_parents g),
                        g_children := touch_at i (g_children g)\<rparr>))"

definition parents :: "ProvenanceGraph \<Rightarrow> StateId \<Rightarrow> StateId list" where
  "parents g i = (case Mapping.lookup (g_parents g) i of
     None \<Rightarrow> [] | Some s \<Rightarrow> sorted_list_of_set s)"

definition children :: "ProvenanceGraph \<Rightarrow> StateId \<Rightarrow> StateId list" where
  "children g i = (case Mapping.lookup (g_children g) i of
     None \<Rightarrow> [] | Some s \<Rightarrow> sorted_list_of_set s)"

text \<open>
  \<^verbatim>\<open>would_create_cycle\<close>: a search from the child along the children; \<open>cycle_scan\<close> is the inner
  loop over one node's children, \<open>None\<close> when it meets the parent.  The top of the C++ stack (the
  back of the vector) is the head of the list.
\<close>

fun cycle_scan :: "'a \<Rightarrow> 'a list \<Rightarrow> 'a set \<Rightarrow> 'a list \<Rightarrow> ('a set \<times> 'a list) option" where
  "cycle_scan parent [] visited stack = Some (visited, stack)"
| "cycle_scan parent (nxt # rest) visited stack =
     (if nxt = parent then None
      else if nxt \<in> visited then cycle_scan parent rest visited stack
      else cycle_scan parent rest (insert nxt visited) (nxt # stack))"

lemma cycle_scan_measure:
  "cycle_scan parent ns visited stack = Some (visited', stack') \<Longrightarrow>
    visited \<subseteq> visited' \<and> (visited' = visited \<longrightarrow> stack' = stack)"
  by (induction parent ns visited stack rule: cycle_scan.induct) (fastforce split: if_splits)+

function cycle_loop :: "('a::finite \<Rightarrow> 'a list) \<Rightarrow> 'a \<Rightarrow> 'a set \<Rightarrow> 'a list \<Rightarrow> bool" where
  "cycle_loop nbrs parent visited [] = False"
| "cycle_loop nbrs parent visited (cur # stack) =
     (case cycle_scan parent (nbrs cur) visited stack of
        None \<Rightarrow> True
      | Some (visited', stack') \<Rightarrow> cycle_loop nbrs parent visited' stack')"
  by pat_completeness auto
termination
proof (relation "measures [\<lambda>(nbrs, parent, visited, stack). card (- visited),
    \<lambda>(nbrs, parent, visited, stack). length stack]", goal_cases)
  case (2 nbrs parent visited cur stack x visited' stack')
  then have le: "visited \<subseteq> visited'" and eq: "visited' = visited \<longrightarrow> stack' = stack"
    using cycle_scan_measure [of parent "nbrs cur" visited stack visited' stack'] by auto
  show ?case
  proof (cases "visited' = visited")
    case False
    with le have "card (- visited') < card (- visited)" by (intro psubset_card_mono) auto
    then show ?thesis by simp
  qed (use eq in simp)
qed simp

definition would_create_cycle :: "ProvenanceGraph \<Rightarrow> StateId \<Rightarrow> StateId \<Rightarrow> bool" where
  "would_create_cycle g parent child = cycle_loop (children g) parent {} [child]"

definition add_arc :: "StateId \<Rightarrow> StateId \<Rightarrow> ProvenanceGraph \<Rightarrow> graph_error + ProvenanceGraph" where
  "add_arc parent child g =
     (if \<not> valid parent \<or> \<not> valid child then Inl (GraphError ''arc endpoints must be non-zero'')
      else if parent = child then Inl (GraphError ''self-dependency is not permitted'')
      else if \<not> has_node g parent \<or> \<not> has_node g child
        then Inl (GraphError ''arc endpoints must be registered nodes'')
      else if child \<in> set_at (g_children g) parent then Inl (GraphError ''duplicate arc'')
      else if would_create_cycle g parent child
        then Inl (GraphError ''cycle would be created by arc parent->child'')
      else Inr (g\<lparr>g_children := insert_at parent child (g_children g),
                  g_parents := insert_at child parent (g_parents g),
                  g_arc_count := Suc (g_arc_count g)\<rparr>))"

section \<open>Traversal\<close>

text \<open>The worklist loop shared by \<^verbatim>\<open>ancestors\<close> and \<^verbatim>\<open>descendants\<close>.\<close>

function closure_loop :: "('a::finite \<Rightarrow> 'a list) \<Rightarrow> 'a list \<Rightarrow> 'a set \<Rightarrow> 'a set" where
  "closure_loop nbrs [] out = out"
| "closure_loop nbrs (cur # stack) out =
     (if cur \<in> out then closure_loop nbrs stack out
      else closure_loop nbrs (rev (nbrs cur) @ stack) (insert cur out))"
  by pat_completeness auto
termination
proof (relation "measures [\<lambda>(nbrs, stack, out). card (- out), \<lambda>(nbrs, stack, out). length stack]",
    goal_cases)
  case (3 nbrs cur stack out)
  then have "card (- insert cur out) < card (- out)" by (intro psubset_card_mono) auto
  then show ?case by simp
qed simp_all

definition ancestors :: "ProvenanceGraph \<Rightarrow> StateId \<Rightarrow> StateId list" where
  "ancestors g i =
     (if \<not> has_node g i then []
      else sorted_list_of_set (closure_loop (parents g) (rev (parents g i)) {}))"

definition descendants :: "ProvenanceGraph \<Rightarrow> StateId \<Rightarrow> StateId list" where
  "descendants g i =
     (if \<not> has_node g i then []
      else sorted_list_of_set (closure_loop (children g) (rev (children g i)) {}))"

definition node_list :: "ProvenanceGraph \<Rightarrow> StateId list" where
  "node_list g = sorted_list_of_set (g_nodes g)"

text \<open>\<^verbatim>\<open>parents_.at(id)\<close> throws when the key is missing.\<close>

definition parents_at :: "ProvenanceGraph \<Rightarrow> StateId \<Rightarrow> graph_error + StateId set" where
  "parents_at g i = (case Mapping.lookup (g_parents g) i of
     None \<Rightarrow> Inl OutOfRange | Some s \<Rightarrow> Inr s)"

fun roots_loop :: "ProvenanceGraph \<Rightarrow> StateId list \<Rightarrow> StateId list \<Rightarrow> graph_error + StateId list" where
  "roots_loop g [] out = Inr out"
| "roots_loop g (i # ids) out =
     (case parents_at g i of
        Inl e \<Rightarrow> Inl e
      | Inr s \<Rightarrow> roots_loop g ids (if s = {} then out @ [i] else out))"

definition roots :: "ProvenanceGraph \<Rightarrow> graph_error + StateId list" where
  "roots g = roots_loop g (node_list g) []"

fun set_intersection :: "('a::linorder) list \<Rightarrow> 'a list \<Rightarrow> 'a list" where
  "set_intersection (x # xs) (y # ys) =
     (if x < y then set_intersection xs (y # ys)
      else if y < x then set_intersection (x # xs) ys
      else x # set_intersection xs ys)"
| "set_intersection xs ys = []"

definition shared_ancestors :: "ProvenanceGraph \<Rightarrow> StateId \<Rightarrow> StateId \<Rightarrow> StateId list" where
  "shared_ancestors g a b = set_intersection (ancestors g a) (ancestors g b)"

definition fan_in :: "ProvenanceGraph \<Rightarrow> StateId \<Rightarrow> nat" where
  "fan_in g i = length (parents g i)"

definition fan_out :: "ProvenanceGraph \<Rightarrow> StateId \<Rightarrow> nat" where
  "fan_out g i = length (children g i)"

definition arcs :: "ProvenanceGraph \<Rightarrow> (StateId \<times> StateId) list" where
  "arcs g = sort (concat (map (\<lambda>i. map (\<lambda>ch. (i, ch)) (children g i)) (node_list g)))"

section \<open>Kahn's algorithm\<close>

text \<open>
  \<open>dec_size\<close> is \<^verbatim>\<open>--\<close> on a \<^verbatim>\<open>size_t\<close>.  \<open>kahn_visit\<close> is the loop over the children of the node
  just emitted.  Nothing in the code bounds the main loop, so \<open>kahn_loop\<close> is partial: \<open>None\<close> is
  "does not return".
\<close>

definition dec_size :: "nat \<Rightarrow> nat" where
  "dec_size n = (if n = 0 then 2 ^ 64 - 1 else n - 1)"

fun kahn_visit :: "'a list \<Rightarrow> ('a, nat) mapping \<Rightarrow> 'a set \<Rightarrow> ('a, nat) mapping \<times> 'a set" where
  "kahn_visit [] in_deg ready = (in_deg, ready)"
| "kahn_visit (ch # chs) in_deg ready =
     (let d = dec_size (Mapping.lookup_default 0 in_deg ch)
      in kahn_visit chs (Mapping.update ch d in_deg) (if d = 0 then insert ch ready else ready))"

partial_function (option) kahn_loop ::
  "('a::linorder \<Rightarrow> 'a list) \<Rightarrow> ('a, nat) mapping \<Rightarrow> 'a set \<Rightarrow> 'a list \<Rightarrow> 'a list option" where
  "kahn_loop chs in_deg ready result =
     (if ready = {} then Some result
      else kahn_loop chs
             (fst (kahn_visit (chs (Min ready)) in_deg (ready - {Min ready})))
             (snd (kahn_visit (chs (Min ready)) in_deg (ready - {Min ready})))
             (result @ [Min ready]))"

declare kahn_loop.simps [code]

fun in_degrees ::
  "ProvenanceGraph \<Rightarrow> StateId list \<Rightarrow> (StateId, nat) mapping \<Rightarrow> graph_error + (StateId, nat) mapping" where
  "in_degrees g [] in_deg = Inr in_deg"
| "in_degrees g (i # ids) in_deg =
     (case parents_at g i of
        Inl e \<Rightarrow> Inl e
      | Inr s \<Rightarrow> in_degrees g ids (Mapping.update i (card s) in_deg))"

definition initially_ready :: "('a::linorder, nat) mapping \<Rightarrow> 'a set" where
  "initially_ready in_deg =
     set (map fst (filter (\<lambda>(i, d). d = 0) (Mapping.ordered_entries in_deg)))"

definition topological_order :: "ProvenanceGraph \<Rightarrow> (graph_error + StateId list) option" where
  "topological_order g =
     (case in_degrees g (node_list g) Mapping.empty of
        Inl e \<Rightarrow> Some (Inl e)
      | Inr in_deg \<Rightarrow>
          (case kahn_loop (children g) in_deg (initially_ready in_deg) [] of
             None \<Rightarrow> None
           | Some result \<Rightarrow>
               Some (if length result \<noteq> card (g_nodes g) then Inl (GraphError ''graph contains a cycle'')
                     else Inr result)))"

text \<open>\<^verbatim>\<open>is_acyclic\<close> catches \<^verbatim>\<open>GraphError\<close> only.\<close>

definition is_acyclic :: "ProvenanceGraph \<Rightarrow> (graph_error + bool) option" where
  "is_acyclic g = map_option (\<lambda>r. case r of
       Inr _ \<Rightarrow> Inr True
     | Inl (GraphError _) \<Rightarrow> Inr False
     | Inl OutOfRange \<Rightarrow> Inl OutOfRange) (topological_order g)"

section \<open>The class invariant\<close>

definition edges :: "ProvenanceGraph \<Rightarrow> (StateId \<times> StateId) set" where
  "edges g = {(p, c). c \<in> set_at (g_children g) p}"

text \<open>\<open>graph_wf\<close>: the two adjacency maps mirror each other over the registered nodes;
  \<open>graph_inv\<close> adds that there is no cycle.\<close>

definition graph_wf :: "ProvenanceGraph \<Rightarrow> bool" where
  "graph_wf g \<longleftrightarrow>
     Mapping.keys (g_parents g) = g_nodes g \<and> Mapping.keys (g_children g) = g_nodes g
     \<and> (\<forall>p c. c \<in> set_at (g_children g) p \<longleftrightarrow> p \<in> set_at (g_parents g) c)
     \<and> edges g \<subseteq> g_nodes g \<times> g_nodes g
     \<and> null_id \<notin> g_nodes g
     \<and> g_arc_count g = card (edges g)"

definition graph_inv :: "ProvenanceGraph \<Rightarrow> bool" where
  "graph_inv g \<longleftrightarrow> graph_wf g \<and> acyclic (edges g)"

lemma set_parents [simp]: "set (parents g i) = set_at (g_parents g) i"
  by (simp add: parents_def set_at_def split: option.split)

lemma set_children [simp]: "set (children g i) = set_at (g_children g) i"
  by (simp add: children_def set_at_def split: option.split)

lemma parents_sorted [simp]: "sorted (parents g i)" "distinct (parents g i)"
  by (simp_all add: parents_def split: option.split)

lemma children_sorted [simp]: "sorted (children g i)" "distinct (children g i)"
  by (simp_all add: children_def split: option.split)

lemma graph_wf_parents: "graph_wf g \<Longrightarrow> p \<in> set_at (g_parents g) c \<longleftrightarrow> (p, c) \<in> edges g"
  by (simp add: graph_wf_def edges_def)

lemma children_edges: "c \<in> set_at (g_children g) p \<longleftrightarrow> (p, c) \<in> edges g"
  by (simp add: edges_def)

lemma graph_wf_edges: "graph_wf g \<Longrightarrow> (p, c) \<in> edges g \<Longrightarrow> p \<in> g_nodes g \<and> c \<in> g_nodes g"
  by (auto simp: graph_wf_def)

lemma edges_empty_graph [simp]: "edges empty_graph = {}"
  by (simp add: edges_def empty_graph_def)

lemma graph_inv_empty: "graph_inv empty_graph"
  unfolding graph_inv_def graph_wf_def by (simp add: acyclic_def) (simp add: empty_graph_def)

section \<open>Searches compute closures\<close>

lemma closed_reach:
  assumes "\<And>x. x \<in> out \<Longrightarrow> R `` {x} \<subseteq> out \<union> S"
  shows "R\<^sup>* `` out \<subseteq> out \<union> R\<^sup>* `` S"
proof (clarify)
  fix y x assume "(x, y) \<in> R\<^sup>*" "x \<in> out" "y \<notin> R\<^sup>* `` S"
  then show "y \<in> out"
  proof (induction rule: rtrancl_induct)
    case (step y z)
    then have "y \<in> out" by (blast intro: rtrancl_into_rtrancl)
    with assms step show ?case by blast
  qed simp
qed

lemma closure_loop_reach:
  assumes "\<And>x. x \<in> out \<Longrightarrow> set (nbrs x) \<subseteq> out \<union> set stack"
  shows "closure_loop nbrs stack out = out \<union> {(x, y). y \<in> set (nbrs x)}\<^sup>* `` set stack"
  using assms
proof (induction nbrs stack out rule: closure_loop.induct)
  case (1 nbrs out)
  then show ?case by simp
next
  case (2 nbrs cur stack out)
  let ?R = "{(x, y). y \<in> set (nbrs x)}"
  show ?case
  proof (cases "cur \<in> out")
    case True
    have "?R\<^sup>* `` out \<subseteq> out \<union> ?R\<^sup>* `` set stack"
      using "2.prems" True by (intro closed_reach) auto
    moreover have "closure_loop nbrs stack out = out \<union> ?R\<^sup>* `` set stack"
      using "2.IH"(1) [OF True] "2.prems" True by fastforce
    ultimately show ?thesis using True by auto
  next
    case False
    have "closure_loop nbrs (rev (nbrs cur) @ stack) (insert cur out)
        = insert cur out \<union> ?R\<^sup>* `` (set (nbrs cur) \<union> set stack)"
      using "2.IH"(2) [OF False] "2.prems" by fastforce
    moreover have "?R\<^sup>* `` {cur} = insert cur (?R\<^sup>* `` set (nbrs cur))"
      by (auto elim: converse_rtranclE intro: converse_rtrancl_into_rtrancl)
    ultimately show ?thesis using False by (auto simp: Image_Un)
  qed
qed

lemma reach_neighbours: "R\<^sup>* `` (R `` {x}) = R\<^sup>+ `` {x}"
  by (auto simp: trancl_unfold_left relcomp_unfold dest: tranclD intro: rtrancl_into_trancl2)

lemma children_relation: "{(x, y). y \<in> set (children g x)} = edges g"
  by (auto simp: children_edges)

lemma parents_relation: "graph_wf g \<Longrightarrow> {(x, y). y \<in> set (parents g x)} = (edges g)\<inverse>"
  by (auto simp: graph_wf_parents)

lemma isolated_trancl:
  assumes "graph_wf g" "i \<notin> g_nodes g"
  shows "(edges g)\<^sup>+ `` {i} = {}" "((edges g)\<inverse>)\<^sup>+ `` {i} = {}"
  using assms by (auto dest!: tranclD simp: graph_wf_def)

lemma set_descendants:
  assumes "graph_wf g"
  shows "set (descendants g i) = (edges g)\<^sup>+ `` {i}"
proof (cases "has_node g i")
  case True
  have eq: "set (children g i) = edges g `` {i}" by (auto simp: children_edges)
  have "closure_loop (children g) (rev (children g i)) {} = (edges g)\<^sup>* `` (edges g `` {i})"
    by (subst closure_loop_reach) (auto simp: children_relation eq simp del: set_children)
  with True show ?thesis by (simp add: descendants_def reach_neighbours)
next
  case False
  with assms show ?thesis by (simp add: descendants_def has_node_def isolated_trancl)
qed

lemma set_ancestors:
  assumes "graph_wf g"
  shows "set (ancestors g i) = ((edges g)\<inverse>)\<^sup>+ `` {i}"
proof (cases "has_node g i")
  case True
  have eq: "set (parents g i) = (edges g)\<inverse> `` {i}"
    using assms by (auto simp: graph_wf_parents)
  have "closure_loop (parents g) (rev (parents g i)) {} = ((edges g)\<inverse>)\<^sup>* `` ((edges g)\<inverse> `` {i})"
    by (subst closure_loop_reach) (auto simp: parents_relation [OF assms] eq simp del: set_parents)
  with True show ?thesis by (simp add: ancestors_def reach_neighbours)
next
  case False
  with assms show ?thesis by (simp add: ancestors_def has_node_def isolated_trancl)
qed

text \<open>The cycle test: \<open>visited\<close> holds what was reached, \<open>stack\<close> what remains to expand.\<close>

lemma cycle_scan_None_iff: "cycle_scan parent ns visited stack = None \<longleftrightarrow> parent \<in> set ns"
  by (induction parent ns visited stack rule: cycle_scan.induct) auto

lemma cycle_scan_Some:
  "cycle_scan parent ns visited stack = Some (visited', stack') \<Longrightarrow>
    visited' = visited \<union> set ns \<and> set stack' = set stack \<union> (set ns - visited)"
  by (induction parent ns visited stack rule: cycle_scan.induct) (auto split: if_splits)

lemma cycle_loop_iff:
  assumes "\<And>x. x \<in> visited \<Longrightarrow> x \<notin> set stack \<Longrightarrow> set (nbrs x) \<subseteq> visited"
    and "parent \<notin> visited"
  shows "cycle_loop nbrs parent visited stack \<longleftrightarrow>
    parent \<in> {(x, y). y \<in> set (nbrs x)}\<^sup>+ `` set stack"
  using assms
proof (induction nbrs parent visited stack rule: cycle_loop.induct)
  case (1 nbrs parent visited)
  then show ?case by simp
next
  case (2 nbrs parent visited cur stack)
  let ?R = "{(x, y). y \<in> set (nbrs x)}"
  show ?case
  proof (cases "cycle_scan parent (nbrs cur) visited stack")
    case None
    then have "parent \<in> set (nbrs cur)" by (simp add: cycle_scan_None_iff)
    with None show ?thesis by auto
  next
    case (Some r)
    obtain visited' stack' where r: "r = (visited', stack')" by fastforce
    have step: "visited' = visited \<union> set (nbrs cur)"
      "set stack' = set stack \<union> (set (nbrs cur) - visited)"
      using cycle_scan_Some [of parent "nbrs cur" visited stack visited' stack'] Some r by simp_all
    have new: "parent \<notin> set (nbrs cur)" using Some cycle_scan_None_iff by (metis option.distinct(1))
    have closed: "set (nbrs x) \<subseteq> visited'" if "x \<in> visited'" "x \<notin> set stack'" for x
      using that "2.prems"(1) [of x] step by (cases "x = cur") auto
    have IH: "cycle_loop nbrs parent visited' stack' \<longleftrightarrow> parent \<in> ?R\<^sup>+ `` set stack'"
      using "2.IH" [OF Some r [symmetric]] closed "2.prems"(2) new step by auto
    have "parent \<in> ?R\<^sup>+ `` set stack' \<longleftrightarrow> parent \<in> ?R\<^sup>+ `` set (cur # stack)"
    proof
      assume "parent \<in> ?R\<^sup>+ `` set stack'"
      then show "parent \<in> ?R\<^sup>+ `` set (cur # stack)"
        using step by (auto intro: trancl_into_trancl2)
    next
      assume "parent \<in> ?R\<^sup>+ `` set (cur # stack)"
      then consider "parent \<in> ?R\<^sup>+ `` set stack" | "(cur, parent) \<in> ?R\<^sup>+" by auto
      then show "parent \<in> ?R\<^sup>+ `` set stack'"
      proof cases
        case 1
        then show ?thesis using step by auto
      next
        case 2
        then obtain n where n: "n \<in> set (nbrs cur)" "(n, parent) \<in> ?R\<^sup>*" by (auto dest: tranclD)
        have "?R\<^sup>* `` visited' \<subseteq> visited' \<union> ?R\<^sup>* `` (?R `` set stack')"
          using closed by (intro closed_reach) blast
        with n step new "2.prems"(2) have "parent \<in> ?R\<^sup>* `` (?R `` set stack')" by auto
        then show ?thesis by (auto intro: rtrancl_into_trancl2)
      qed
    qed
    with IH Some r show ?thesis by simp
  qed
qed

lemma would_create_cycle_iff:
  assumes "parent \<noteq> child"
  shows "would_create_cycle g parent child \<longleftrightarrow> (child, parent) \<in> (edges g)\<^sup>+"
  unfolding would_create_cycle_def
  by (subst cycle_loop_iff) (auto simp: children_relation simp del: set_children)

section \<open>Mutations keep the invariant\<close>

lemma add_node_Inr:
  "add_node i g = Inr (b, g') \<Longrightarrow>
    valid i \<and> b = (i \<notin> g_nodes g) \<and> g_nodes g' = insert i (g_nodes g)
      \<and> edges g' = edges g \<and> g_arc_count g' = g_arc_count g"
  by (auto simp: add_node_def edges_def split: if_splits)

lemma add_node_wf:
  assumes wf: "graph_wf g" and add: "add_node i g = Inr (b, g')"
  shows "graph_wf g'"
proof (cases "i \<in> g_nodes g")
  case True
  with add wf show ?thesis by (simp add: add_node_def split: if_splits)
next
  case False
  with add have i: "i \<noteq> null_id"
    and g': "g' = g\<lparr>g_nodes := insert i (g_nodes g), g_parents := touch_at i (g_parents g),
      g_children := touch_at i (g_children g)\<rparr>"
    by (auto simp: add_node_def split: if_splits)
  have "edges g' = edges g" by (simp add: g' edges_def)
  moreover have "edges g \<subseteq> insert i (g_nodes g) \<times> insert i (g_nodes g)"
    using wf by (auto simp: graph_wf_def)
  ultimately show ?thesis using wf i unfolding graph_wf_def by (simp add: g')
qed

lemma add_node_inv: "graph_inv g \<Longrightarrow> add_node i g = Inr (b, g') \<Longrightarrow> graph_inv g'"
  using add_node_wf add_node_Inr by (fastforce simp: graph_inv_def)

lemma add_arc_Inr:
  assumes "add_arc p c g = Inr g'"
  shows "p \<noteq> c" "p \<in> g_nodes g" "c \<in> g_nodes g" "(p, c) \<notin> edges g" "(c, p) \<notin> (edges g)\<^sup>+"
    "g_nodes g' = g_nodes g" "edges g' = insert (p, c) (edges g)"
    "g_arc_count g' = Suc (g_arc_count g)"
  using assms
  by (auto simp: add_arc_def would_create_cycle_iff has_node_def edges_def split: if_splits)

lemma acyclic_insert_arc: "acyclic r \<Longrightarrow> a \<noteq> b \<Longrightarrow> (b, a) \<notin> r\<^sup>+ \<Longrightarrow> acyclic (insert (a, b) r)"
  by (simp add: acyclic_insert rtrancl_eq_or_trancl)

lemma add_arc_wf: "graph_wf g \<Longrightarrow> add_arc p c g = Inr g' \<Longrightarrow> graph_wf g'"
  using add_arc_Inr [of p c g g']
  by (auto simp: graph_wf_def add_arc_def has_node_def split: if_splits)

lemma add_arc_inv: "graph_inv g \<Longrightarrow> add_arc p c g = Inr g' \<Longrightarrow> graph_inv g'"
  unfolding graph_inv_def by (metis acyclic_insert_arc add_arc_Inr(1,5,7) add_arc_wf)

section \<open>Kahn's algorithm is correct\<close>

text \<open>\<open>parents_first P seen xs\<close>: every element of \<open>xs\<close> has all its parents in \<open>seen\<close> or before
  it.\<close>

fun parents_first :: "('a \<Rightarrow> 'a set) \<Rightarrow> 'a set \<Rightarrow> 'a list \<Rightarrow> bool" where
  "parents_first P seen [] = True"
| "parents_first P seen (x # xs) = (P x \<subseteq> seen \<and> parents_first P (insert x seen) xs)"

lemma parents_first_snoc:
  "parents_first P seen (xs @ [x]) \<longleftrightarrow> parents_first P seen xs \<and> P x \<subseteq> seen \<union> set xs"
  by (induction xs arbitrary: seen) auto

lemma parents_first_closed:
  "parents_first P seen xs \<Longrightarrow> x \<in> set xs \<Longrightarrow> P x \<subseteq> seen \<union> set xs"
  by (induction xs arbitrary: seen) auto

lemma parents_first_acyclic:
  assumes "parents_first P {} xs" "distinct xs"
  shows "acyclic {(p, n). n \<in> set xs \<and> p \<in> P n}"
  using assms
proof (induction xs rule: rev_induct)
  case Nil
  then show ?case by (simp add: acyclic_def)
next
  case (snoc x xs)
  let ?R = "{(p, n). n \<in> set xs \<and> p \<in> P n}" and ?R' = "{(p, n). n \<in> set (xs @ [x]) \<and> p \<in> P n}"
  have IH: "acyclic ?R" and px: "P x \<subseteq> set xs" and x: "x \<notin> set xs" and pf: "parents_first P {} xs"
    using snoc by (auto simp: parents_first_snoc)
  have no_out: "(x, n) \<notin> ?R'" for n
    using px x parents_first_closed [OF pf] by fastforce
  have path: "(a, b) \<in> ?R'\<^sup>+ \<Longrightarrow> b \<noteq> x \<Longrightarrow> (a, b) \<in> ?R\<^sup>+" for a b
  proof (induction rule: trancl_induct)
    case (step y z)
    then have "y \<noteq> x" using no_out by blast
    with step have "(a, y) \<in> ?R\<^sup>+" "(y, z) \<in> ?R" by auto
    then show ?case by (rule trancl_into_trancl)
  qed auto
  show ?case
  proof (rule acyclicI, intro allI notI)
    fix a assume a: "(a, a) \<in> ?R'\<^sup>+"
    then have "a \<noteq> x" using no_out by (auto dest: tranclD)
    with a path IH show False by (auto simp: acyclic_def)
  qed
qed

lemma kahn_visit_ready:
  assumes "distinct chs"
  shows "snd (kahn_visit chs in_deg ready) = ready \<union> {c \<in> set chs.
     dec_size (Mapping.lookup_default 0 in_deg c) = 0}"
    and "Mapping.lookup (fst (kahn_visit chs in_deg ready)) n =
      (if n \<in> set chs then Some (dec_size (Mapping.lookup_default 0 in_deg n))
       else Mapping.lookup in_deg n)"
  using assms
  by (induction chs in_deg ready rule: kahn_visit.induct)
    (auto simp: Let_def lookup_update' lookup_default_update')

text \<open>
  The contract of a client of the loop: the nodes, the parents of each, the children lists it
  hands out and the in-degrees it starts from, which must agree with one another.  Parents
  need not be nodes, and the relation need not be acyclic.
\<close>

locale dependency_order =
  fixes inv :: "'s \<Rightarrow> bool" and N :: "'s \<Rightarrow> ('k::linorder) set" and P :: "'s \<Rightarrow> 'k \<Rightarrow> 'k set"
    and chs :: "'s \<Rightarrow> 'k \<Rightarrow> 'k list" and deg :: "'s \<Rightarrow> ('k, nat) mapping"
  assumes nodes_finite: "inv s \<Longrightarrow> finite (N s)"
    and parents_finite: "inv s \<Longrightarrow> n \<in> N s \<Longrightarrow> finite (P s n)"
    and chs_set: "inv s \<Longrightarrow> set (chs s p) = {n \<in> N s. p \<in> P s n}"
    and chs_distinct: "inv s \<Longrightarrow> distinct (chs s p)"
    and deg_keys: "inv s \<Longrightarrow> Mapping.keys (deg s) = N s"
    and deg_lookup: "inv s \<Longrightarrow> n \<in> N s \<Longrightarrow> Mapping.lookup (deg s) n = Some (card (P s n))"
begin

definition loop_inv :: "'s \<Rightarrow> ('k, nat) mapping \<Rightarrow> 'k set \<Rightarrow> 'k list \<Rightarrow> bool" where
  "loop_inv s d ready result \<longleftrightarrow>
     distinct result \<and> set result \<subseteq> N s \<and> parents_first (P s) {} result
     \<and> ready = {n \<in> N s - set result. P s n \<subseteq> set result}
     \<and> (\<forall>n\<in>N s. Mapping.lookup d n = Some (card (P s n - set result)))"

lemma initial_inv:
  assumes "inv s"
  shows "loop_inv s (deg s) (initially_ready (deg s)) []"
proof -
  have fin: "finite (Mapping.keys (deg s))" using assms by (simp add: deg_keys nodes_finite)
  have "initially_ready (deg s) = {n. Mapping.lookup (deg s) n = Some 0}"
    unfolding initially_ready_def set_map set_filter set_ordered_entries [OF fin] entries_lookup
      Map.graph_def by force
  also have "\<dots> = {n \<in> N s. P s n = {}}"
  proof (intro Collect_cong iffI conjI)
    fix n assume z: "Mapping.lookup (deg s) n = Some 0"
    then show n: "n \<in> N s" using deg_keys [OF assms] by (metis lookup_in_keys option.distinct(1))
    show "P s n = {}"
      using z deg_lookup [OF assms n] parents_finite [OF assms n] by simp
  qed (use deg_lookup [OF assms] in simp)
  finally show ?thesis using assms by (auto simp: loop_inv_def deg_lookup)
qed

lemma visit_inv:
  assumes inv: "inv s" and li: "loop_inv s d ready result" and ne: "ready \<noteq> {}"
  defines "cur \<equiv> Min ready"
  defines "st \<equiv> kahn_visit (chs s cur) d (ready - {cur})"
  shows "loop_inv s (fst st) (snd st) (result @ [cur])"
    and "cur \<in> N s - set result"
proof -
  let ?done = "set result"
  have fin: "finite ready"
    using li nodes_finite [OF inv] by (auto simp: loop_inv_def)
  have "cur \<in> ready" unfolding cur_def using fin ne by (rule Min_in)
  with li have cur: "cur \<in> N s" "cur \<notin> ?done" "P s cur \<subseteq> ?done" by (auto simp: loop_inv_def)
  show "cur \<in> N s - ?done" using cur by simp
  have self: "cur \<notin> P s cur" using cur by blast
  have done_par: "P s n \<subseteq> ?done" if "n \<in> ?done" for n
    using parents_first_closed [of "P s" "{}" result n] li that by (simp add: loop_inv_def)
  have dn: "Mapping.lookup_default 0 d n = card (P s n - ?done)" if "n \<in> N s" for n
    using li that by (simp add: loop_inv_def lookup_default_def)
  have less: "card (P s n - set (result @ [cur])) = card (P s n - ?done) - 1"
    "0 < card (P s n - ?done)" if "n \<in> N s" "cur \<in> P s n" for n
  proof -
    have "P s n - set (result @ [cur]) = (P s n - ?done) - {cur}" by auto
    moreover have "cur \<in> P s n - ?done" "finite (P s n - ?done)"
      using that cur parents_finite [OF inv] by auto
    ultimately show "card (P s n - set (result @ [cur])) = card (P s n - ?done) - 1"
      "0 < card (P s n - ?done)" by (auto simp: card_gt_0_iff)
  qed
  then have dec: "dec_size (Mapping.lookup_default 0 d n) = card (P s n - set (result @ [cur]))"
    if "n \<in> set (chs s cur)" for n
    using that chs_set [OF inv] dn by (simp add: dec_size_def)
  have zero: "card (P s n - set (result @ [cur])) = 0 \<longleftrightarrow> P s n \<subseteq> set (result @ [cur])"
    if "n \<in> N s" for n
    using that parents_finite [OF inv] by (auto simp: card_eq_0_iff)
  have look: "\<forall>n\<in>N s. Mapping.lookup (fst st) n = Some (card (P s n - set (result @ [cur])))"
  proof
    fix n assume n: "n \<in> N s"
    show "Mapping.lookup (fst st) n = Some (card (P s n - set (result @ [cur])))"
    proof (cases "cur \<in> P s n")
      case True
      with n dec show ?thesis
        unfolding st_def kahn_visit_ready(2) [OF chs_distinct [OF inv]] by (simp add: chs_set [OF inv])
    next
      case False
      then have "P s n - set (result @ [cur]) = P s n - ?done" by auto
      with False n li show ?thesis
        unfolding st_def kahn_visit_ready(2) [OF chs_distinct [OF inv]]
        by (simp add: chs_set [OF inv] loop_inv_def)
    qed
  qed
  have "snd st = ready - {cur} \<union> {n \<in> N s. cur \<in> P s n \<and> P s n \<subseteq> set (result @ [cur])}"
    unfolding st_def kahn_visit_ready(1) [OF chs_distinct [OF inv]]
    using dec zero by (auto simp: chs_set [OF inv])
  also have "\<dots> = {n \<in> N s - set (result @ [cur]). P s n \<subseteq> set (result @ [cur])}"
    using li cur self done_par by (auto simp: loop_inv_def)
  finally have ready: "snd st = {n \<in> N s - set (result @ [cur]). P s n \<subseteq> set (result @ [cur])}" .
  show "loop_inv s (fst st) (snd st) (result @ [cur])"
    unfolding loop_inv_def using li cur look ready by (simp add: loop_inv_def parents_first_snoc)
qed

lemma loop_returns:
  assumes inv: "inv s" and li: "loop_inv s d ready result"
  shows "\<exists>order d'. kahn_loop (chs s) d ready result = Some order \<and> loop_inv s d' {} order"
  using li
proof (induction "card (N s - set result)" arbitrary: d ready result rule: less_induct)
  case less
  show ?case
  proof (cases "ready = {}")
    case True
    with less.prems show ?thesis by (auto simp: kahn_loop.simps)
  next
    case False
    let ?cur = "Min ready"
    let ?st = "kahn_visit (chs s ?cur) d (ready - {?cur})"
    note step = visit_inv [OF inv less.prems False]
    have "N s - set (result @ [?cur]) \<subset> N s - set result" using step(2) by auto
    then have "card (N s - set (result @ [?cur])) < card (N s - set result)"
      by (rule psubset_card_mono [rotated]) (simp add: nodes_finite [OF inv])
    from less.hyps [OF this step(1)] False show ?thesis by (subst kahn_loop.simps) simp
  qed
qed

text \<open>The loop returns, and emits nodes in dependency order until no more can be emitted.\<close>

lemma run_result:
  assumes "inv s"
  shows "\<exists>order. kahn_loop (chs s) (deg s) (initially_ready (deg s)) [] = Some order
    \<and> distinct order \<and> set order \<subseteq> N s \<and> parents_first (P s) {} order
    \<and> (\<forall>n\<in>N s. P s n \<subseteq> set order \<longrightarrow> n \<in> set order)"
proof -
  from loop_returns [OF assms initial_inv [OF assms]] obtain order d
    where r: "kahn_loop (chs s) (deg s) (initially_ready (deg s)) [] = Some order"
      "loop_inv s d {} order" by blast
  then show ?thesis by (intro exI [of _ order]) (auto simp: loop_inv_def)
qed

text \<open>All nodes are emitted just when every parent is a node and there is no cycle.\<close>

lemma all_emitted_iff:
  assumes inv: "inv s"
    and run: "kahn_loop (chs s) (deg s) (initially_ready (deg s)) [] = Some order"
  shows "length order = card (N s) \<longleftrightarrow>
    (\<Union>n\<in>N s. P s n) \<subseteq> N s \<and> acyclic {(p, n). n \<in> N s \<and> p \<in> P s n}"
    (is "_ \<longleftrightarrow> ?closed \<and> acyclic ?R")
proof -
  have o: "distinct order" "set order \<subseteq> N s" "parents_first (P s) {} order"
    and more: "\<And>n. n \<in> N s \<Longrightarrow> P s n \<subseteq> set order \<Longrightarrow> n \<in> set order"
    using run_result [OF inv] unfolding run by auto
  have len: "length order = card (N s) \<longleftrightarrow> set order = N s"
    using o nodes_finite [OF inv] by (metis card_subset_eq distinct_card)
  have "set order = N s \<longleftrightarrow> ?closed \<and> acyclic ?R"
  proof
    assume all: "set order = N s"
    have ?closed using parents_first_closed [OF o(3)] all by auto
    moreover have "acyclic ?R" using parents_first_acyclic [OF o(3,1)] all by simp
    ultimately show "?closed \<and> acyclic ?R" ..
  next
    assume ca: "?closed \<and> acyclic ?R"
    have "?R \<subseteq> N s \<times> N s" using ca by auto
    then have "finite ?R" using nodes_finite [OF inv] by (meson finite_SigmaI finite_subset)
    with ca have wf: "wf ?R" by (simp add: finite_acyclic_wf)
    have "n \<in> N s \<Longrightarrow> n \<in> set order" for n
    proof (induction n rule: wf_induct_rule [OF wf])
      case (1 n)
      then have "P s n \<subseteq> set order" using ca by auto
      with 1 more show ?case by blast
    qed
    with o show "set order = N s" by blast
  qed
  with len show ?thesis by simp
qed

end

section \<open>The graph as a client of the loop\<close>

lemma in_degrees_lookup:
  assumes "set ids \<subseteq> Mapping.keys (g_parents g)"
  shows "\<exists>m'. in_degrees g ids m = Inr m'
    \<and> (\<forall>n. Mapping.lookup m' n =
        (if n \<in> set ids then Some (card (set_at (g_parents g) n)) else Mapping.lookup m n))"
  using assms
proof (induction ids arbitrary: m)
  case (Cons i ids)
  then obtain s where s: "Mapping.lookup (g_parents g) i = Some s" by (auto simp: keys_dom_lookup)
  with Cons.IH [of "Mapping.update i (card s) m"] Cons.prems show ?case
    by (auto simp: parents_at_def set_at_def lookup_update')
qed simp

definition degrees_of :: "ProvenanceGraph \<Rightarrow> (StateId, nat) mapping" where
  "degrees_of g = (case in_degrees g (node_list g) Mapping.empty of
     Inl _ \<Rightarrow> Mapping.empty | Inr m \<Rightarrow> m)"

lemma set_node_list [simp]: "set (node_list g) = g_nodes g"
  by (simp add: node_list_def)

lemma degrees_of_lookup:
  assumes "graph_wf g"
  shows "in_degrees g (node_list g) Mapping.empty = Inr (degrees_of g)"
    and "Mapping.lookup (degrees_of g) n =
      (if n \<in> g_nodes g then Some (card (set_at (g_parents g) n)) else None)"
proof -
  have "set (node_list g) \<subseteq> Mapping.keys (g_parents g)" using assms by (simp add: graph_wf_def)
  from in_degrees_lookup [OF this, of Mapping.empty] obtain m where
    m: "in_degrees g (node_list g) Mapping.empty = Inr m"
      "\<And>n. Mapping.lookup m n = (if n \<in> g_nodes g then Some (card (set_at (g_parents g) n)) else None)"
    by (auto simp: lookup_empty)
  then show "in_degrees g (node_list g) Mapping.empty = Inr (degrees_of g)"
    "Mapping.lookup (degrees_of g) n =
      (if n \<in> g_nodes g then Some (card (set_at (g_parents g) n)) else None)"
    by (simp_all add: degrees_of_def)
qed

interpretation graph_order: dependency_order graph_wf g_nodes "\<lambda>g. set_at (g_parents g)" children
  degrees_of
proof
  fix g p assume wf: "graph_wf g"
  then show "set (children g p) = {n \<in> g_nodes g. p \<in> set_at (g_parents g) n}"
    by (auto simp: graph_wf_def edges_def)
  show "Mapping.keys (degrees_of g) = g_nodes g"
    using degrees_of_lookup(2) [OF wf] by (auto simp: keys_dom_lookup split: if_splits)
qed (simp_all add: degrees_of_lookup)

lemma parent_relation:
  assumes "graph_wf g"
  shows "{(p, n). n \<in> g_nodes g \<and> p \<in> set_at (g_parents g) n} = edges g"
    and "(\<Union>n\<in>g_nodes g. set_at (g_parents g) n) \<subseteq> g_nodes g"
  using assms graph_wf_edges [OF assms] by (auto simp: graph_wf_parents)

lemma topological_order_result:
  assumes wf: "graph_wf g"
  shows "\<exists>order. topological_order g =
      Some (if acyclic (edges g) then Inr order else Inl (GraphError ''graph contains a cycle''))
    \<and> (acyclic (edges g) \<longrightarrow> set order = g_nodes g) \<and> distinct order
    \<and> parents_first (set_at (g_parents g)) {} order"
proof -
  obtain order where o: "kahn_loop (children g) (degrees_of g) (initially_ready (degrees_of g)) []
      = Some order" "distinct order" "set order \<subseteq> g_nodes g"
      "parents_first (set_at (g_parents g)) {} order"
    using graph_order.run_result [OF wf] by blast
  have len: "length order = card (g_nodes g) \<longleftrightarrow> acyclic (edges g)"
    using graph_order.all_emitted_iff [OF wf o(1)] parent_relation [OF wf] by simp
  have "set order = g_nodes g" if "length order = card (g_nodes g)"
    using that o by (metis card_subset_eq distinct_card finite)
  with o len show ?thesis
    by (intro exI [of _ order]) (simp add: topological_order_def degrees_of_lookup(1) [OF wf])
qed

lemma set_intersection_sorted:
  "sorted xs \<Longrightarrow> distinct xs \<Longrightarrow> sorted ys \<Longrightarrow> distinct ys \<Longrightarrow>
    set (set_intersection xs ys) = set xs \<inter> set ys
    \<and> sorted (set_intersection xs ys) \<and> distinct (set_intersection xs ys)"
proof (induction xs ys rule: set_intersection.induct)
  case (1 x xs y ys)
  consider "x < y" | "y < x" | "x = y" by fastforce
  then show ?case
  proof cases
    case 1
    then have "x \<notin> set (y # ys)" using "1.prems" by auto
    with 1 "1.IH"(1) "1.prems" show ?thesis by auto
  next
    case 2
    then have "y \<notin> set (x # xs)" using "1.prems" by auto
    with 2 "1.IH"(2) "1.prems" show ?thesis by auto
  next
    case 3
    with "1.IH"(3) "1.prems" show ?thesis by auto
  qed
qed simp_all

lemma closures_sorted [simp]:
  "sorted (ancestors g i)" "distinct (ancestors g i)"
  "sorted (descendants g i)" "distinct (descendants g i)"
  by (simp_all add: ancestors_def descendants_def)

lemma roots_loop_result:
  "set ids \<subseteq> Mapping.keys (g_parents g) \<Longrightarrow>
    roots_loop g ids out = Inr (out @ filter (\<lambda>i. set_at (g_parents g) i = {}) ids)"
  by (induction ids arbitrary: out)
    (auto simp: parents_at_def set_at_def keys_dom_lookup split: option.splits)


lemma sorted_distinct_eq_set:
  "sorted xs \<Longrightarrow> distinct xs \<Longrightarrow> set xs = A \<Longrightarrow> xs = sorted_list_of_set A"
  by (metis sorted_list_of_set.idem_if_sorted_distinct)

lemma filter_nodes: "filter Q (node_list g) = sorted_list_of_set {i \<in> g_nodes g. Q i}"
  by (rule sorted_distinct_eq_set) (auto simp: node_list_def intro: sorted_wrt_filter)

lemma roots_result:
  assumes "graph_wf g"
  shows "roots g = Inr (sorted_list_of_set {i \<in> g_nodes g. set_at (g_parents g) i = {}})"
  unfolding roots_def
  by (subst roots_loop_result) (use assms in \<open>simp_all add: graph_wf_def filter_nodes\<close>)

text \<open>The graphs a client can build: any sequence of successful mutations of the empty graph.\<close>

inductive graph_step :: "ProvenanceGraph \<Rightarrow> ProvenanceGraph \<Rightarrow> bool" where
  node: "add_node i g = Inr (b, g') \<Longrightarrow> graph_step g g'"
| arc: "add_arc p c g = Inr g' \<Longrightarrow> graph_step g g'"

inductive_cases graph_stepE [elim!]: "graph_step g g'"

inductive graph_reachable :: "ProvenanceGraph \<Rightarrow> bool" where
  start: "graph_reachable empty_graph"
| more: "graph_reachable g \<Longrightarrow> graph_step g g' \<Longrightarrow> graph_reachable g'"

lemma graph_reachable_invI: "graph_reachable g \<Longrightarrow> graph_inv g"
  by (induction rule: graph_reachable.induct)
    (auto intro: graph_inv_empty add_node_inv add_arc_inv)

section \<open>Properties\<close>

text \<open>
  Every graph built from the empty one by successful \<^verbatim>\<open>add_node\<close> and \<^verbatim>\<open>add_arc\<close> calls keeps the
  class invariant (mirrored adjacency maps over the registered nodes, arc count, no cycle),
  and \<^verbatim>\<open>is_acyclic\<close> returns true on it.
\<close>

theorem reachable_graphs_acyclic:
  assumes "graph_reachable g"
  shows "graph_inv g \<and> is_acyclic g = Some (Inr True)"
proof -
  have inv: "graph_inv g" using assms by (rule graph_reachable_invI)
  then have "graph_wf g" "acyclic (edges g)" by (simp_all add: graph_inv_def)
  with topological_order_result show ?thesis using inv by (fastforce simp: is_acyclic_def)
qed

definition two_nodes :: ProvenanceGraph where
  "two_nodes = \<lparr>g_nodes = {ScalarIdentifier 1, ScalarIdentifier 2},
     g_parents = Mapping.update (ScalarIdentifier 2) {}
       (Mapping.update (ScalarIdentifier 1) {} Mapping.empty),
     g_children = Mapping.update (ScalarIdentifier 2) {}
       (Mapping.update (ScalarIdentifier 1) {} Mapping.empty),
     g_arc_count = 0\<rparr>"

definition one_arc :: ProvenanceGraph where
  "one_arc = (case add_arc (ScalarIdentifier 1) (ScalarIdentifier 2) two_nodes of
     Inl _ \<Rightarrow> empty_graph | Inr g \<Rightarrow> g)"

lemma one_arc_built: "add_arc (ScalarIdentifier 1) (ScalarIdentifier 2) two_nodes = Inr one_arc"
  unfolding one_arc_def by code_simp

lemma two_nodes_built:
  "add_node (ScalarIdentifier 1) empty_graph = Inr (True, empty_graph\<lparr>
      g_nodes := {ScalarIdentifier 1}, g_parents := touch_at (ScalarIdentifier 1) Mapping.empty,
      g_children := touch_at (ScalarIdentifier 1) Mapping.empty\<rparr>)"
  "add_node (ScalarIdentifier 2) (empty_graph\<lparr>
      g_nodes := {ScalarIdentifier 1}, g_parents := touch_at (ScalarIdentifier 1) Mapping.empty,
      g_children := touch_at (ScalarIdentifier 1) Mapping.empty\<rparr>) = Inr (True, two_nodes)"
  unfolding two_nodes_def by code_simp+

lemma two_nodes_reachable: "graph_reachable two_nodes"
  by (rule graph_reachable.intros graph_step.node two_nodes_built)+

lemma one_arc_reachable: "graph_reachable one_arc"
  by (rule graph_reachable.more [OF two_nodes_reachable] graph_step.arc one_arc_built)+


lemma two_nodes_wf: "graph_wf two_nodes"
  using graph_reachable_invI [OF two_nodes_reachable] by (simp add: graph_inv_def)

lemma one_arc_wf: "graph_wf one_arc"
  using graph_reachable_invI [OF one_arc_reachable] by (simp add: graph_inv_def)

theorem reachable_graphs_acyclic_witness:
  "graph_inv one_arc \<and> is_acyclic one_arc = Some (Inr True)"
  by (rule reachable_graphs_acyclic [OF one_arc_reachable])

text \<open>
  \<^verbatim>\<open>add_arc\<close> succeeds exactly for two distinct non-null registered nodes with no arc between
  them yet and no path from the child back to the parent; it then adds that one arc and changes
  nothing else that can be observed.
\<close>

theorem add_arc_exact:
  assumes "graph_wf g"
  shows "(case add_arc p c g of
      Inl e \<Rightarrow> (\<exists>msg. e = GraphError msg) \<and>
        (p = c \<or> {p, c} \<inter> (- g_nodes g) \<noteq> {} \<or> (p, c) \<in> edges g \<or> (c, p) \<in> (edges g)\<^sup>+)
    | Inr g' \<Rightarrow> p \<noteq> c \<and> {p, c} \<subseteq> g_nodes g \<and> (p, c) \<notin> edges g \<and> (c, p) \<notin> (edges g)\<^sup>+
        \<and> edges g' = insert (p, c) (edges g) \<and> g_nodes g' = g_nodes g
        \<and> arc_count g' = Suc (arc_count g) \<and> graph_wf g')"
proof (cases "add_arc p c g")
  case (Inl e)
  moreover have "null_id \<notin> g_nodes g" using assms by (simp add: graph_wf_def)
  ultimately show ?thesis
    by (auto simp: add_arc_def would_create_cycle_iff has_node_def children_edges not_valid_iff
        split: if_splits)
next
  case (Inr g')
  with add_arc_Inr [OF Inr] add_arc_wf [OF assms Inr] show ?thesis by (simp add: arc_count_def)
qed

theorem add_arc_exact_witness:
  "edges one_arc = insert (ScalarIdentifier 1, ScalarIdentifier 2) (edges two_nodes)
    \<and> arc_count one_arc = Suc (arc_count two_nodes) \<and> graph_wf one_arc"
  using add_arc_exact [OF two_nodes_wf, of "ScalarIdentifier 1" "ScalarIdentifier 2"]
  unfolding one_arc_built by simp

text \<open>
  \<^verbatim>\<open>ancestors\<close> and \<^verbatim>\<open>descendants\<close> are the transitive closures of the parent and the child
  relation, and \<^verbatim>\<open>shared_ancestors\<close> their intersection, all in ascending order.
\<close>

theorem closures_exact:
  assumes "graph_wf g"
  shows "descendants g a = sorted_list_of_set {d. (a, d) \<in> (edges g)\<^sup>+}
    \<and> ancestors g a = sorted_list_of_set {p. (p, a) \<in> (edges g)\<^sup>+}
    \<and> shared_ancestors g a b = sorted_list_of_set {p. (p, a) \<in> (edges g)\<^sup>+ \<and> (p, b) \<in> (edges g)\<^sup>+}"
proof (intro conjI; rule sorted_distinct_eq_set)
  have anc: "set (ancestors g x) = {p. (p, x) \<in> (edges g)\<^sup>+}" for x
    using set_ancestors [OF assms] by (auto simp: trancl_converse)
  then show "set (ancestors g a) = {p. (p, a) \<in> (edges g)\<^sup>+}" .
  show "set (shared_ancestors g a b) = {p. (p, a) \<in> (edges g)\<^sup>+ \<and> (p, b) \<in> (edges g)\<^sup>+}"
    "sorted (shared_ancestors g a b)" "distinct (shared_ancestors g a b)"
    using set_intersection_sorted [of "ancestors g a" "ancestors g b"] anc
    by (auto simp: shared_ancestors_def)
  show "set (descendants g a) = {d. (a, d) \<in> (edges g)\<^sup>+}" using set_descendants [OF assms] by auto
qed simp_all

theorem closures_exact_witness:
  "descendants one_arc (ScalarIdentifier 1) =
    sorted_list_of_set {d. (ScalarIdentifier 1, d) \<in> (edges one_arc)\<^sup>+}"
  using closures_exact [OF one_arc_wf] by blast

text \<open>
  C40: on a consistent graph \<^verbatim>\<open>topological_order\<close> always returns.  Without a cycle it lists every
  node once, each after all its parents; with a cycle it throws \<^verbatim>\<open>GraphError\<close>.
\<close>

theorem topological_order_correct:
  assumes "graph_wf g"
  shows "\<exists>order. topological_order g =
      Some (if acyclic (edges g) then Inr order else Inl (GraphError ''graph contains a cycle''))
    \<and> (if acyclic (edges g) then set order = g_nodes g \<and> distinct order
          \<and> parents_first (\<lambda>n. {p. (p, n) \<in> edges g}) {} order else True)"
proof -
  have "set_at (g_parents g) = (\<lambda>n. {p. (p, n) \<in> edges g})"
    using graph_wf_parents [OF assms] by auto
  with topological_order_result [OF assms] show ?thesis by auto
qed

theorem topological_order_correct_witness:
  "\<exists>order. topological_order one_arc = Some (Inr order) \<and> set order = g_nodes one_arc"
  using topological_order_correct [OF one_arc_wf] graph_reachable_invI [OF one_arc_reachable]
  by (auto simp: graph_inv_def)

end
