(* ===== verification/Authority.thy ===== *)
theory Authority
  imports Ids
begin

text \<open>
  \<^verbatim>\<open>authority.hpp\<close>: the values that are current, and the fencing of mutation claims against
  them.  The theory proves exactly when a claim is accepted, that the verdict names the first
  value that differs, and that rolling a value shuts out every claim made under the old one
  (up to the wrap-around of the 64-bit epoch).
\<close>

section \<open>Claims and verdicts\<close>

datatype FenceOutcome = ACCEPT | REJECT

record FenceVerdict =
  v_outcome :: FenceOutcome
  v_dimension :: string
  v_detail :: string

definition accepted :: "FenceVerdict \<Rightarrow> bool" where
  "accepted v \<longleftrightarrow> v_outcome v = ACCEPT"

definition reject :: "string \<Rightarrow> string \<Rightarrow> FenceVerdict" where
  "reject dim detail = \<lparr>v_outcome = REJECT, v_dimension = dim, v_detail = detail\<rparr>"

record AuthorityClaim =
  claim_worker_id :: WorkerId
  claim_worker_boot :: WorkerBootId
  claim_attempt_id :: AttemptId
  claim_attempt_generation :: AttemptGeneration
  claim_state_generation :: StateGeneration
  claim_provenance_generation :: ProvenanceGeneration
  claim_coordinator_epoch :: u64
  claim_artifact_generation :: "ArtifactGeneration option"
  claim_model_generation :: "ModelGeneration option"
  claim_adapter_generation :: "AdapterGeneration option"
  claim_composition_generation :: "CompositionGeneration option"
  claim_policy_generation :: "PolicyGeneration option"
  claim_dependency_generation :: "DependencyGeneration option"

definition empty_claim :: AuthorityClaim where
  "empty_claim = \<lparr>claim_worker_id = null_id, claim_worker_boot = null_id,
     claim_attempt_id = null_id, claim_attempt_generation = null_id,
     claim_state_generation = null_id, claim_provenance_generation = null_id,
     claim_coordinator_epoch = 0, claim_artifact_generation = None,
     claim_model_generation = None, claim_adapter_generation = None,
     claim_composition_generation = None, claim_policy_generation = None,
     claim_dependency_generation = None\<rparr>"

section \<open>AuthorityState\<close>

record AuthorityState =
  a_epoch :: u64
  a_boot :: "(WorkerId, WorkerBootId) mapping"
  a_attempt_id :: AttemptId
  a_attempt_generation :: AttemptGeneration
  a_state_generation :: StateGeneration
  a_provenance_generation :: ProvenanceGeneration
  a_artifact_generation :: ArtifactGeneration
  a_model_generation :: ModelGeneration
  a_adapter_generation :: AdapterGeneration
  a_composition_generation :: CompositionGeneration
  a_policy_generation :: PolicyGeneration
  a_dependency_generation :: DependencyGeneration

definition initial_authority :: AuthorityState where
  "initial_authority = \<lparr>a_epoch = 1, a_boot = Mapping.empty, a_attempt_id = null_id,
     a_attempt_generation = null_id, a_state_generation = null_id,
     a_provenance_generation = null_id, a_artifact_generation = null_id,
     a_model_generation = null_id, a_adapter_generation = null_id,
     a_composition_generation = null_id, a_policy_generation = null_id,
     a_dependency_generation = null_id\<rparr>"

definition roll_epoch :: "AuthorityState \<Rightarrow> u64 \<times> AuthorityState" where
  "roll_epoch a = (let e = a_epoch a + 1 in (e, a\<lparr>a_epoch := e\<rparr>))"

definition set_epoch :: "u64 \<Rightarrow> AuthorityState \<Rightarrow> AuthorityState" where
  "set_epoch e a = a\<lparr>a_epoch := if e = 0 then 1 else e\<rparr>"

definition register_boot :: "WorkerId \<Rightarrow> WorkerBootId \<Rightarrow> AuthorityState \<Rightarrow> AuthorityState" where
  "register_boot worker boot a = a\<lparr>a_boot := Mapping.update worker boot (a_boot a)\<rparr>"

definition boot_of :: "AuthorityState \<Rightarrow> WorkerId \<Rightarrow> WorkerBootId option" where
  "boot_of a worker = Mapping.lookup (a_boot a) worker"

definition begin_attempt :: "AttemptId \<Rightarrow> AttemptGeneration \<Rightarrow> AuthorityState \<Rightarrow> AuthorityState" where
  "begin_attempt i gen a = a\<lparr>a_attempt_id := i, a_attempt_generation := gen\<rparr>"

definition roll_state_generation :: "StateGeneration \<Rightarrow> AuthorityState \<Rightarrow> AuthorityState" where
  "roll_state_generation g a = a\<lparr>a_state_generation := g\<rparr>"

definition roll_provenance_generation :: "ProvenanceGeneration \<Rightarrow> AuthorityState \<Rightarrow> AuthorityState" where
  "roll_provenance_generation g a = a\<lparr>a_provenance_generation := g\<rparr>"

definition set_artifact_generation :: "ArtifactGeneration \<Rightarrow> AuthorityState \<Rightarrow> AuthorityState" where
  "set_artifact_generation g a = a\<lparr>a_artifact_generation := g\<rparr>"

definition set_model_generation :: "ModelGeneration \<Rightarrow> AuthorityState \<Rightarrow> AuthorityState" where
  "set_model_generation g a = a\<lparr>a_model_generation := g\<rparr>"

definition set_adapter_generation :: "AdapterGeneration \<Rightarrow> AuthorityState \<Rightarrow> AuthorityState" where
  "set_adapter_generation g a = a\<lparr>a_adapter_generation := g\<rparr>"

definition set_composition_generation :: "CompositionGeneration \<Rightarrow> AuthorityState \<Rightarrow> AuthorityState" where
  "set_composition_generation g a = a\<lparr>a_composition_generation := g\<rparr>"

definition set_policy_generation :: "PolicyGeneration \<Rightarrow> AuthorityState \<Rightarrow> AuthorityState" where
  "set_policy_generation g a = a\<lparr>a_policy_generation := g\<rparr>"

definition set_dependency_generation :: "DependencyGeneration \<Rightarrow> AuthorityState \<Rightarrow> AuthorityState" where
  "set_dependency_generation g a = a\<lparr>a_dependency_generation := g\<rparr>"

section \<open>Fencing\<close>

text \<open>
  The two shapes of test in \<^verbatim>\<open>evaluate_claim\<close>: a plain generation is compared when both sides are
  non-null, an optional one when the claim carries it and the authority has one.  The result is
  whether the claim is stale in that dimension.
\<close>

definition stale :: "'tag ScalarIdentifier \<Rightarrow> 'tag ScalarIdentifier \<Rightarrow> bool" where
  "stale claimed current \<longleftrightarrow> valid claimed \<and> valid current \<and> claimed \<noteq> current"

definition stale_opt :: "'tag ScalarIdentifier option \<Rightarrow> 'tag ScalarIdentifier \<Rightarrow> bool" where
  "stale_opt claimed current \<longleftrightarrow>
     (case claimed of None \<Rightarrow> False | Some c \<Rightarrow> valid current \<and> c \<noteq> current)"

definition boot_check :: "AuthorityState \<Rightarrow> AuthorityClaim \<Rightarrow> FenceVerdict option" where
  "boot_check a claim =
     (if \<not> valid (claim_worker_id claim) then None
      else case boot_of a (claim_worker_id claim) of
          None \<Rightarrow> Some (reject ''WorkerBootId''
            (''worker '' @ to_string (claim_worker_id claim) @ '' not registered''))
        | Some cur \<Rightarrow>
            if cur \<noteq> claim_worker_boot claim
            then Some (reject ''WorkerBootId''
              (''worker '' @ to_string (claim_worker_id claim)
                @ '' boot '' @ to_string (claim_worker_boot claim)
                @ '' stale (current '' @ to_string cur @ '')''))
            else None)"

definition evaluate_claim :: "AuthorityState \<Rightarrow> AuthorityClaim \<Rightarrow> FenceVerdict" where
  "evaluate_claim a claim =
     (if claim_coordinator_epoch claim \<noteq> a_epoch a then
        reject ''CoordinatorEpoch''
          (''claim epoch '' @ dec_string (unat (claim_coordinator_epoch claim))
            @ '' != current epoch '' @ dec_string (unat (a_epoch a)))
      else case boot_check a claim of
        Some v \<Rightarrow> v
      | None \<Rightarrow>
          if stale (claim_attempt_id claim) (a_attempt_id a) then
            reject ''AttemptId''
              (''attempt '' @ to_string (claim_attempt_id claim)
                @ '' stale (current '' @ to_string (a_attempt_id a) @ '')'')
          else if stale (claim_attempt_generation claim) (a_attempt_generation a) then
            reject ''AttemptGeneration'' ''attempt generation stale''
          else if stale (claim_state_generation claim) (a_state_generation a) then
            reject ''StateGeneration'' ''state generation stale''
          else if stale (claim_provenance_generation claim) (a_provenance_generation a) then
            reject ''ProvenanceGeneration'' ''provenance generation stale''
          else if stale_opt (claim_artifact_generation claim) (a_artifact_generation a) then
            reject ''ArtifactGeneration'' ''artifact generation stale''
          else if stale_opt (claim_model_generation claim) (a_model_generation a) then
            reject ''ModelGeneration'' ''model generation stale''
          else if stale_opt (claim_adapter_generation claim) (a_adapter_generation a) then
            reject ''AdapterGeneration'' ''adapter generation stale''
          else if stale_opt (claim_composition_generation claim) (a_composition_generation a) then
            reject ''CompositionGeneration'' ''composition generation stale''
          else if stale_opt (claim_policy_generation claim) (a_policy_generation a) then
            reject ''PolicyGeneration'' ''policy generation stale''
          else if stale_opt (claim_dependency_generation claim) (a_dependency_generation a) then
            reject ''DependencyGeneration'' ''dependency generation stale''
          else \<lparr>v_outcome = ACCEPT, v_dimension = [], v_detail = ''accepted''\<rparr>)"

section \<open>What fencing decides\<close>

text \<open>
  The specification of a verdict: the fenced values in the order the code tests them, each with
  whether the claim disagrees with the authority.  The verdict is the first disagreement.
\<close>

definition boot_stale :: "AuthorityState \<Rightarrow> AuthorityClaim \<Rightarrow> bool" where
  "boot_stale a c \<longleftrightarrow> valid (claim_worker_id c)
     \<and> Mapping.lookup (a_boot a) (claim_worker_id c) \<noteq> Some (claim_worker_boot c)"

definition fence_table :: "AuthorityState \<Rightarrow> AuthorityClaim \<Rightarrow> (string \<times> bool) list" where
  "fence_table a c =
    [(''CoordinatorEpoch'', claim_coordinator_epoch c \<noteq> a_epoch a),
     (''WorkerBootId'', boot_stale a c),
     (''AttemptId'', stale (claim_attempt_id c) (a_attempt_id a)),
     (''AttemptGeneration'', stale (claim_attempt_generation c) (a_attempt_generation a)),
     (''StateGeneration'', stale (claim_state_generation c) (a_state_generation a)),
     (''ProvenanceGeneration'', stale (claim_provenance_generation c) (a_provenance_generation a)),
     (''ArtifactGeneration'', stale_opt (claim_artifact_generation c) (a_artifact_generation a)),
     (''ModelGeneration'', stale_opt (claim_model_generation c) (a_model_generation a)),
     (''AdapterGeneration'', stale_opt (claim_adapter_generation c) (a_adapter_generation a)),
     (''CompositionGeneration'',
       stale_opt (claim_composition_generation c) (a_composition_generation a)),
     (''PolicyGeneration'', stale_opt (claim_policy_generation c) (a_policy_generation a)),
     (''DependencyGeneration'',
       stale_opt (claim_dependency_generation c) (a_dependency_generation a))]"

definition first_violation :: "(string \<times> bool) list \<Rightarrow> string option" where
  "first_violation t = map_option fst (find snd t)"

lemma first_violation_simps [simp]:
  "first_violation [] = None"
  "first_violation ((d, b) # t) = (if b then Some d else first_violation t)"
  by (simp_all add: first_violation_def)

lemma first_violation_None: "first_violation t = None \<longleftrightarrow> list_all (\<lambda>(d, b). \<not> b) t"
  by (induction t) (auto split: if_splits)

lemma boot_check_stale: "boot_check a c = None \<longleftrightarrow> \<not> boot_stale a c"
  by (simp add: boot_check_def boot_stale_def boot_of_def split: option.split)

lemma boot_check_Some: "boot_check a c = Some v \<Longrightarrow> \<not> accepted v \<and> v_dimension v = ''WorkerBootId''"
  by (auto simp: boot_check_def accepted_def reject_def split: if_splits option.splits)

lemma accepted_simps [simp]:
  "\<not> accepted (reject dim detail)" "v_dimension (reject dim detail) = dim"
  "accepted \<lparr>v_outcome = ACCEPT, v_dimension = d, v_detail = t\<rparr>"
  by (simp_all add: accepted_def reject_def)

lemma evaluate_claim_table:
  "(accepted (evaluate_claim a c) \<longleftrightarrow> first_violation (fence_table a c) = None)
   \<and> v_dimension (evaluate_claim a c) =
       (case first_violation (fence_table a c) of None \<Rightarrow> [] | Some d \<Rightarrow> d)"
proof (cases "boot_check a c")
  case None
  then have "\<not> boot_stale a c" by (simp add: boot_check_stale)
  with None show ?thesis unfolding evaluate_claim_def fence_table_def by simp
next
  case (Some v)
  then have "boot_stale a c" using boot_check_stale by (metis option.distinct(1))
  with Some boot_check_Some [OF Some] show ?thesis
    unfolding evaluate_claim_def fence_table_def by simp
qed

lemma accepted_iff: "accepted (evaluate_claim a c) \<longleftrightarrow> list_all (\<lambda>(d, b). \<not> b) (fence_table a c)"
  using evaluate_claim_table first_violation_None by blast

lemma accepted_epoch: "accepted (evaluate_claim a c) \<Longrightarrow> claim_coordinator_epoch c = a_epoch a"
  by (simp add: accepted_iff fence_table_def)

lemma stale_epoch_rejected:
  "claim_coordinator_epoch c \<noteq> a_epoch a \<Longrightarrow>
    \<not> accepted (evaluate_claim a c) \<and> v_dimension (evaluate_claim a c) = ''CoordinatorEpoch''"
  by (simp add: evaluate_claim_def)

section \<open>Histories of authority operations\<close>

datatype AuthorityOp =
    RollEpoch | SetEpoch u64 | RegisterBoot WorkerId WorkerBootId
  | BeginAttempt AttemptId AttemptGeneration
  | RollStateGeneration StateGeneration | RollProvenanceGeneration ProvenanceGeneration
  | SetArtifactGeneration ArtifactGeneration | SetModelGeneration ModelGeneration
  | SetAdapterGeneration AdapterGeneration | SetCompositionGeneration CompositionGeneration
  | SetPolicyGeneration PolicyGeneration | SetDependencyGeneration DependencyGeneration

primrec apply_op :: "AuthorityOp \<Rightarrow> AuthorityState \<Rightarrow> AuthorityState" where
  "apply_op RollEpoch a = snd (roll_epoch a)"
| "apply_op (SetEpoch e) a = set_epoch e a"
| "apply_op (RegisterBoot w b) a = register_boot w b a"
| "apply_op (BeginAttempt i g) a = begin_attempt i g a"
| "apply_op (RollStateGeneration g) a = roll_state_generation g a"
| "apply_op (RollProvenanceGeneration g) a = roll_provenance_generation g a"
| "apply_op (SetArtifactGeneration g) a = set_artifact_generation g a"
| "apply_op (SetModelGeneration g) a = set_model_generation g a"
| "apply_op (SetAdapterGeneration g) a = set_adapter_generation g a"
| "apply_op (SetCompositionGeneration g) a = set_composition_generation g a"
| "apply_op (SetPolicyGeneration g) a = set_policy_generation g a"
| "apply_op (SetDependencyGeneration g) a = set_dependency_generation g a"

definition rolls :: "AuthorityOp list \<Rightarrow> nat" where
  "rolls ops = length (filter ((=) RollEpoch) ops)"

definition is_set_epoch :: "AuthorityOp \<Rightarrow> bool" where
  "is_set_epoch op \<longleftrightarrow> (case op of SetEpoch e \<Rightarrow> True | _ \<Rightarrow> False)"

lemmas authority_ops = set_epoch_def register_boot_def begin_attempt_def
  roll_state_generation_def roll_provenance_generation_def set_artifact_generation_def
  set_model_generation_def set_adapter_generation_def set_composition_generation_def
  set_policy_generation_def set_dependency_generation_def

lemma apply_op_epoch:
  "\<not> is_set_epoch op \<Longrightarrow>
    a_epoch (apply_op op a) = a_epoch a + (if op = RollEpoch then 1 else 0)"
  by (cases op) (simp_all add: authority_ops roll_epoch_def Let_def is_set_epoch_def)

lemma history_epoch:
  "list_all (\<lambda>op. \<not> is_set_epoch op) ops \<Longrightarrow>
    a_epoch (fold apply_op ops a) = a_epoch a + of_nat (rolls ops)"
  by (induction ops arbitrary: a) (auto simp: rolls_def apply_op_epoch)

lemma of_nat_u64_nonzero: "0 < n \<Longrightarrow> n < 2 ^ 64 \<Longrightarrow> (of_nat n :: u64) \<noteq> 0"
  by (metis eq_of_nat_u64_iff less_not_refl unsigned_0)

section \<open>Properties\<close>


text \<open>
  Work of an old coordinator epoch never becomes current again: whatever authority operations
  follow (other than forcing the epoch), once the epoch was rolled at least once and fewer than
  $2^{64}$ times, every claim that was accepted before is rejected as \<^verbatim>\<open>CoordinatorEpoch\<close>.
\<close>

theorem old_epoch_stays_fenced:
  assumes "accepted (evaluate_claim a c)"
    and "list_all (\<lambda>op. \<not> is_set_epoch op) ops" "0 < rolls ops" "rolls ops < 2 ^ 64"
  shows "\<not> accepted (evaluate_claim (fold apply_op ops a) c)
    \<and> v_dimension (evaluate_claim (fold apply_op ops a) c) = ''CoordinatorEpoch''"
proof (rule stale_epoch_rejected)
  show "claim_coordinator_epoch c \<noteq> a_epoch (fold apply_op ops a)"
    using assms of_nat_u64_nonzero by (simp add: history_epoch accepted_epoch)
qed

theorem old_epoch_stays_fenced_witness:
  "v_dimension (evaluate_claim
      (fold apply_op [RegisterBoot (ScalarIdentifier 7) (ScalarIdentifier 9), RollEpoch] initial_authority)
      (empty_claim\<lparr>claim_coordinator_epoch := 1\<rparr>)) = ''CoordinatorEpoch''"
proof -
  have "accepted (evaluate_claim initial_authority (empty_claim\<lparr>claim_coordinator_epoch := 1\<rparr>))"
    by code_simp
  from old_epoch_stays_fenced [OF this,
      of "[RegisterBoot (ScalarIdentifier 7) (ScalarIdentifier 9), RollEpoch]"]
  show ?thesis by (simp add: rolls_def is_set_epoch_def)
qed



text \<open>
  A worker restart, a new attempt or a new generation fences every accepted claim that names
  the old one: after \<^verbatim>\<open>register_boot\<close> with another boot, \<^verbatim>\<open>begin_attempt\<close> with another attempt, or
  a rollover of the state or provenance generation to another non-null value, it is rejected with
  that dimension.
\<close>

theorem rollover_fences_claims:
  assumes "accepted (evaluate_claim a c)"
    and "valid (claim_worker_id c)" "b \<noteq> claim_worker_boot c"
    and "valid (claim_attempt_id c)" "valid i" "i \<noteq> claim_attempt_id c"
    and "valid (claim_state_generation c)" "valid g" "g \<noteq> claim_state_generation c"
    and "valid (claim_provenance_generation c)" "valid p" "p \<noteq> claim_provenance_generation c"
  shows "v_dimension (evaluate_claim (register_boot (claim_worker_id c) b a) c) = ''WorkerBootId''
    \<and> v_dimension (evaluate_claim (begin_attempt i k a) c) = ''AttemptId''
    \<and> v_dimension (evaluate_claim (roll_state_generation g a) c) = ''StateGeneration''
    \<and> v_dimension (evaluate_claim (roll_provenance_generation p a) c) = ''ProvenanceGeneration''"
  using assms unfolding accepted_iff evaluate_claim_table [THEN conjunct2]
  by (auto simp: fence_table_def boot_stale_def stale_def authority_ops lookup_update)

definition sample_claim :: AuthorityClaim where
  "sample_claim = empty_claim\<lparr>claim_coordinator_epoch := 1, claim_worker_id := ScalarIdentifier 7,
     claim_worker_boot := ScalarIdentifier 9, claim_attempt_id := ScalarIdentifier 3,
     claim_state_generation := ScalarIdentifier 4, claim_provenance_generation := ScalarIdentifier 5\<rparr>"

definition sample_authority :: AuthorityState where
  "sample_authority = register_boot (ScalarIdentifier 7) (ScalarIdentifier 9) initial_authority"

theorem rollover_fences_claims_witness:
  "v_dimension (evaluate_claim (register_boot (ScalarIdentifier 7) (ScalarIdentifier 10)
      sample_authority) sample_claim) = ''WorkerBootId''"
proof -
  have a: "accepted (evaluate_claim sample_authority sample_claim)" by code_simp
  show ?thesis
    using rollover_fences_claims [OF a, where b = "ScalarIdentifier 10"
        and i = "ScalarIdentifier 4" and g = "ScalarIdentifier 5" and p = "ScalarIdentifier 6"]
    by (simp add: sample_claim_def empty_claim_def)
qed

end
