(* ===== verification/Compat.thy ===== *)
theory Compat
  imports Provenance_Record
begin

text \<open>
  \<^verbatim>\<open>compat.hpp\<close>: may a recorded state be reused in a requested environment?  The theory proves
  when the answer is ELIGIBLE, the precedence of the other answers, and that the reported
  dimensions are exactly the failing ones.
\<close>

section \<open>Requests and decisions\<close>

record ReuseRequest =
  q_model_id :: ModelId
  q_model_generation :: ModelGeneration
  q_model_revision :: string
  q_tokenizer :: string
  q_adapter_id :: AdapterId
  q_adapter_generation :: AdapterGeneration
  q_adapter_revision :: string
  q_composition_id :: CompositionId
  q_composition_generation :: CompositionGeneration
  q_composition_fingerprint :: string
  q_runtime_id :: RuntimeId
  q_runtime_generation :: RuntimeGeneration
  q_backend_id :: BackendId
  q_toolchain_id :: ToolchainId
  q_architecture :: string
  q_compute_capability :: string
  q_abi :: string
  q_dtype :: string
  q_layout :: string
  q_shape :: string
  q_policy_generation :: PolicyGeneration
  q_artifact_generation :: ArtifactGeneration
  q_dependency_generation :: DependencyGeneration

definition empty_request :: ReuseRequest where
  "empty_request = \<lparr>q_model_id = null_id, q_model_generation = null_id, q_model_revision = [],
     q_tokenizer = [], q_adapter_id = null_id, q_adapter_generation = null_id,
     q_adapter_revision = [], q_composition_id = null_id, q_composition_generation = null_id,
     q_composition_fingerprint = [], q_runtime_id = null_id, q_runtime_generation = null_id,
     q_backend_id = null_id, q_toolchain_id = null_id, q_architecture = [],
     q_compute_capability = [], q_abi = [], q_dtype = [], q_layout = [], q_shape = [],
     q_policy_generation = null_id, q_artifact_generation = null_id,
     q_dependency_generation = null_id\<rparr>"

record ReuseDecision =
  d_eligibility :: ReuseEligibility
  d_failed_dimensions :: "CompatibilityDimension list"
  d_reasons :: "string list"

definition unknown_decision :: ReuseDecision where
  "unknown_decision = \<lparr>d_eligibility = RE_UNKNOWN, d_failed_dimensions = [], d_reasons = []\<rparr>"

fun join_reasons :: "string list \<Rightarrow> string" where
  "join_reasons [] = []"
| "join_reasons [r] = r"
| "join_reasons (r # rs) = r @ ''; '' @ join_reasons rs"

definition summary :: "ReuseDecision \<Rightarrow> string" where
  "summary d = name_of_ReuseEligibility (d_eligibility d)
     @ (if d_reasons d \<noteq> [] then '' ('' @ join_reasons (d_reasons d) @ '')'' else [])"

section \<open>evaluate_reuse\<close>

text \<open>The variables that the lambda \<^verbatim>\<open>dim_check\<close> captures, and one call of it.\<close>

record DimState =
  any_mismatch :: bool
  any_incomplete :: bool
  mismatch_dims :: "CompatibilityDimension list"
  incomplete_dims :: "CompatibilityDimension list"
  dim_reasons :: "string list"

record DimCall =
  call_dim :: CompatibilityDimension
  call_req_set :: bool
  call_rec_set :: bool
  call_match :: bool
  call_what :: string

definition dim_check :: "DimCall \<Rightarrow> DimState \<Rightarrow> DimState" where
  "dim_check c st =
     (if \<not> call_req_set c then st
      else if \<not> call_rec_set c then
        st\<lparr>any_incomplete := True, incomplete_dims := incomplete_dims st @ [call_dim c],
           dim_reasons := dim_reasons st @ [call_what c @ '' required by request but absent in provenance'']\<rparr>
      else if \<not> call_match c then
        st\<lparr>any_mismatch := True, mismatch_dims := mismatch_dims st @ [call_dim c],
           dim_reasons := dim_reasons st @ [call_what c @ '' incompatible with requested environment'']\<rparr>
      else st)"

definition id_call :: "CompatibilityDimension \<Rightarrow> 'tag ScalarIdentifier \<Rightarrow> 'tag ScalarIdentifier \<Rightarrow>
    string \<Rightarrow> DimCall" where
  "id_call d wanted recorded w = \<lparr>call_dim = d, call_req_set = valid wanted, call_rec_set = valid recorded,
     call_match = (wanted = recorded), call_what = w\<rparr>"

definition str_call :: "CompatibilityDimension \<Rightarrow> string \<Rightarrow> string \<Rightarrow> string \<Rightarrow> DimCall" where
  "str_call d wanted recorded w = \<lparr>call_dim = d, call_req_set = (wanted \<noteq> []), call_rec_set = (recorded \<noteq> []),
     call_match = (wanted = recorded), call_what = w\<rparr>"

definition dim_calls :: "RecordData \<Rightarrow> ReuseRequest \<Rightarrow> DimCall list" where
  "dim_calls r q =
    [id_call CD_ModelIdentity (q_model_id q) (model_id r) ''model identity'',
     str_call CD_ModelRevision (q_model_revision q) (model_revision r) ''model revision'',
     str_call CD_Tokenizer (q_tokenizer q) (tokenizer r) ''tokenizer/vocabulary'',
     id_call CD_AdapterIdentity (q_adapter_id q) (adapter_id r) ''adapter identity'',
     str_call CD_AdapterRevision (q_adapter_revision q) (adapter_revision r) ''adapter revision'',
     str_call CD_AdapterComposition (q_composition_fingerprint q) (composition_fingerprint r)
       ''adapter composition'',
     id_call CD_Backend (q_backend_id q) (backend_id r) ''backend'',
     id_call CD_Runtime (q_runtime_id q) (runtime_id r) ''runtime'',
     id_call CD_Toolchain (q_toolchain_id q) (toolchain_id r) ''toolchain'',
     str_call CD_Architecture (q_architecture q) (architecture r) ''architecture'',
     str_call CD_ComputeCapability (q_compute_capability q) (compute_capability r)
       ''compute capability'',
     str_call CD_ABI (q_abi q) (abi r) ''ABI'',
     str_call CD_Dtype (q_dtype q) (dtype r) ''dtype'',
     str_call CD_Layout (q_layout q) (layout r) ''layout'',
     str_call CD_TensorGeometry (q_shape q) (shape r) ''tensor geometry'',
     id_call CD_ModelGen (q_model_generation q) (model_generation r) ''model generation'',
     id_call CD_AdapterGen (q_adapter_generation q) (adapter_generation r) ''adapter generation'',
     id_call CD_CompositionGen (q_composition_generation q) (composition_generation r)
       ''composition generation'',
     id_call CD_RuntimeGen (q_runtime_generation q) (runtime_generation r) ''runtime generation'',
     id_call CD_PolicyGen (q_policy_generation q) (policy_generation r) ''policy generation'',
     id_call CD_ArtifactGen (q_artifact_generation q) (artifact_generation r)
       ''artifact generation'']"

definition initial_dims :: DimState where
  "initial_dims = \<lparr>any_mismatch = False, any_incomplete = False, mismatch_dims = [],
     incomplete_dims = [], dim_reasons = []\<rparr>"

definition evaluate_reuse :: "RecordData \<Rightarrow> ReuseRequest \<Rightarrow> ReuseDecision" where
  "evaluate_reuse r q =
     (let st = fold dim_check (dim_calls r q) initial_dims
      in if validity r = VS_INVALIDATED then
           \<lparr>d_eligibility = RE_INVALIDATED, d_failed_dimensions = [CD_ProvenanceIntegrity],
            d_reasons = if dim_reasons st = [] then [''subject has been invalidated''] else dim_reasons st\<rparr>
         else if validity r = VS_STALE then
           \<lparr>d_eligibility = RE_STALE, d_failed_dimensions = [],
            d_reasons = if dim_reasons st = [] then [''subject is stale''] else dim_reasons st\<rparr>
         else if any_mismatch st then
           \<lparr>d_eligibility = RE_INCOMPATIBLE, d_failed_dimensions = mismatch_dims st,
            d_reasons = dim_reasons st\<rparr>
         else if any_incomplete st then
           \<lparr>d_eligibility = RE_INCOMPLETE_PROVENANCE, d_failed_dimensions = incomplete_dims st,
            d_reasons = dim_reasons st\<rparr>
         else if validity r = VS_UNKNOWN then
           \<lparr>d_eligibility = RE_UNKNOWN, d_failed_dimensions = [], d_reasons = dim_reasons st\<rparr>
         else \<lparr>d_eligibility = RE_ELIGIBLE, d_failed_dimensions = [], d_reasons = dim_reasons st\<rparr>)"

section \<open>The checks, declaratively\<close>

definition missing_call :: "DimCall \<Rightarrow> bool" where
  "missing_call c \<longleftrightarrow> call_req_set c \<and> \<not> call_rec_set c"

definition mismatch_call :: "DimCall \<Rightarrow> bool" where
  "mismatch_call c \<longleftrightarrow> call_req_set c \<and> call_rec_set c \<and> \<not> call_match c"

definition call_reason :: "DimCall \<Rightarrow> string" where
  "call_reason c = call_what c @ (if call_rec_set c then '' incompatible with requested environment''
     else '' required by request but absent in provenance'')"

lemma dim_checks:
  "fold dim_check cs st = \<lparr>any_mismatch = (any_mismatch st \<or> filter mismatch_call cs \<noteq> []),
     any_incomplete = (any_incomplete st \<or> filter missing_call cs \<noteq> []),
     mismatch_dims = mismatch_dims st @ map call_dim (filter mismatch_call cs),
     incomplete_dims = incomplete_dims st @ map call_dim (filter missing_call cs),
     dim_reasons = dim_reasons st
       @ map call_reason (filter (\<lambda>c. missing_call c \<or> mismatch_call c) cs)\<rparr>"
  by (induction cs arbitrary: st)
    (auto simp: dim_check_def missing_call_def mismatch_call_def call_reason_def)

text \<open>A request field is met when it is unset, or equals what was recorded.\<close>

definition met_id :: "'tag ScalarIdentifier \<Rightarrow> 'tag ScalarIdentifier \<Rightarrow> bool" where
  "met_id wanted recorded \<longleftrightarrow> (valid wanted \<longrightarrow> recorded = wanted)"

definition met_str :: "string \<Rightarrow> string \<Rightarrow> bool" where
  "met_str wanted recorded \<longleftrightarrow> (wanted \<noteq> [] \<longrightarrow> recorded = wanted)"

definition environment_met :: "RecordData \<Rightarrow> ReuseRequest \<Rightarrow> bool" where
  "environment_met r q \<longleftrightarrow>
     met_id (q_model_id q) (model_id r) \<and> met_str (q_model_revision q) (model_revision r)
     \<and> met_str (q_tokenizer q) (tokenizer r) \<and> met_id (q_adapter_id q) (adapter_id r)
     \<and> met_str (q_adapter_revision q) (adapter_revision r)
     \<and> met_str (q_composition_fingerprint q) (composition_fingerprint r)
     \<and> met_id (q_backend_id q) (backend_id r) \<and> met_id (q_runtime_id q) (runtime_id r)
     \<and> met_id (q_toolchain_id q) (toolchain_id r) \<and> met_str (q_architecture q) (architecture r)
     \<and> met_str (q_compute_capability q) (compute_capability r) \<and> met_str (q_abi q) (abi r)
     \<and> met_str (q_dtype q) (dtype r) \<and> met_str (q_layout q) (layout r)
     \<and> met_str (q_shape q) (shape r) \<and> met_id (q_model_generation q) (model_generation r)
     \<and> met_id (q_adapter_generation q) (adapter_generation r)
     \<and> met_id (q_composition_generation q) (composition_generation r)
     \<and> met_id (q_runtime_generation q) (runtime_generation r)
     \<and> met_id (q_policy_generation q) (policy_generation r)
     \<and> met_id (q_artifact_generation q) (artifact_generation r)"

lemma id_call_fails:
  "missing_call (id_call d q r w) \<or> mismatch_call (id_call d q r w) \<longleftrightarrow> \<not> met_id q r"
  by (auto simp: missing_call_def mismatch_call_def id_call_def met_id_def)

lemma str_call_fails:
  "missing_call (str_call d q r w) \<or> mismatch_call (str_call d q r w) \<longleftrightarrow> \<not> met_str q r"
  by (auto simp: missing_call_def mismatch_call_def str_call_def met_str_def)

lemma all_checks_pass:
  "filter (\<lambda>c. missing_call c \<or> mismatch_call c) (dim_calls r q) = [] \<longleftrightarrow> environment_met r q"
  unfolding dim_calls_def environment_met_def filter_empty_conv list.set ball_simps
    id_call_fails str_call_fails not_not by blast

lemma no_failure_iff:
  "filter missing_call cs = [] \<and> filter mismatch_call cs = []
    \<longleftrightarrow> filter (\<lambda>c. missing_call c \<or> mismatch_call c) cs = []"
  by (auto simp: filter_empty_conv)

lemma evaluate_reuse_cases:
  "evaluate_reuse r q =
    (let wrong = filter mismatch_call (dim_calls r q); absent = filter missing_call (dim_calls r q);
         why = map call_reason (filter (\<lambda>c. missing_call c \<or> mismatch_call c) (dim_calls r q))
     in case validity r of
       VS_INVALIDATED \<Rightarrow> \<lparr>d_eligibility = RE_INVALIDATED, d_failed_dimensions = [CD_ProvenanceIntegrity],
         d_reasons = if why = [] then [''subject has been invalidated''] else why\<rparr>
     | VS_STALE \<Rightarrow> \<lparr>d_eligibility = RE_STALE, d_failed_dimensions = [],
         d_reasons = if why = [] then [''subject is stale''] else why\<rparr>
     | v \<Rightarrow>
         if wrong \<noteq> [] then \<lparr>d_eligibility = RE_INCOMPATIBLE,
           d_failed_dimensions = map call_dim wrong, d_reasons = why\<rparr>
         else if absent \<noteq> [] then \<lparr>d_eligibility = RE_INCOMPLETE_PROVENANCE,
           d_failed_dimensions = map call_dim absent, d_reasons = why\<rparr>
         else \<lparr>d_eligibility = (if v = VS_UNKNOWN then RE_UNKNOWN else RE_ELIGIBLE),
           d_failed_dimensions = [], d_reasons = []\<rparr>)"
  using no_failure_iff [of "dim_calls r q"]
  by (cases "validity r"; simp add: evaluate_reuse_def dim_checks initial_dims_def Let_def; blast)

section \<open>Properties\<close>

text \<open>
  Reuse is ELIGIBLE exactly when the record is VALID and every field the request sets (of the
  twenty-one compared ones) equals the recorded one; the decision then reports nothing failed.
\<close>

theorem eligible_iff:
  "(d_eligibility (evaluate_reuse r q) = RE_ELIGIBLE \<longleftrightarrow> validity r = VS_VALID \<and> environment_met r q)
   \<and> (validity r = VS_VALID \<and> environment_met r q \<longleftrightarrow>
       evaluate_reuse r q = \<lparr>d_eligibility = RE_ELIGIBLE, d_failed_dimensions = [], d_reasons = []\<rparr>)"
  unfolding evaluate_reuse_cases Let_def all_checks_pass [symmetric]
  using no_failure_iff [of "dim_calls r q"] by (cases "validity r") auto

text \<open>
  The answers have a fixed precedence.  An invalidated record is INVALIDATED and a stale one
  STALE whatever is requested; otherwise any set field that differs from a recorded value makes
  it INCOMPATIBLE, and only then any set field without a recorded value INCOMPLETE_PROVENANCE;
  the failed dimensions are exactly those of that kind, in the order of the checks, with one
  reason for every field that is not met.
\<close>

theorem decision_precedence:
  "(let wrong = filter mismatch_call (dim_calls r q); absent = filter missing_call (dim_calls r q);
        d = evaluate_reuse r q
    in (d_eligibility d, d_failed_dimensions d) =
        (if validity r = VS_INVALIDATED then (RE_INVALIDATED, [CD_ProvenanceIntegrity])
         else if validity r = VS_STALE then (RE_STALE, [])
         else if wrong \<noteq> [] then (RE_INCOMPATIBLE, map call_dim wrong)
         else if absent \<noteq> [] then (RE_INCOMPLETE_PROVENANCE, map call_dim absent)
         else if validity r = VS_UNKNOWN then (RE_UNKNOWN, [])
         else (RE_ELIGIBLE, []))
      \<and> length (d_reasons d) =
          max (length wrong + length absent)
            (if validity r = VS_INVALIDATED \<or> validity r = VS_STALE then 1 else 0))"
proof -
  have len: "length (filter (\<lambda>c. missing_call c \<or> mismatch_call c) cs)
      = length (filter mismatch_call cs) + length (filter missing_call cs)" for cs
    by (induction cs) (auto simp: missing_call_def mismatch_call_def)
  define wrong where "wrong = filter mismatch_call (dim_calls r q)"
  define absent where "absent = filter missing_call (dim_calls r q)"
  define failing where "failing = filter (\<lambda>c. missing_call c \<or> mismatch_call c) (dim_calls r q)"
  have "length failing = length wrong + length absent"
    by (simp add: failing_def wrong_def absent_def len)
  then show ?thesis
    unfolding evaluate_reuse_cases Let_def
      wrong_def [symmetric] absent_def [symmetric] failing_def [symmetric]
    by (cases "validity r"; cases wrong; cases absent; cases failing; simp)
qed

text \<open>
  What is not compared.  The request's dependency generation and composition identity, and the
  record's dependencies and declared requirements, never influence the decision.
\<close>

theorem decision_ignores:
  "evaluate_reuse (r\<lparr>dependencies := ds, requirements := rs\<rparr>)
      (q\<lparr>q_dependency_generation := g, q_composition_id := i\<rparr>) = evaluate_reuse r q"
proof -
  have "dim_calls (r\<lparr>dependencies := ds, requirements := rs\<rparr>)
      (q\<lparr>q_dependency_generation := g, q_composition_id := i\<rparr>) = dim_calls r q"
    by (simp add: dim_calls_def)
  moreover have "validity (r\<lparr>dependencies := ds, requirements := rs\<rparr>) = validity r" by simp
  ultimately show ?thesis unfolding evaluate_reuse_def Let_def by simp
qed

end
