(* ===== verification/Invalidate.thy ===== *)
theory Invalidate
  imports Derivation_Graph
begin

text \<open>
  \<^verbatim>\<open>invalidate.hpp\<close>: breadth-first propagation of invalidations through the derivation graph.
  The theory proves that the affected set is exactly the roots and their descendants, and that
  the causal path of every affected subject runs along arcs of the graph from its root to it.
\<close>

section \<open>Inputs and results\<close>

datatype InvalidatingSubject =
  InvalidatingSubject (inv_subject: StateId) (inv_reason: InvalidationReason) (inv_detail: string)

text \<open>\<^verbatim>\<open>reason\<close> of a chain has no initialiser: \<open>None\<close> is the indeterminate value it keeps when the
  target was not affected.\<close>

record InvalidationChain =
  chain_root :: StateId
  chain_reason :: "InvalidationReason option"
  chain_detail :: string
  chain_path :: "StateId list"

record InvalidationResult =
  affected :: "StateId list"
  predecessor :: "(StateId, StateId) mapping"
  root_of :: "(StateId, StateId) mapping"
  root_reason :: "(StateId, InvalidationReason) mapping"
  root_detail :: "(StateId, string) mapping"

section \<open>Queries on a result\<close>

text \<open>\<^verbatim>\<open>std::binary_search\<close> by bisection: \<open>lo\<close> and \<open>hi\<close> bound the half-open range left to search.\<close>

function bsearch :: "('a::linorder) list \<Rightarrow> 'a \<Rightarrow> nat \<Rightarrow> nat \<Rightarrow> bool" where
  "bsearch xs x lo hi =
     (if hi \<le> lo then lo < length xs \<and> \<not> x < xs ! lo
      else let mid = lo + (hi - lo) div 2
           in if xs ! mid < x then bsearch xs x (Suc mid) hi else bsearch xs x lo mid)"
  by pat_completeness auto
termination
  by (relation "measure (\<lambda>(xs, x, lo, hi). hi - lo)") (auto simp: Let_def)

declare bsearch.simps [simp del]

definition affected_contains :: "InvalidationResult \<Rightarrow> StateId \<Rightarrow> bool" where
  "affected_contains res i = bsearch (affected res) i 0 (length (affected res))"

definition affected_size :: "InvalidationResult \<Rightarrow> nat" where
  "affected_size res = length (affected res)"

text \<open>\<open>path_loop\<close> is the loop of \<^verbatim>\<open>path_to\<close>; \<open>limit\<close> is \<^verbatim>\<open>affected.size() + 1\<close>, so the guard bounds it.\<close>

function path_loop :: "(StateId, StateId) mapping \<Rightarrow> nat \<Rightarrow> nat \<Rightarrow> StateId \<Rightarrow> StateId list \<Rightarrow> StateId list" where
  "path_loop pred limit guard cur path =
     (case Mapping.lookup pred cur of
        None \<Rightarrow> path @ [cur]
      | Some p \<Rightarrow>
          if p = cur then path @ [cur]
          else if limit < guard + 1 then path @ [cur]
          else path_loop pred limit (guard + 1) p (path @ [cur]))"
  by pat_completeness auto
termination
  by (relation "measure (\<lambda>(pred, limit, guard, cur, path). Suc limit - guard)") auto

declare path_loop.simps [simp del]

definition path_to :: "InvalidationResult \<Rightarrow> StateId \<Rightarrow> StateId list" where
  "path_to res target = rev (path_loop (predecessor res) (length (affected res) + 1) 0 target [])"

definition chain_for :: "InvalidationResult \<Rightarrow> StateId \<Rightarrow> InvalidationChain" where
  "chain_for res target =
     (case Mapping.lookup (root_of res) target of
        None \<Rightarrow> \<lparr>chain_root = target, chain_reason = None, chain_detail = [], chain_path = []\<rparr>
      | Some r \<Rightarrow>
          \<lparr>chain_root = r,
           chain_reason = Some (Mapping.lookup_default IR_Unknown (root_reason res) r),
           chain_detail = Mapping.lookup_default [] (root_detail res) r,
           chain_path = path_to res target\<rparr>)"

section \<open>propagate_invalidation\<close>

text \<open>Collecting the roots: the first reason and detail given for a subject win.\<close>

fun collect_roots :: "InvalidatingSubject list \<Rightarrow>
    (StateId, InvalidationReason) mapping \<times> (StateId, string) mapping \<Rightarrow>
    (StateId, InvalidationReason) mapping \<times> (StateId, string) mapping" where
  "collect_roots [] (reasons, details) = (reasons, details)"
| "collect_roots (r # rs) (reasons, details) =
     (if inv_subject r \<in> Mapping.keys reasons then collect_roots rs (reasons, details)
      else collect_roots rs (Mapping.update (inv_subject r) (inv_reason r) reasons,
                             Mapping.update (inv_subject r) (inv_detail r) details))"

text \<open>
  The search state: predecessor and root maps and the queue with its \<^verbatim>\<open>head\<close> index.
  \<open>visit_children\<close> is the inner loop over the children of the subject taken from the queue.
\<close>

record BfsState =
  b_pred :: "(StateId, StateId) mapping"
  b_root :: "(StateId, StateId) mapping"
  b_queue :: "StateId list"
  b_head :: nat

fun seed_roots :: "StateId list \<Rightarrow> BfsState \<Rightarrow> BfsState" where
  "seed_roots [] st = st"
| "seed_roots (i # ids) st =
     seed_roots ids (st\<lparr>b_pred := Mapping.update i i (b_pred st),
                        b_root := Mapping.update i i (b_root st),
                        b_queue := b_queue st @ [i]\<rparr>)"

fun visit_children :: "StateId \<Rightarrow> StateId \<Rightarrow> StateId list \<Rightarrow> BfsState \<Rightarrow> BfsState" where
  "visit_children cur cur_root [] st = st"
| "visit_children cur cur_root (child # chs) st =
     (if child \<in> Mapping.keys (b_pred st) then visit_children cur cur_root chs st
      else visit_children cur cur_root chs
             (st\<lparr>b_pred := Mapping.update child cur (b_pred st),
                 b_root := Mapping.update child cur_root (b_root st),
                 b_queue := b_queue st @ [child]\<rparr>))"

text \<open>
  The main loop.  Nothing in its text bounds the queue, so it is partial; the theory proves that
  it returns.  \<^verbatim>\<open>root_of[cur]\<close> default-constructs (and stores) a missing entry.
\<close>

definition bfs_step :: "ProvenanceGraph \<Rightarrow> BfsState \<Rightarrow> BfsState" where
  "bfs_step g st =
     (let cur = b_queue st ! b_head st;
          st = st\<lparr>b_head := Suc (b_head st)\<rparr>;
          cur_root = Mapping.lookup_default null_id (b_root st) cur;
          st = st\<lparr>b_root := Mapping.update cur cur_root (b_root st)\<rparr>
      in visit_children cur cur_root (children g cur) st)"

partial_function (option) bfs_loop :: "ProvenanceGraph \<Rightarrow> BfsState \<Rightarrow> BfsState option" where
  "bfs_loop g st =
     (if b_head st < length (b_queue st) then bfs_loop g (bfs_step g st) else Some st)"

declare bfs_loop.simps [code]

definition initial_bfs :: BfsState where
  "initial_bfs = \<lparr>b_pred = Mapping.empty, b_root = Mapping.empty, b_queue = [], b_head = 0\<rparr>"

definition propagate_invalidation ::
  "ProvenanceGraph \<Rightarrow> InvalidatingSubject list \<Rightarrow> InvalidationResult option" where
  "propagate_invalidation g subjects =
     (let (reasons, details) = collect_roots subjects (Mapping.empty, Mapping.empty);
          ids = sorted_list_of_set (Mapping.keys reasons)
      in map_option (\<lambda>st. \<lparr>affected = sort (b_queue st), predecessor = b_pred st,
           root_of = b_root st, root_reason = reasons, root_detail = details\<rparr>)
         (bfs_loop g (seed_roots ids initial_bfs)))"

section \<open>Collecting and seeding\<close>

lemma collect_roots_result:
  assumes "Mapping.keys reasons = Mapping.keys details"
  shows "Mapping.keys (fst (collect_roots rs (reasons, details)))
      = Mapping.keys reasons \<union> inv_subject ` set rs
    \<and> (\<forall>s. Mapping.lookup (fst (collect_roots rs (reasons, details))) s =
        (case Mapping.lookup reasons s of Some x \<Rightarrow> Some x
         | None \<Rightarrow> map_of (map (\<lambda>r. (inv_subject r, inv_reason r)) rs) s))
    \<and> (\<forall>s. Mapping.lookup (snd (collect_roots rs (reasons, details))) s =
        (case Mapping.lookup details s of Some x \<Rightarrow> Some x
         | None \<Rightarrow> map_of (map (\<lambda>r. (inv_subject r, inv_detail r)) rs) s))"
  using assms
proof (induction rs arbitrary: reasons details)
  case (Cons r rs)
  show ?case
  proof (cases "inv_subject r \<in> Mapping.keys reasons")
    case True
    then obtain a b where "Mapping.lookup reasons (inv_subject r) = Some a"
      "Mapping.lookup details (inv_subject r) = Some b"
      using Cons.prems by (metis lookup_Some_iff)
    with True Cons.IH [OF Cons.prems] show ?thesis by (auto split: option.split)
  next
    case False
    then have none: "Mapping.lookup reasons (inv_subject r) = None"
      "Mapping.lookup details (inv_subject r) = None"
      using Cons.prems by (metis lookup_None_iff)+
    have "Mapping.keys (Mapping.update (inv_subject r) (inv_reason r) reasons)
        = Mapping.keys (Mapping.update (inv_subject r) (inv_detail r) details)"
      using Cons.prems by simp
    from Cons.IH [OF this] False none show ?thesis
      by (auto simp: lookup_update' split: option.splits)
  qed
qed (auto split: option.split)

lemma seed_roots_result:
  "b_queue (seed_roots ids st) = b_queue st @ ids \<and> b_head (seed_roots ids st) = b_head st
    \<and> (\<forall>x. Mapping.lookup (b_pred (seed_roots ids st)) x =
        (if x \<in> set ids then Some x else Mapping.lookup (b_pred st) x))
    \<and> (\<forall>x. Mapping.lookup (b_root (seed_roots ids st)) x =
        (if x \<in> set ids then Some x else Mapping.lookup (b_root st) x))"
  by (induction ids arbitrary: st) (auto simp: lookup_update')

lemma visit_children_result:
  assumes "distinct chs"
  defines "new st \<equiv> filter (\<lambda>c. Mapping.lookup (b_pred st) c = None) chs"
  shows "b_queue (visit_children cur r chs st) = b_queue st @ new st
    \<and> b_head (visit_children cur r chs st) = b_head st
    \<and> (\<forall>x. Mapping.lookup (b_pred (visit_children cur r chs st)) x =
        (if x \<in> set (new st) then Some cur else Mapping.lookup (b_pred st) x))
    \<and> (\<forall>x. Mapping.lookup (b_root (visit_children cur r chs st)) x =
        (if x \<in> set (new st) then Some r else Mapping.lookup (b_root st) x))"
  using assms(1) unfolding new_def
proof (induction chs arbitrary: st)
  case (Cons c chs)
  show ?case
  proof (cases "Mapping.lookup (b_pred st) c")
    case None
    let ?st = "st\<lparr>b_pred := Mapping.update c cur (b_pred st),
      b_root := Mapping.update c r (b_root st), b_queue := b_queue st @ [c]\<rparr>"
    have same: "filter (\<lambda>x. Mapping.lookup (b_pred ?st) x = None) chs
        = filter (\<lambda>x. Mapping.lookup (b_pred st) x = None) chs"
      using Cons.prems by (intro filter_cong) (auto simp: lookup_update')
    have eq: "visit_children cur r (c # chs) st = visit_children cur r chs ?st"
      using None lookup_in_keys [of "b_pred st"] lookup_None_iff [of "b_pred st" c] by simp
    have "distinct chs" using Cons.prems by simp
    from Cons.IH [OF this, of ?st, unfolded same] None show ?thesis
      unfolding eq by (auto simp: lookup_update')
  next
    case (Some p)
    then have "visit_children cur r (c # chs) st = visit_children cur r chs st"
      by (simp add: lookup_in_keys)
    with Some Cons show ?thesis by simp
  qed
qed simp

section \<open>The invariant of the search\<close>

text \<open>
  \<open>explained g S pred root q k\<close>: the subject at position \<open>k\<close> of the queue is one of the roots \<open>S\<close>,
  or has an arc from its predecessor, which stands earlier in the queue and has the same root.
\<close>

definition explained :: "ProvenanceGraph \<Rightarrow> StateId set \<Rightarrow> (StateId, StateId) mapping \<Rightarrow>
    (StateId, StateId) mapping \<Rightarrow> StateId list \<Rightarrow> nat \<Rightarrow> bool" where
  "explained g S pred root q k \<longleftrightarrow>
     (q ! k \<in> S \<and> Mapping.lookup pred (q ! k) = Some (q ! k) \<and> Mapping.lookup root (q ! k) = Some (q ! k))
     \<or> (\<exists>j<k. Mapping.lookup pred (q ! k) = Some (q ! j) \<and> (q ! j, q ! k) \<in> edges g
          \<and> Mapping.lookup root (q ! k) = Mapping.lookup root (q ! j))"

definition bfs_inv :: "ProvenanceGraph \<Rightarrow> StateId set \<Rightarrow> BfsState \<Rightarrow> bool" where
  "bfs_inv g S st \<longleftrightarrow>
     distinct (b_queue st) \<and> b_head st \<le> length (b_queue st)
     \<and> S \<subseteq> set (b_queue st) \<and> set (b_queue st) \<subseteq> (edges g)\<^sup>* `` S
     \<and> Mapping.keys (b_pred st) = set (b_queue st) \<and> Mapping.keys (b_root st) = set (b_queue st)
     \<and> (\<forall>k<b_head st. edges g `` {b_queue st ! k} \<subseteq> set (b_queue st))
     \<and> (\<forall>k<length (b_queue st). explained g S (b_pred st) (b_root st) (b_queue st) k)"

lemma explained_extend:
  assumes "explained g S pred root q k" "k < length q"
    and "\<And>x. x \<in> set q \<Longrightarrow> Mapping.lookup pred' x = Mapping.lookup pred x"
    and "\<And>x. x \<in> set q \<Longrightarrow> Mapping.lookup root' x = Mapping.lookup root x"
  shows "explained g S pred' root' (q @ new) k"
  using assms unfolding explained_def by (auto simp: nth_append)

text \<open>What one step adds: the children of the current node that have no predecessor yet.\<close>

lemma bfs_step_result:
  assumes inv: "bfs_inv g S st" and more: "b_head st < length (b_queue st)"
  obtains new r where "b_queue (bfs_step g st) = b_queue st @ new" "b_head (bfs_step g st) = Suc (b_head st)"
    "\<forall>x. Mapping.lookup (b_pred (bfs_step g st)) x =
      (if x \<in> set new then Some (b_queue st ! b_head st) else Mapping.lookup (b_pred st) x)"
    "\<forall>x. Mapping.lookup (b_root (bfs_step g st)) x =
      (if x \<in> set new then Some r else Mapping.lookup (b_root st) x)"
    "Mapping.lookup (b_root st) (b_queue st ! b_head st) = Some r"
    "set new = edges g `` {b_queue st ! b_head st} - set (b_queue st)" "distinct new"
proof -
  let ?cur = "b_queue st ! b_head st"
  have cur: "?cur \<in> set (b_queue st)" using more by simp
  obtain r where r: "Mapping.lookup (b_root st) ?cur = Some r"
    using inv cur lookup_Some_iff [of ?cur "b_root st"] by (auto simp: bfs_inv_def)
  define st1 where "st1 = st\<lparr>b_head := Suc (b_head st),
    b_root := Mapping.update ?cur r (b_root st)\<rparr>"
  define new where "new = filter (\<lambda>c. Mapping.lookup (b_pred st) c = None) (children g ?cur)"
  have step: "bfs_step g st = visit_children ?cur r (children g ?cur) st1"
    using r by (simp add: bfs_step_def st1_def lookup_default_def Let_def)
  have new1: "filter (\<lambda>c. Mapping.lookup (b_pred st1) c = None) (children g ?cur) = new"
    by (simp add: new_def st1_def)
  note result = visit_children_result [OF children_sorted(2) [of g ?cur], of ?cur r st1, unfolded new1]
  have q: "b_queue (bfs_step g st) = b_queue st @ new"
    and h: "b_head (bfs_step g st) = Suc (b_head st)"
    using result unfolding step by (simp_all add: st1_def)
  have lp: "Mapping.lookup (b_pred (bfs_step g st)) x =
      (if x \<in> set new then Some ?cur else Mapping.lookup (b_pred st) x)"
    and lr: "Mapping.lookup (b_root (bfs_step g st)) x =
      (if x \<in> set new then Some r else Mapping.lookup (b_root st) x)" for x
    using result r unfolding step by (auto simp: st1_def lookup_update')
  have keys: "Mapping.keys (b_pred st) = set (b_queue st)" "Mapping.keys (b_root st) = set (b_queue st)"
    using inv by (auto simp: bfs_inv_def)
  have fresh: "set new = edges g `` {?cur} - set (b_queue st)"
    by (auto simp: new_def children_edges lookup_None_iff keys)
  have dnew: "distinct new" by (simp add: new_def)
  show thesis by (rule that [OF q h _ _ r fresh dnew]) (simp_all add: lp lr)
qed

lemma bfs_step_inv:
  assumes inv: "bfs_inv g S st" and more: "b_head st < length (b_queue st)"
  shows "bfs_inv g S (bfs_step g st)" and "b_head (bfs_step g st) = Suc (b_head st)"
proof -
  let ?cur = "b_queue st ! b_head st"
  have cur: "?cur \<in> set (b_queue st)" using more by simp
  have keys: "Mapping.keys (b_pred st) = set (b_queue st)" "Mapping.keys (b_root st) = set (b_queue st)"
    using inv by (auto simp: bfs_inv_def)
  from bfs_step_result [OF inv more] obtain new r
    where q: "b_queue (bfs_step g st) = b_queue st @ new" and h: "b_head (bfs_step g st) = Suc (b_head st)"
    and lp: "\<forall>x. Mapping.lookup (b_pred (bfs_step g st)) x =
      (if x \<in> set new then Some ?cur else Mapping.lookup (b_pred st) x)"
    and lr: "\<forall>x. Mapping.lookup (b_root (bfs_step g st)) x =
      (if x \<in> set new then Some r else Mapping.lookup (b_root st) x)"
    and r: "Mapping.lookup (b_root st) ?cur = Some r"
    and fresh: "set new = edges g `` {?cur} - set (b_queue st)" and dnew: "distinct new" .
  show "b_head (bfs_step g st) = Suc (b_head st)" by (rule h)
  have keys': "Mapping.keys (b_pred (bfs_step g st)) = set (b_queue st) \<union> set new"
    by (rule set_eqI) (use lookup_Some_iff [of _ "b_pred st"] in \<open>simp add: lookup_Some_iff lp keys\<close>)
  have keys'': "Mapping.keys (b_root (bfs_step g st)) = set (b_queue st) \<union> set new"
    by (rule set_eqI) (use lookup_Some_iff [of _ "b_root st"] in \<open>simp add: lookup_Some_iff lr keys\<close>)
  have closed: "edges g `` {(b_queue st @ new) ! k} \<subseteq> set (b_queue st @ new)"
    if "k < Suc (b_head st)" for k
  proof (cases "k = b_head st")
    case True
    then show ?thesis using more fresh by (auto simp: nth_append)
  next
    case False
    then have "k < b_head st" using that by simp
    with inv more show ?thesis by (auto simp: bfs_inv_def nth_append)
  qed
  have expl: "explained g S (b_pred (bfs_step g st)) (b_root (bfs_step g st)) (b_queue st @ new) k"
    if "k < length (b_queue st @ new)" for k
  proof (cases "k < length (b_queue st)")
    case True
    with inv have "explained g S (b_pred st) (b_root st) (b_queue st) k" by (simp add: bfs_inv_def)
    then show ?thesis by (rule explained_extend) (use True lp lr fresh in auto)
  next
    case False
    with that have mem: "(b_queue st @ new) ! k \<in> set new" by (simp add: nth_append)
    then have "(?cur, (b_queue st @ new) ! k) \<in> edges g" using fresh by auto
    moreover have "Mapping.lookup (b_root (bfs_step g st)) ?cur = Some r" using lr r by simp
    moreover have "(b_queue st @ new) ! b_head st = ?cur" using more by (simp add: nth_append)
    ultimately show ?thesis
      unfolding explained_def using mem lp lr more False
      by (intro disjI2 exI [of _ "b_head st"]) auto
  qed
  have reach: "set new \<subseteq> (edges g)\<^sup>* `` S"
  proof
    fix x assume "x \<in> set new"
    then have "(?cur, x) \<in> edges g" using fresh by blast
    moreover have "?cur \<in> (edges g)\<^sup>* `` S" using inv cur unfolding bfs_inv_def by blast
    ultimately show "x \<in> (edges g)\<^sup>* `` S" by (blast intro: rtrancl_into_rtrancl)
  qed
  show "bfs_inv g S (bfs_step g st)"
    unfolding bfs_inv_def q h keys' keys''
    using inv dnew fresh reach more closed expl by (auto simp: bfs_inv_def)
qed

lemma bfs_loop_returns:
  assumes "bfs_inv g S st"
  shows "\<exists>st'. bfs_loop g st = Some st' \<and> bfs_inv g S st' \<and> b_head st' = length (b_queue st')"
  using assms
proof (induction "card (UNIV :: StateId set) - b_head st" arbitrary: st rule: less_induct)
  case less
  show ?case
  proof (cases "b_head st < length (b_queue st)")
    case True
    have "length (b_queue st) = card (set (b_queue st))"
      using less.prems by (simp add: bfs_inv_def distinct_card)
    also have "\<dots> \<le> card (UNIV :: StateId set)" by (rule card_mono) auto
    finally have "card (UNIV :: StateId set) - b_head (bfs_step g st) < card (UNIV :: StateId set) - b_head st"
      using True bfs_step_inv(2) [OF less.prems True] by simp
    from less.hyps [OF this bfs_step_inv(1) [OF less.prems True]] True
    show ?thesis by (subst bfs_loop.simps) simp
  next
    case False
    with less.prems show ?thesis by (subst bfs_loop.simps) (auto simp: bfs_inv_def)
  qed
qed

lemma bfs_inv_complete:
  assumes inv: "bfs_inv g S st" and full: "b_head st = length (b_queue st)"
  shows "set (b_queue st) = (edges g)\<^sup>* `` S"
proof -
  have "edges g `` {x} \<subseteq> set (b_queue st) \<union> {}" if "x \<in> set (b_queue st)" for x
    using inv that full by (auto simp: bfs_inv_def in_set_conv_nth)
  then have "(edges g)\<^sup>* `` set (b_queue st) \<subseteq> set (b_queue st) \<union> (edges g)\<^sup>* `` {}"
    by (rule closed_reach)
  with inv show ?thesis by (auto simp: bfs_inv_def)
qed


section \<open>The result\<close>

lemma seed_inv:
  assumes "distinct ids"
  shows "bfs_inv g (set ids) (seed_roots ids initial_bfs)"
proof -
  have init: "b_queue initial_bfs = []" "b_head initial_bfs = 0"
    "b_pred initial_bfs = Mapping.empty" "b_root initial_bfs = Mapping.empty"
    by (simp_all add: initial_bfs_def)
  note r = seed_roots_result [of ids initial_bfs, unfolded init, simplified]
  have keys: "Mapping.keys (b_pred (seed_roots ids initial_bfs)) = set ids"
    "Mapping.keys (b_root (seed_roots ids initial_bfs)) = set ids"
    using r by (auto simp: lookup_Some_iff split: if_splits)
  show ?thesis
    unfolding bfs_inv_def keys using r assms
    by (auto simp: explained_def intro: nth_mem)
qed

definition root_set :: "InvalidatingSubject list \<Rightarrow> StateId set" where
  "root_set subjects = inv_subject ` set subjects"

lemma propagate_result:
  "\<exists>st reasons details. propagate_invalidation g subjects =
      Some \<lparr>affected = sort (b_queue st), predecessor = b_pred st, root_of = b_root st,
        root_reason = reasons, root_detail = details\<rparr>
    \<and> bfs_inv g (root_set subjects) st \<and> b_head st = length (b_queue st)
    \<and> (\<forall>s. Mapping.lookup reasons s = map_of (map (\<lambda>r. (inv_subject r, inv_reason r)) subjects) s)
    \<and> (\<forall>s. Mapping.lookup details s = map_of (map (\<lambda>r. (inv_subject r, inv_detail r)) subjects) s)"
proof -
  obtain reasons details where c: "collect_roots subjects (Mapping.empty, Mapping.empty) = (reasons, details)"
    by fastforce
  note r = collect_roots_result [of Mapping.empty Mapping.empty subjects, unfolded c]
  have keys: "Mapping.keys reasons = root_set subjects"
    and look: "\<forall>s. Mapping.lookup reasons s = map_of (map (\<lambda>r. (inv_subject r, inv_reason r)) subjects) s"
      "\<forall>s. Mapping.lookup details s = map_of (map (\<lambda>r. (inv_subject r, inv_detail r)) subjects) s"
    using r by (simp_all add: root_set_def )
  define ids where "ids = sorted_list_of_set (root_set subjects)"
  have ids: "distinct ids" "set ids = root_set subjects" by (simp_all add: ids_def root_set_def)
  obtain st where st: "bfs_loop g (seed_roots ids initial_bfs) = Some st"
    "bfs_inv g (root_set subjects) st" "b_head st = length (b_queue st)"
    using bfs_loop_returns [OF seed_inv [OF ids(1)]] ids(2) by auto
  show ?thesis
    by (rule exI [of _ st], rule exI [of _ reasons], rule exI [of _ details])
      (use st look in \<open>simp add: propagate_invalidation_def c keys ids_def [symmetric]\<close>)
qed

lemma sort_distinct_set: "distinct xs \<Longrightarrow> sort xs = sorted_list_of_set (set xs)"
  by (rule sorted_distinct_eq_set) simp_all

lemma propagate_affected:
  assumes "propagate_invalidation g subjects = Some res"
  shows "affected res = sorted_list_of_set ((edges g)\<^sup>* `` root_set subjects)"
proof -
  obtain st where st: "affected res = sort (b_queue st)" "bfs_inv g (root_set subjects) st"
    "b_head st = length (b_queue st)"
    using propagate_result [of g subjects] assms by auto
  have "distinct (b_queue st)" using st(2) by (simp add: bfs_inv_def)
  then show ?thesis
    unfolding st(1) bfs_inv_complete [OF st(2,3), symmetric] by (rule sort_distinct_set)
qed

text \<open>Following predecessors from a queue position walks back to its root within the guard.\<close>

lemma path_loop_result:
  assumes inv: "bfs_inv g S st" and k: "k < length (b_queue st)" and lim: "guard + k \<le> limit"
  shows "\<exists>p r. path_loop (b_pred st) limit guard (b_queue st ! k) acc = acc @ p
    \<and> p \<noteq> [] \<and> hd p = b_queue st ! k \<and> last p = r \<and> r \<in> S
    \<and> Mapping.lookup (b_root st) (b_queue st ! k) = Some r
    \<and> successively (\<lambda>a b. (b, a) \<in> edges g) p \<and> set p \<subseteq> set (take (Suc k) (b_queue st))
    \<and> distinct p"
  using k lim
proof (induction k arbitrary: guard acc rule: less_induct)
  case (less k)
  let ?x = "b_queue st ! k"
  have mem: "?x \<in> set (take (Suc k) (b_queue st))"
    using less.prems by (simp add: take_Suc_conv_app_nth)
  have d: "distinct (b_queue st)" using inv by (simp add: bfs_inv_def)
  have "explained g S (b_pred st) (b_root st) (b_queue st) k"
    using inv less.prems by (simp add: bfs_inv_def)
  then consider (root) "?x \<in> S" "Mapping.lookup (b_pred st) ?x = Some ?x"
      "Mapping.lookup (b_root st) ?x = Some ?x"
    | (arc) j where "j < k" "Mapping.lookup (b_pred st) ?x = Some (b_queue st ! j)"
      "(b_queue st ! j, ?x) \<in> edges g"
      "Mapping.lookup (b_root st) ?x = Mapping.lookup (b_root st) (b_queue st ! j)"
    unfolding explained_def by blast
  then show ?case
  proof cases
    case root
    with mem show ?thesis
      by (subst path_loop.simps) (auto intro!: exI [of _ "[?x]"])
  next
    case arc
    let ?y = "b_queue st ! j"
    have "?y \<noteq> ?x" using arc(1) less.prems d by (simp add: nth_eq_iff_index_eq)
    moreover have "j < length (b_queue st)" "guard + 1 + j \<le> limit" using arc(1) less.prems by auto
    moreover from this obtain p r where p:
      "path_loop (b_pred st) limit (guard + 1) ?y (acc @ [?x]) = (acc @ [?x]) @ p"
      "p \<noteq> []" "hd p = ?y" "last p = r" "r \<in> S" "Mapping.lookup (b_root st) ?y = Some r"
      "successively (\<lambda>a b. (b, a) \<in> edges g) p" "set p \<subseteq> set (take (Suc j) (b_queue st))"
      "distinct p"
      using less.IH [OF arc(1)] by blast
    moreover have "set (take (Suc j) (b_queue st)) \<subseteq> set (take k (b_queue st))"
      using arc(1) by (intro set_take_subset_set_take) simp
    moreover have "?x \<notin> set (take k (b_queue st))"
      using d less.prems by (auto simp: in_set_conv_nth nth_eq_iff_index_eq)
    moreover have "set (take k (b_queue st)) \<subseteq> set (take (Suc k) (b_queue st))"
      by (rule set_take_subset_set_take) simp
    moreover have "path_loop (b_pred st) limit guard ?x acc
        = path_loop (b_pred st) limit (guard + 1) ?y (acc @ [?x])"
      using arc(2) calculation(1,3) by (subst path_loop.simps) simp
    ultimately show ?thesis
      using mem arc(3,4)
      by (intro exI [of _ "?x # p"] exI [of _ r]) (auto simp: successively_Cons)
  qed
qed


lemma bsearch_iff:
  assumes "sorted xs" "lo \<le> hi" "hi \<le> length xs"
    and "\<And>k. k < lo \<Longrightarrow> xs ! k < x" "\<And>k. hi \<le> k \<Longrightarrow> k < length xs \<Longrightarrow> x \<le> xs ! k"
  shows "bsearch xs x lo hi \<longleftrightarrow> x \<in> set xs"
  using assms
proof (induction xs x lo hi rule: bsearch.induct)
  case (1 xs x lo hi)
  show ?case
  proof (cases "hi \<le> lo")
    case True
    with "1.prems" have eq: "hi = lo" by simp
    have "x \<in> set xs \<longleftrightarrow> lo < length xs \<and> xs ! lo = x"
    proof
      assume "x \<in> set xs"
      then obtain k where k: "k < length xs" "xs ! k = x" by (auto simp: in_set_conv_nth)
      then have "lo \<le> k" using "1.prems"(4) [of k] by fastforce
      then have "xs ! lo \<le> x" using k "1.prems"(1) by (auto intro: sorted_nth_mono)
      moreover have "lo < length xs" using k \<open>lo \<le> k\<close> by simp
      ultimately show "lo < length xs \<and> xs ! lo = x" using "1.prems"(5) [of lo] eq by auto
    qed auto
    moreover have "lo < length xs \<Longrightarrow> x \<le> xs ! lo" using "1.prems"(5) [of lo] eq by simp
    ultimately show ?thesis using True by (subst bsearch.simps) force
  next
    case False
    define mid where "mid = lo + (hi - lo) div 2"
    have mid: "lo \<le> mid" "mid < hi" using False by (auto simp: mid_def)
    have sorted: "xs ! i \<le> xs ! j" if "i \<le> j" "j < length xs" for i j
      using that "1.prems"(1) by (rule sorted_nth_mono [rotated])
    have step: "bsearch xs x lo hi =
        (if xs ! mid < x then bsearch xs x (Suc mid) hi else bsearch xs x lo mid)"
      using False by (subst bsearch.simps) (simp add: mid_def Let_def)
    show ?thesis
    proof (cases "xs ! mid < x")
      case True
      have "xs ! k < x" if "k < Suc mid" for k
        using sorted [of k mid] that True mid "1.prems"(3) by fastforce
      then show ?thesis
        unfolding step using "1.IH"(1) [OF False mid_def] True mid "1.prems" by simp
    next
      case small: False
      have "x \<le> xs ! k" if "mid \<le> k" "k < length xs" for k
        using sorted [of mid k] that small by fastforce
      then show ?thesis
        unfolding step using "1.IH"(2) [OF False mid_def] small mid "1.prems" by simp
    qed
  qed
qed

lemma affected_contains_iff:
  assumes "propagate_invalidation g subjects = Some res"
  shows "affected_contains res i \<longleftrightarrow> i \<in> set (affected res)"
  unfolding affected_contains_def propagate_affected [OF assms] by (rule bsearch_iff) simp_all

lemma set_affected:
  assumes "propagate_invalidation g subjects = Some res"
  shows "set (affected res) = (edges g)\<^sup>* `` root_set subjects"
  by (simp add: propagate_affected [OF assms])

lemma chain_for_affected:
  assumes p: "propagate_invalidation g subjects = Some res" and t: "target \<in> set (affected res)"
  shows "\<exists>r path. chain_root (chain_for res target) = r \<and> chain_path (chain_for res target) = path
    \<and> r \<in> root_set subjects \<and> path \<noteq> [] \<and> hd path = r \<and> last path = target
    \<and> successively (\<lambda>a b. (a, b) \<in> edges g) path \<and> distinct path
    \<and> chain_reason (chain_for res target) = map_of (map (\<lambda>s. (inv_subject s, inv_reason s)) subjects) r
    \<and> Some (chain_detail (chain_for res target))
        = map_of (map (\<lambda>s. (inv_subject s, inv_detail s)) subjects) r"
proof -
  obtain st reasons details where res: "res = \<lparr>affected = sort (b_queue st), predecessor = b_pred st,
      root_of = b_root st, root_reason = reasons, root_detail = details\<rparr>"
    and inv: "bfs_inv g (root_set subjects) st"
    and look: "\<And>s. Mapping.lookup reasons s = map_of (map (\<lambda>r. (inv_subject r, inv_reason r)) subjects) s"
      "\<And>s. Mapping.lookup details s = map_of (map (\<lambda>r. (inv_subject r, inv_detail r)) subjects) s"
    using propagate_result [of g subjects] p by auto
  obtain k where k: "k < length (b_queue st)" "b_queue st ! k = target"
    using t by (auto simp: res in_set_conv_nth)
  have "0 + k \<le> length (affected res) + 1" using k by (simp add: res)
  then obtain path r where path: "path_loop (b_pred st) (length (affected res) + 1) 0 target [] = path"
    "path \<noteq> []" "hd path = target" "last path = r" "r \<in> root_set subjects"
    "Mapping.lookup (b_root st) target = Some r"
    "successively (\<lambda>a b. (b, a) \<in> edges g) path" "distinct path"
    using path_loop_result [OF inv k(1), of 0 "length (affected res) + 1" "[]"] k(2) by auto
  have known: "map_of (map (\<lambda>s. (inv_subject s, f s)) subjects) r \<noteq> None" for f :: "InvalidatingSubject \<Rightarrow> 'b"
    using path(5) by (auto simp: map_of_eq_None_iff root_set_def image_image)
  have to: "path_to res target = rev path" using path(1) by (simp add: path_to_def res)
  obtain x d where xd: "Mapping.lookup reasons r = Some x" "Mapping.lookup details r = Some d"
    using known [of inv_reason] known [of inv_detail] look by auto
  have root: "Mapping.lookup (root_of res) target = Some r"
    and maps: "root_reason res = reasons" "root_detail res = details"
    using path(6) by (simp_all add: res)
  have "chain_for res target = \<lparr>chain_root = r, chain_reason = Some x, chain_detail = d,
      chain_path = rev path\<rparr>"
    unfolding chain_for_def root to maps by (simp add: lookup_default_def xd)
  then show ?thesis
    using path(2-5,7,8) xd look by (intro exI [of _ r] exI [of _ "rev path"]) (simp add: hd_rev last_rev)
qed

section \<open>Properties\<close>

text \<open>
  C24: propagation returns, and the affected list is, in ascending order and without repetition,
  the given subjects and everything reachable from them along the derivation arcs, nothing else;
  \<^verbatim>\<open>contains\<close> decides membership in it.
\<close>

theorem propagation_exact:
  "\<exists>res. propagate_invalidation g subjects = Some res
    \<and> affected res = sorted_list_of_set {d. \<exists>s. s \<in> inv_subject ` set subjects \<and> (s, d) \<in> (edges g)\<^sup>*}
    \<and> {i. affected_contains res i} = set (affected res)"
proof -
  obtain res where res: "propagate_invalidation g subjects = Some res"
    using propagate_result [of g subjects] by blast
  moreover have "(edges g)\<^sup>* `` root_set subjects
      = {d. \<exists>s. s \<in> inv_subject ` set subjects \<and> (s, d) \<in> (edges g)\<^sup>*}"
    by (auto simp: root_set_def)
  ultimately show ?thesis
    using propagate_affected [OF res] affected_contains_iff [OF res] by auto
qed

text \<open>
  The causal chain of an affected subject is a path of the derivation graph, without
  repetition, from one of the invalidated roots to the subject, and it carries the reason and
  detail first given for that root.
\<close>

theorem causal_chain_sound:
  assumes "propagate_invalidation g subjects = Some res" "target \<in> set (affected res)"
  shows "\<exists>r path. chain_root (chain_for res target) = r \<and> chain_path (chain_for res target) = path
    \<and> r \<in> inv_subject ` set subjects \<and> path \<noteq> [] \<and> hd path = r \<and> last path = target
    \<and> successively (\<lambda>a b. (a, b) \<in> edges g) path \<and> distinct path
    \<and> chain_reason (chain_for res target) = map_of (map (\<lambda>s. (inv_subject s, inv_reason s)) subjects) r
    \<and> Some (chain_detail (chain_for res target))
        = map_of (map (\<lambda>s. (inv_subject s, inv_detail s)) subjects) r"
  using chain_for_affected [OF assms] by (simp add: root_set_def)

definition corrupt_one :: "InvalidatingSubject list" where
  "corrupt_one = [InvalidatingSubject (ScalarIdentifier 1) IR_CorruptState ''bad block'']"

theorem causal_chain_sound_witness:
  "\<exists>res. propagate_invalidation one_arc corrupt_one = Some res
    \<and> last (chain_path (chain_for res (ScalarIdentifier 2))) = ScalarIdentifier 2
    \<and> chain_reason (chain_for res (ScalarIdentifier 2)) = Some IR_CorruptState"
proof -
  obtain res where res: "propagate_invalidation one_arc corrupt_one = Some res"
    using propagate_result [of one_arc corrupt_one] by blast
  have "(ScalarIdentifier 1, ScalarIdentifier 2) \<in> edges one_arc"
    using add_arc_Inr(7) [OF one_arc_built] by simp
  then have "ScalarIdentifier 2 \<in> set (affected res)"
    by (auto simp: set_affected [OF res] root_set_def corrupt_one_def)
  from causal_chain_sound [OF res this] res show ?thesis by (auto simp: corrupt_one_def)
qed

text \<open>
  Propagation depends on the set of invalidated subjects only, not on the order or repetition
  in which they are listed: affected list, predecessors and roots are the same.
\<close>

theorem propagation_order_independent:
  assumes "inv_subject ` set subjects = inv_subject ` set subjects'"
  shows "map_option (\<lambda>res. (affected res, predecessor res, root_of res)) (propagate_invalidation g subjects)
    = map_option (\<lambda>res. (affected res, predecessor res, root_of res)) (propagate_invalidation g subjects')"
proof -
  have keys: "Mapping.keys (fst (collect_roots ss (Mapping.empty, Mapping.empty))) = inv_subject ` set ss" for ss
    using collect_roots_result [of Mapping.empty Mapping.empty ss] by simp
  then have "Mapping.keys (fst (collect_roots subjects (Mapping.empty, Mapping.empty)))
      = Mapping.keys (fst (collect_roots subjects' (Mapping.empty, Mapping.empty)))"
    using assms by simp
  then show ?thesis
    by (simp add: propagate_invalidation_def case_prod_beta Let_def option.map_comp comp_def)
qed

theorem propagation_order_independent_witness:
  "map_option affected (propagate_invalidation one_arc corrupt_one)
    = map_option affected (propagate_invalidation one_arc (corrupt_one @ corrupt_one))"
proof -
  have "inv_subject ` set corrupt_one = inv_subject ` set (corrupt_one @ corrupt_one)" by simp
  from propagation_order_independent [OF this, of one_arc] show ?thesis
    by (auto simp: map_option_case split: option.splits)
qed

end
