(* ===== verification/Store.thy ===== *)
theory Store
  imports Derivation_Graph Authority Compat Invalidate
begin

text \<open>
  \<^verbatim>\<open>store.hpp\<close>: the provenance store.  Its state is the immutable records with their identity
  map, the derivation graph, the mutable status overlay, the authority, the known workers and
  nine indexes.  Every method runs under one lock, so a method is one function on the state; the
  one exception, the fenced \<^verbatim>\<open>publish\<close>, reads the authority before it takes the lock
  (\<open>Concurrency\<close> treats the interleaving).
\<close>

section \<open>State\<close>

record RecordStatus =
  rs_validity :: ValidityState
  rs_reason :: InvalidationReason
  rs_provenance_generation :: ProvenanceGeneration
  rs_detail :: string

definition default_status :: RecordStatus where
  "default_status = \<lparr>rs_validity = VS_VALID, rs_reason = IR_Unknown,
     rs_provenance_generation = null_id, rs_detail = []\<rparr>"

record PublishOutcome =
  po_ok :: bool
  po_error :: string
  po_record :: "RecordData option"

definition failure :: "string \<Rightarrow> PublishOutcome" where
  "failure msg = \<lparr>po_ok = False, po_error = msg, po_record = None\<rparr>"

record InvalidationOutcome =
  io_ok :: bool
  io_error :: string
  io_result :: InvalidationResult

record AuthoritySnapshot =
  as_epoch :: u64
  as_boots :: "(WorkerId, WorkerBootId) mapping"
  as_attempt_id :: AttemptId
  as_attempt_generation :: AttemptGeneration
  as_state_generation :: StateGeneration
  as_provenance_generation :: ProvenanceGeneration
  as_artifact_generation :: ArtifactGeneration
  as_model_generation :: ModelGeneration
  as_adapter_generation :: AdapterGeneration
  as_composition_generation :: CompositionGeneration
  as_policy_generation :: PolicyGeneration
  as_dependency_generation :: DependencyGeneration

record StoreSnapshot =
  sn_records :: "RecordData list"
  sn_status :: "(StateId, RecordStatus) mapping"
  sn_authority :: AuthoritySnapshot

record ProvenanceStore =
  st_records :: "(StateId, RecordData) mapping"
  prov_to_state :: "(ProvenanceId, StateId) mapping"
  st_graph :: ProvenanceGraph
  st_status :: "(StateId, RecordStatus) mapping"
  st_authority :: AuthorityState
  st_workers :: "WorkerId set"
  st_runtime_generation :: RuntimeGeneration
  by_model :: "(ModelId, StateId set) mapping"
  by_adapter :: "(AdapterId, StateId set) mapping"
  by_producer :: "(ProducerId, StateId set) mapping"
  by_execution :: "(ExecutionId, StateId set) mapping"
  by_attempt :: "(AttemptId, StateId set) mapping"
  by_dependency :: "(DependencyId, StateId set) mapping"
  by_artifact :: "(ArtifactGeneration, StateId set) mapping"
  by_validity :: "(ValidityState, StateId set) mapping"
  by_evidence :: "(EvidenceClass, StateId set) mapping"

definition empty_store :: ProvenanceStore where
  "empty_store = \<lparr>st_records = Mapping.empty, prov_to_state = Mapping.empty,
     st_graph = empty_graph, st_status = Mapping.empty, st_authority = initial_authority,
     st_workers = {}, st_runtime_generation = null_id,
     by_model = Mapping.empty, by_adapter = Mapping.empty, by_producer = Mapping.empty,
     by_execution = Mapping.empty, by_attempt = Mapping.empty, by_dependency = Mapping.empty,
     by_artifact = Mapping.empty, by_validity = Mapping.empty, by_evidence = Mapping.empty\<rparr>"

text \<open>The exceptions that can leave a method.\<close>

datatype store_exn = GraphExn graph_error | RuntimeError string | MapOutOfRange

section \<open>Publishing\<close>

definition index_id :: "'tag ScalarIdentifier \<Rightarrow> StateId \<Rightarrow> ('tag ScalarIdentifier, StateId set) mapping \<Rightarrow>
    ('tag ScalarIdentifier, StateId set) mapping" where
  "index_id k sid idx = (if valid k then insert_at k sid idx else idx)"

fun index_dependencies :: "Dependency list \<Rightarrow> StateId \<Rightarrow> (DependencyId, StateId set) mapping \<Rightarrow>
    (DependencyId, StateId set) mapping" where
  "index_dependencies [] sid idx = idx"
| "index_dependencies (d # ds) sid idx = index_dependencies ds sid (index_id (dep_id d) sid idx)"

definition index_insert :: "RecordData \<Rightarrow> StateId \<Rightarrow> ProvenanceStore \<Rightarrow> ProvenanceStore" where
  "index_insert d sid s = s\<lparr>
     by_model := index_id (model_id d) sid (by_model s),
     by_adapter := index_id (adapter_id d) sid (by_adapter s),
     by_producer := index_id (producer_id d) sid (by_producer s),
     by_execution := index_id (execution_id d) sid (by_execution s),
     by_attempt := index_id (attempt_id d) sid (by_attempt s),
     by_dependency := index_dependencies (dependencies d) sid (by_dependency s),
     by_artifact := index_id (artifact_generation d) sid (by_artifact s),
     by_validity := insert_at (validity d) sid (by_validity s),
     by_evidence := insert_at (evidence d) sid (by_evidence s)\<rparr>"

text \<open>\<^verbatim>\<open>prov_to_state_.at(p)\<close> for each declared parent, collected into the parent set.\<close>

fun resolve_parents :: "(ProvenanceId, StateId) mapping \<Rightarrow> ProvenanceId list \<Rightarrow> StateId set \<Rightarrow>
    store_exn + StateId set" where
  "resolve_parents prov [] ps = Inr ps"
| "resolve_parents prov (p # rest) ps =
     (case Mapping.lookup prov p of
        None \<Rightarrow> Inl MapOutOfRange
      | Some i \<Rightarrow> resolve_parents prov rest (insert i ps))"

text \<open>The arc loop: the error of the first arc refused, and the graph reached so far.\<close>

fun add_arcs :: "StateId list \<Rightarrow> StateId \<Rightarrow> ProvenanceGraph \<Rightarrow> graph_error option \<times> ProvenanceGraph" where
  "add_arcs [] child g = (None, g)"
| "add_arcs (p # ps) child g =
     (case add_arc p child g of
        Inl e \<Rightarrow> (Some e, g)
      | Inr g' \<Rightarrow> add_arcs ps child g')"

definition status_of_record :: "RecordData \<Rightarrow> RecordStatus" where
  "status_of_record d = \<lparr>rs_validity = validity d, rs_reason = invalidation_reason d,
     rs_provenance_generation = provenance_generation d, rs_detail = record_note d\<rparr>"

definition store_record :: "RecordData \<Rightarrow> ProvenanceStore \<Rightarrow> ProvenanceStore" where
  "store_record d s =
     (let s = index_insert d (subject_id d) s
      in s\<lparr>st_records := Mapping.update (subject_id d) d (st_records s),
           prov_to_state := Mapping.update (provenance_id d) (subject_id d) (prov_to_state s),
           st_status := Mapping.update (subject_id d) (status_of_record d) (st_status s),
           st_workers := if valid (worker_id d) then insert (worker_id d) (st_workers s)
             else st_workers s\<rparr>)"

definition insert_validated ::
  "RecordData \<Rightarrow> ProvenanceStore \<Rightarrow> (store_exn + PublishOutcome) \<times> ProvenanceStore" where
  "insert_validated d s =
     (if subject_id d \<in> Mapping.keys (st_records s) then
        (Inr (failure (''duplicate StateId '' @ to_string (subject_id d))), s)
      else if provenance_id d \<in> Mapping.keys (prov_to_state s) then
        (Inr (failure (''duplicate ProvenanceId '' @ to_string (provenance_id d))), s)
      else case find (\<lambda>i. i \<notin> Mapping.keys (st_records s)) (input_states d) of
        Some i \<Rightarrow>
          (Inr (failure (''dangling input_state '' @ to_string i @ '' (parents must exist)'')), s)
      | None \<Rightarrow>
        (case find (\<lambda>p. p \<notin> Mapping.keys (prov_to_state s)) (parent_provenance d) of
           Some p \<Rightarrow> (Inr (failure (''dangling parent_provenance '' @ to_string p)), s)
         | None \<Rightarrow>
           (case add_node (subject_id d) (st_graph s) of
              Inl e \<Rightarrow> (Inl (GraphExn e), s)
            | Inr (new, g) \<Rightarrow>
              (case resolve_parents (prov_to_state s) (parent_provenance d) (set (input_states d)) of
                 Inl e \<Rightarrow> (Inl e, s\<lparr>st_graph := g\<rparr>)
               | Inr parent_set \<Rightarrow>
                 (case add_arcs (sorted_list_of_set parent_set) (subject_id d) g of
                    (Some (GraphError msg), g') \<Rightarrow>
                      (Inr (failure (''graph rejection: '' @ msg)), s\<lparr>st_graph := g'\<rparr>)
                  | (Some OutOfRange, g') \<Rightarrow> (Inl (GraphExn OutOfRange), s\<lparr>st_graph := g'\<rparr>)
                  | (None, g') \<Rightarrow>
                      (Inr \<lparr>po_ok = True, po_error = [], po_record = Some d\<rparr>,
                       store_record d (s\<lparr>st_graph := g'\<rparr>)))))))"

definition publish_validated ::
  "RecordData \<Rightarrow> ProvenanceStore \<Rightarrow> (store_exn + PublishOutcome) \<times> ProvenanceStore" where
  "publish_validated d s =
     (case validate_record d of
        Some err \<Rightarrow> (Inr (failure err), s)
      | None \<Rightarrow> insert_validated d s)"

definition publish_fenced ::
  "RecordData \<Rightarrow> AuthorityClaim \<Rightarrow> ProvenanceStore \<Rightarrow> (store_exn + PublishOutcome) \<times> ProvenanceStore" where
  "publish_fenced d claim s =
     (case validate_record d of
        Some err \<Rightarrow> (Inr (failure err), s)
      | None \<Rightarrow>
          let fv = evaluate_claim (st_authority s) claim
          in if \<not> accepted fv
             then (Inr (failure (''stale authority ['' @ v_dimension fv @ '']: '' @ v_detail fv)), s)
             else publish_validated d s)"

definition publish ::
  "RecordData \<Rightarrow> ProvenanceStore \<Rightarrow> (store_exn + PublishOutcome) \<times> ProvenanceStore" where
  "publish d s = publish_validated d s"

section \<open>Authority\<close>

definition store_epoch :: "ProvenanceStore \<Rightarrow> u64" where
  "store_epoch s = a_epoch (st_authority s)"

definition store_roll_epoch :: "ProvenanceStore \<Rightarrow> u64 \<times> ProvenanceStore" where
  "store_roll_epoch s = (let (e, a) = roll_epoch (st_authority s) in (e, s\<lparr>st_authority := a\<rparr>))"

definition store_register_boot :: "WorkerId \<Rightarrow> WorkerBootId \<Rightarrow> ProvenanceStore \<Rightarrow> ProvenanceStore" where
  "store_register_boot w b s = s\<lparr>st_authority := register_boot w b (st_authority s)\<rparr>"

definition store_begin_attempt :: "AttemptId \<Rightarrow> AttemptGeneration \<Rightarrow> ProvenanceStore \<Rightarrow> ProvenanceStore" where
  "store_begin_attempt i g s = s\<lparr>st_authority := begin_attempt i g (st_authority s)\<rparr>"

definition store_roll_state_generation :: "StateGeneration \<Rightarrow> ProvenanceStore \<Rightarrow> ProvenanceStore" where
  "store_roll_state_generation g s = s\<lparr>st_authority := roll_state_generation g (st_authority s)\<rparr>"

definition store_roll_provenance_generation ::
  "ProvenanceGeneration \<Rightarrow> ProvenanceStore \<Rightarrow> ProvenanceStore" where
  "store_roll_provenance_generation g s =
     s\<lparr>st_authority := roll_provenance_generation g (st_authority s)\<rparr>"

definition store_set_model_generation :: "ModelGeneration \<Rightarrow> ProvenanceStore \<Rightarrow> ProvenanceStore" where
  "store_set_model_generation g s = s\<lparr>st_authority := set_model_generation g (st_authority s)\<rparr>"

definition store_set_adapter_generation :: "AdapterGeneration \<Rightarrow> ProvenanceStore \<Rightarrow> ProvenanceStore" where
  "store_set_adapter_generation g s = s\<lparr>st_authority := set_adapter_generation g (st_authority s)\<rparr>"

definition store_set_composition_generation ::
  "CompositionGeneration \<Rightarrow> ProvenanceStore \<Rightarrow> ProvenanceStore" where
  "store_set_composition_generation g s =
     s\<lparr>st_authority := set_composition_generation g (st_authority s)\<rparr>"

definition store_set_policy_generation :: "PolicyGeneration \<Rightarrow> ProvenanceStore \<Rightarrow> ProvenanceStore" where
  "store_set_policy_generation g s = s\<lparr>st_authority := set_policy_generation g (st_authority s)\<rparr>"

definition store_set_dependency_generation ::
  "DependencyGeneration \<Rightarrow> ProvenanceStore \<Rightarrow> ProvenanceStore" where
  "store_set_dependency_generation g s =
     s\<lparr>st_authority := set_dependency_generation g (st_authority s)\<rparr>"

definition store_set_artifact_generation :: "ArtifactGeneration \<Rightarrow> ProvenanceStore \<Rightarrow> ProvenanceStore" where
  "store_set_artifact_generation g s = s\<lparr>st_authority := set_artifact_generation g (st_authority s)\<rparr>"

definition set_runtime_generation :: "RuntimeGeneration \<Rightarrow> ProvenanceStore \<Rightarrow> ProvenanceStore" where
  "set_runtime_generation g s = s\<lparr>st_runtime_generation := g\<rparr>"

definition store_evaluate_claim :: "ProvenanceStore \<Rightarrow> AuthorityClaim \<Rightarrow> FenceVerdict" where
  "store_evaluate_claim s claim = evaluate_claim (st_authority s) claim"

fun collect_boots :: "AuthorityState \<Rightarrow> WorkerId list \<Rightarrow> (WorkerId, WorkerBootId) mapping \<Rightarrow>
    (WorkerId, WorkerBootId) mapping" where
  "collect_boots a [] boots = boots"
| "collect_boots a (w # ws) boots =
     collect_boots a ws (case boot_of a w of None \<Rightarrow> boots | Some b \<Rightarrow> Mapping.update w b boots)"

definition authority_snapshot :: "ProvenanceStore \<Rightarrow> AuthoritySnapshot" where
  "authority_snapshot s =
     (let a = st_authority s
      in \<lparr>as_epoch = a_epoch a,
          as_boots = collect_boots a (sorted_list_of_set (st_workers s)) Mapping.empty,
          as_attempt_id = a_attempt_id a, as_attempt_generation = a_attempt_generation a,
          as_state_generation = a_state_generation a,
          as_provenance_generation = a_provenance_generation a,
          as_artifact_generation = a_artifact_generation a,
          as_model_generation = a_model_generation a,
          as_adapter_generation = a_adapter_generation a,
          as_composition_generation = a_composition_generation a,
          as_policy_generation = a_policy_generation a,
          as_dependency_generation = a_dependency_generation a\<rparr>)"

section \<open>Queries\<close>

definition store_size :: "ProvenanceStore \<Rightarrow> nat" where
  "store_size s = card (Mapping.keys (st_records s))"

definition find_record :: "ProvenanceStore \<Rightarrow> StateId \<Rightarrow> RecordData option" where
  "find_record s i = Mapping.lookup (st_records s) i"

definition find_by_provenance :: "ProvenanceStore \<Rightarrow> ProvenanceId \<Rightarrow> RecordData option" where
  "find_by_provenance s p =
     (case Mapping.lookup (prov_to_state s) p of
        None \<Rightarrow> None | Some i \<Rightarrow> Mapping.lookup (st_records s) i)"

definition store_ids :: "ProvenanceStore \<Rightarrow> StateId list" where
  "store_ids s = sorted_list_of_set (Mapping.keys (st_records s))"

definition index_query :: "('k, StateId set) mapping \<Rightarrow> 'k \<Rightarrow> StateId list" where
  "index_query idx k = (case Mapping.lookup idx k of None \<Rightarrow> [] | Some s \<Rightarrow> sorted_list_of_set s)"

definition validity_of :: "ProvenanceStore \<Rightarrow> StateId \<Rightarrow> ValidityState" where
  "validity_of s i = (case Mapping.lookup (st_status s) i of None \<Rightarrow> VS_UNKNOWN | Some st \<Rightarrow> rs_validity st)"

section \<open>check_reuse\<close>

definition any_with_validity :: "(StateId, RecordStatus) mapping \<Rightarrow> ValidityState \<Rightarrow> StateId list \<Rightarrow> bool" where
  "any_with_validity status v is =
     fold (\<lambda>i found. case Mapping.lookup status i of
         None \<Rightarrow> found | Some st \<Rightarrow> if rs_validity st = v then True else found) is False"

definition escalate :: "bool \<Rightarrow> bool \<Rightarrow> ReuseDecision \<Rightarrow> ReuseDecision" where
  "escalate ancestor_invalid ancestor_stale d =
     (if ancestor_invalid then
        \<lparr>d_eligibility = RE_INVALIDATED, d_failed_dimensions = [],
         d_reasons = [''an ancestor of this subject has been invalidated'']\<rparr>
      else if ancestor_stale \<and> d_eligibility d \<noteq> RE_INVALIDATED then
        \<lparr>d_eligibility = RE_STALE, d_failed_dimensions = [],
         d_reasons = [''an ancestor of this subject is stale'']\<rparr>
      else d)"

definition check_reuse :: "ProvenanceStore \<Rightarrow> StateId \<Rightarrow> ReuseRequest \<Rightarrow> ReuseDecision" where
  "check_reuse s i q =
     (case Mapping.lookup (st_records s) i of
        None \<Rightarrow> \<lparr>d_eligibility = RE_UNKNOWN, d_failed_dimensions = [],
          d_reasons = [''no provenance record for subject '' @ to_string i]\<rparr>
      | Some r \<Rightarrow>
          let live = map_option rs_validity (Mapping.lookup (st_status s) i)
          in if live = Some VS_INVALIDATED then
               \<lparr>d_eligibility = RE_INVALIDATED, d_failed_dimensions = [],
                d_reasons = [''subject has been invalidated'']\<rparr>
             else if live = Some VS_STALE then
               \<lparr>d_eligibility = RE_STALE, d_failed_dimensions = [],
                d_reasons = [''subject is stale'']\<rparr>
             else if live = Some VS_UNKNOWN then
               \<lparr>d_eligibility = RE_UNKNOWN, d_failed_dimensions = [],
                d_reasons = [''subject validity is unknown'']\<rparr>
             else
               let anc = ancestors (st_graph s) i
               in escalate (any_with_validity (st_status s) VS_INVALIDATED anc)
                    (any_with_validity (st_status s) VS_STALE anc) (evaluate_reuse r q))"

section \<open>invalidate\<close>

definition invalidate_one ::
  "InvalidatingSubject \<Rightarrow> InvalidationResult \<Rightarrow> StateId \<Rightarrow> ProvenanceStore \<Rightarrow> ProvenanceStore" where
  "invalidate_one subj res i s =
     (let oldv = (case Mapping.lookup (st_status s) i of None \<Rightarrow> VS_VALID | Some st \<Rightarrow> rs_validity st);
          st = Mapping.lookup_default default_status (st_status s) i;
          root = Mapping.lookup_default i (root_of res) i;
          st = st\<lparr>rs_validity := VS_INVALIDATED,
                  rs_reason := Mapping.lookup_default (inv_reason subj) (root_reason res) root,
                  rs_detail :=
                    if i = inv_subject subj then
                      if inv_detail subj = [] then ''invalidated by operator'' else inv_detail subj
                    else ''invalidated because it transitively depends on '' @ to_string root\<rparr>;
          s = s\<lparr>st_status := Mapping.update i st (st_status s)\<rparr>
      in if oldv \<noteq> VS_INVALIDATED
         then s\<lparr>by_validity := insert_at VS_INVALIDATED i (erase_at oldv i (by_validity s))\<rparr>
         else s)"

definition no_invalidations :: InvalidationResult where
  "no_invalidations = \<lparr>affected = [], predecessor = Mapping.empty, root_of = Mapping.empty,
     root_reason = Mapping.empty, root_detail = Mapping.empty\<rparr>"

definition invalidate ::
  "InvalidatingSubject \<Rightarrow> ProvenanceStore \<Rightarrow> (InvalidationOutcome \<times> ProvenanceStore) option" where
  "invalidate subj s =
     (if inv_subject subj \<notin> Mapping.keys (st_records s) then
        Some (\<lparr>io_ok = False,
          io_error = ''invalidating unknown subject '' @ to_string (inv_subject subj),
          io_result = no_invalidations\<rparr>, s)
      else case propagate_invalidation (st_graph s) [subj] of
          None \<Rightarrow> None
        | Some res \<Rightarrow>
            Some (\<lparr>io_ok = True, io_error = [], io_result = res\<rparr>,
                  fold (invalidate_one subj res) (affected res) s))"

section \<open>Snapshot and restore\<close>

definition store_snapshot :: "ProvenanceStore \<Rightarrow> StoreSnapshot" where
  "store_snapshot s = \<lparr>sn_records = map snd (Mapping.ordered_entries (st_records s)),
     sn_status = st_status s, sn_authority = authority_snapshot s\<rparr>"

text \<open>The maps built by \<^verbatim>\<open>records_in_topo_order\<close>; later records overwrite earlier ones.\<close>

definition prov_map_of :: "RecordData list \<Rightarrow> (ProvenanceId, StateId) mapping" where
  "prov_map_of rs = fold (\<lambda>r m. Mapping.update (provenance_id r) (subject_id r) m) rs Mapping.empty"

definition snapshot_parents :: "(ProvenanceId, StateId) mapping \<Rightarrow> RecordData \<Rightarrow> StateId set" where
  "snapshot_parents prov r =
     fold (\<lambda>p ps. case Mapping.lookup prov p of None \<Rightarrow> ps | Some i \<Rightarrow> insert i ps)
       (parent_provenance r) (set (input_states r))"

definition parents_map_of :: "RecordData list \<Rightarrow> (StateId, StateId set) mapping" where
  "parents_map_of rs =
     fold (\<lambda>r m. Mapping.update (subject_id r) (snapshot_parents (prov_map_of rs) r) m) rs Mapping.empty"

definition indeg_of :: "RecordData list \<Rightarrow> (StateId, nat) mapping" where
  "indeg_of rs =
     fold (\<lambda>r m. Mapping.update (subject_id r) (card (snapshot_parents (prov_map_of rs) r)) m)
       rs Mapping.empty"

definition children_of :: "RecordData list \<Rightarrow> StateId \<Rightarrow> StateId list" where
  "children_of rs p =
     map fst (filter (\<lambda>(cid, ps). p \<in> ps) (Mapping.ordered_entries (parents_map_of rs)))"

definition by_id_of :: "RecordData list \<Rightarrow> (StateId, RecordData) mapping" where
  "by_id_of rs = fold (\<lambda>r m. Mapping.update (subject_id r) r m) rs Mapping.empty"

fun lookup_all :: "('k, 'v) mapping \<Rightarrow> 'k list \<Rightarrow> store_exn + 'v list" where
  "lookup_all m [] = Inr []"
| "lookup_all m (k # ks) =
     (case Mapping.lookup m k of
        None \<Rightarrow> Inl MapOutOfRange
      | Some v \<Rightarrow> (case lookup_all m ks of Inl e \<Rightarrow> Inl e | Inr vs \<Rightarrow> Inr (v # vs)))"

definition records_in_topo_order :: "RecordData list \<Rightarrow> (store_exn + RecordData list) option" where
  "records_in_topo_order rs =
     (case kahn_loop (children_of rs) (indeg_of rs) (initially_ready (indeg_of rs)) [] of
        None \<Rightarrow> None
      | Some order \<Rightarrow>
          Some (if length order \<noteq> length rs then Inr [] else lookup_all (by_id_of rs) order))"

definition restore_authority :: "AuthoritySnapshot \<Rightarrow> AuthorityState" where
  "restore_authority a =
     fold (\<lambda>(w, b). register_boot w b) (Mapping.ordered_entries (as_boots a))
      (set_dependency_generation (as_dependency_generation a)
      (set_policy_generation (as_policy_generation a)
      (set_composition_generation (as_composition_generation a)
      (set_adapter_generation (as_adapter_generation a)
      (set_model_generation (as_model_generation a)
      (set_artifact_generation (as_artifact_generation a)
      (roll_provenance_generation (as_provenance_generation a)
      (roll_state_generation (as_state_generation a)
      (begin_attempt (as_attempt_id a) (as_attempt_generation a)
      (set_epoch (as_epoch a) initial_authority))))))))))"

text \<open>The insertion loop of \<^verbatim>\<open>restore\<close> drops the outcome of each insertion; only an exception stops it.\<close>

fun insert_all :: "RecordData list \<Rightarrow> ProvenanceStore \<Rightarrow> (store_exn + unit) \<times> ProvenanceStore" where
  "insert_all [] s = (Inr (), s)"
| "insert_all (d # ds) s =
     (case insert_validated d s of
        (Inl e, s') \<Rightarrow> (Inl e, s')
      | (Inr outcome, s') \<Rightarrow> insert_all ds s')"

definition rebuild_by_validity :: "(StateId, RecordStatus) mapping \<Rightarrow> (StateId, RecordData) mapping \<Rightarrow>
    (ValidityState, StateId set) mapping" where
  "rebuild_by_validity status recs =
     fold (\<lambda>(i, r) m. if i \<in> Mapping.keys status then m else insert_at VS_VALID i m)
       (Mapping.ordered_entries recs)
       (fold (\<lambda>(i, st) m. insert_at (rs_validity st) i m) (Mapping.ordered_entries status) Mapping.empty)"

definition restore :: "StoreSnapshot \<Rightarrow> ProvenanceStore \<Rightarrow> ((store_exn + unit) \<times> ProvenanceStore) option" where
  "restore sn s =
     (let s0 = empty_store\<lparr>st_runtime_generation := st_runtime_generation s,
                st_authority := restore_authority (sn_authority sn),
                st_workers := Mapping.keys (as_boots (sn_authority sn))\<rparr>
      in case records_in_topo_order (sn_records sn) of
           None \<Rightarrow> None
         | Some (Inl e) \<Rightarrow> Some (Inl e, s0)
         | Some (Inr order) \<Rightarrow>
             Some (if length order \<noteq> length (sn_records sn) then
                 (Inl (RuntimeError ''restore refused: persisted provenance graph contains a cycle''), s0)
               else case insert_all order s0 of
                   (Inl e, s1) \<Rightarrow> (Inl e, s1)
                 | (Inr u, s1) \<Rightarrow>
                     (Inr (), s1\<lparr>st_status := sn_status sn,
                        by_validity := rebuild_by_validity (sn_status sn) (st_records s1)\<rparr>)))"

definition store_digest :: "StoreSnapshot \<Rightarrow> string" where
  "store_digest sn = digest_str (digest_chain
     (concat (map (\<lambda>r. [with_id (subject_id r), with_id (provenance_id r), with_str (derivation_digest r)])
        (sn_records sn))
      @ [with_u64 (of_nat (length (sn_records sn)))]
      @ concat (map (\<lambda>(i, st). [with_id i, with_int (uint (ValidityState_val (rs_validity st))),
            with_str (rs_detail st)]) (Mapping.ordered_entries (sn_status sn)))
      @ [with_u64 (as_epoch (sn_authority sn))])
     0x73746f7265)"

section \<open>Record indexes\<close>

text \<open>
  \<open>indexes keys_of idx recs\<close>: the index holds, under every key, exactly the subjects whose record
  has that key, and no empty entries.  Any insertion code that adds the subject under the keys of
  its record keeps it so; the locale is that contract and its instances are the indexes of the store.
\<close>

definition indexed_under :: "(RecordData \<Rightarrow> 'k set) \<Rightarrow> (StateId, RecordData) mapping \<Rightarrow> 'k \<Rightarrow> StateId set" where
  "indexed_under keys_of recs k = {i. \<exists>r. Mapping.lookup recs i = Some r \<and> k \<in> keys_of r}"

definition indexes :: "(RecordData \<Rightarrow> 'k set) \<Rightarrow> ('k, StateId set) mapping \<Rightarrow>
    (StateId, RecordData) mapping \<Rightarrow> bool" where
  "indexes keys_of idx recs \<longleftrightarrow> (\<forall>k. Mapping.lookup idx k =
     (if indexed_under keys_of recs k = {} then None else Some (indexed_under keys_of recs k)))"

locale record_index =
  fixes add :: "RecordData \<Rightarrow> StateId \<Rightarrow> ('k, StateId set) mapping \<Rightarrow> ('k, StateId set) mapping"
    and keys_of :: "RecordData \<Rightarrow> 'k set"
  assumes add_lookup: "Mapping.lookup (add d i idx) k =
    (if k \<in> keys_of d then Some (insert i (set_at idx k)) else Mapping.lookup idx k)"
begin

lemma indexes_empty: "indexes keys_of Mapping.empty Mapping.empty"
  by (simp add: indexes_def indexed_under_def)

lemma set_at_indexes: "indexes keys_of idx recs \<Longrightarrow> set_at idx k = indexed_under keys_of recs k"
  by (simp add: indexes_def set_at_def)

lemma indexes_add:
  assumes "indexes keys_of idx recs" "i \<notin> Mapping.keys recs"
  shows "indexes keys_of (add d i idx) (Mapping.update i d recs)"
proof -
  have "Mapping.lookup recs i = None" using assms(2) by (simp add: lookup_None_iff)
  then have "indexed_under keys_of (Mapping.update i d recs) k
      = (if k \<in> keys_of d then insert i (indexed_under keys_of recs k) else indexed_under keys_of recs k)" for k
    by (auto simp: indexed_under_def lookup_update')
  with assms(1) show ?thesis
    by (simp add: indexes_def add_lookup set_at_indexes [OF assms(1)])
qed

lemma indexes_unique: "indexes keys_of idx recs \<Longrightarrow> indexes keys_of idx' recs \<Longrightarrow> idx = idx'"
  by (rule mapping_eqI) (simp add: indexes_def)

lemma query_exact:
  "indexes keys_of idx recs \<Longrightarrow> index_query idx k = sorted_list_of_set (indexed_under keys_of recs k)"
  by (simp add: index_query_def indexes_def)

end

definition id_key :: "'tag ScalarIdentifier \<Rightarrow> 'tag ScalarIdentifier set" where
  "id_key k = {i. i = k \<and> valid i}"

definition dependency_keys :: "RecordData \<Rightarrow> DependencyId set" where
  "dependency_keys d = {k. k \<in> dep_id ` set (dependencies d) \<and> valid k}"

lemma index_id_lookup:
  "Mapping.lookup (index_id k' i idx) k =
    (if k \<in> id_key k' then Some (insert i (set_at idx k)) else Mapping.lookup idx k)"
  by (auto simp: index_id_def id_key_def insert_at_def lookup_update')

lemma insert_at_lookup:
  "Mapping.lookup (insert_at k' i idx) k =
    (if k \<in> {k'} then Some (insert i (set_at idx k)) else Mapping.lookup idx k)"
  by (auto simp: insert_at_def lookup_update')

lemma set_at_lookup_eq: "Mapping.lookup m k = Mapping.lookup m' k \<Longrightarrow> set_at m k = set_at m' k"
  by (simp add: set_at_def)

lemma index_dependencies_lookup:
  "Mapping.lookup (index_dependencies ds i idx) k =
    (if k \<in> {k. k \<in> dep_id ` set ds \<and> valid k} then Some (insert i (set_at idx k))
     else Mapping.lookup idx k)"
proof (induction ds arbitrary: idx)
  case (Cons d ds)
  have "insert i (set_at (index_id (dep_id d) i idx) k) = insert i (set_at idx k)"
    by (auto simp: index_id_def)
  with Cons [of "index_id (dep_id d) i idx"] show ?case
    by (auto simp: index_id_lookup id_key_def)
qed simp

interpretation model_index: record_index "\<lambda>d. index_id (model_id d)" "\<lambda>d. id_key (model_id d)"
  by unfold_locales (simp add: index_id_lookup)

interpretation adapter_index: record_index "\<lambda>d. index_id (adapter_id d)" "\<lambda>d. id_key (adapter_id d)"
  by unfold_locales (simp add: index_id_lookup)

interpretation producer_index: record_index "\<lambda>d. index_id (producer_id d)" "\<lambda>d. id_key (producer_id d)"
  by unfold_locales (simp add: index_id_lookup)

interpretation execution_index: record_index "\<lambda>d. index_id (execution_id d)" "\<lambda>d. id_key (execution_id d)"
  by unfold_locales (simp add: index_id_lookup)

interpretation attempt_index: record_index "\<lambda>d. index_id (attempt_id d)" "\<lambda>d. id_key (attempt_id d)"
  by unfold_locales (simp add: index_id_lookup)

interpretation artifact_index: record_index "\<lambda>d. index_id (artifact_generation d)"
  "\<lambda>d. id_key (artifact_generation d)"
  by unfold_locales (simp add: index_id_lookup)

interpretation evidence_index: record_index "\<lambda>d. insert_at (evidence d)" "\<lambda>d. {evidence d}"
  by unfold_locales (simp add: insert_at_lookup)

interpretation dependency_index: record_index "\<lambda>d. index_dependencies (dependencies d)" dependency_keys
  by unfold_locales (simp add: index_dependencies_lookup dependency_keys_def)

section \<open>The store invariant\<close>

definition record_parents :: "(ProvenanceId, StateId) mapping \<Rightarrow> RecordData \<Rightarrow> StateId set" where
  "record_parents prov r = set (input_states r)
     \<union> {i. \<exists>p. p \<in> set (parent_provenance r) \<and> Mapping.lookup prov p = Some i}"

definition records_wf :: "(StateId, RecordData) mapping \<Rightarrow> (ProvenanceId, StateId) mapping \<Rightarrow> bool" where
  "records_wf recs prov \<longleftrightarrow>
     (\<forall>i r. Mapping.lookup recs i = Some r \<longrightarrow> subject_id r = i \<and> record_ok r
        \<and> set (input_states r) \<subseteq> Mapping.keys recs \<and> set (parent_provenance r) \<subseteq> Mapping.keys prov)
     \<and> (\<forall>p i. Mapping.lookup prov p = Some i \<longleftrightarrow>
          (\<exists>r. Mapping.lookup recs i = Some r \<and> provenance_id r = p))"

definition derivation_edges :: "(StateId, RecordData) mapping \<Rightarrow> (ProvenanceId, StateId) mapping \<Rightarrow>
    (StateId \<times> StateId) set" where
  "derivation_edges recs prov = {(p, i). \<exists>r. Mapping.lookup recs i = Some r \<and> p \<in> record_parents prov r}"

definition graph_agrees :: "ProvenanceGraph \<Rightarrow> (StateId, RecordData) mapping \<Rightarrow>
    (ProvenanceId, StateId) mapping \<Rightarrow> bool" where
  "graph_agrees g recs prov \<longleftrightarrow>
     graph_inv g \<and> g_nodes g = Mapping.keys recs \<and> edges g = derivation_edges recs prov"

definition indexes_ok :: "ProvenanceStore \<Rightarrow> bool" where
  "indexes_ok s \<longleftrightarrow>
     indexes (\<lambda>d. id_key (model_id d)) (by_model s) (st_records s)
     \<and> indexes (\<lambda>d. id_key (adapter_id d)) (by_adapter s) (st_records s)
     \<and> indexes (\<lambda>d. id_key (producer_id d)) (by_producer s) (st_records s)
     \<and> indexes (\<lambda>d. id_key (execution_id d)) (by_execution s) (st_records s)
     \<and> indexes (\<lambda>d. id_key (attempt_id d)) (by_attempt s) (st_records s)
     \<and> indexes dependency_keys (by_dependency s) (st_records s)
     \<and> indexes (\<lambda>d. id_key (artifact_generation d)) (by_artifact s) (st_records s)
     \<and> indexes (\<lambda>d. {evidence d}) (by_evidence s) (st_records s)"

definition with_validity :: "(StateId, RecordStatus) mapping \<Rightarrow> ValidityState \<Rightarrow> StateId set" where
  "with_validity status v = {i. \<exists>st. Mapping.lookup status i = Some st \<and> rs_validity st = v}"

definition record_workers :: "(StateId, RecordData) mapping \<Rightarrow> WorkerId set" where
  "record_workers recs = {w. valid w \<and> (\<exists>i r. Mapping.lookup recs i = Some r \<and> worker_id r = w)}"

definition store_inv :: "ProvenanceStore \<Rightarrow> bool" where
  "store_inv s \<longleftrightarrow>
     records_wf (st_records s) (prov_to_state s)
     \<and> graph_agrees (st_graph s) (st_records s) (prov_to_state s)
     \<and> Mapping.keys (st_status s) = Mapping.keys (st_records s)
     \<and> indexes_ok s
     \<and> (\<forall>v. set_at (by_validity s) v = with_validity (st_status s) v)
     \<and> record_workers (st_records s) \<subseteq> st_workers s
     \<and> st_workers s \<subseteq> record_workers (st_records s) \<union> Mapping.keys (a_boot (st_authority s))"

lemma records_wfD:
  assumes "records_wf recs prov"
  shows "Mapping.lookup recs i = Some r \<Longrightarrow> subject_id r = i"
    and "Mapping.lookup recs i = Some r \<Longrightarrow> record_ok r"
    and "Mapping.lookup recs i = Some r \<Longrightarrow> set (input_states r) \<subseteq> Mapping.keys recs"
    and "Mapping.lookup recs i = Some r \<Longrightarrow> set (parent_provenance r) \<subseteq> Mapping.keys prov"
    and "Mapping.lookup prov p = Some i \<longleftrightarrow> (\<exists>r. Mapping.lookup recs i = Some r \<and> provenance_id r = p)"
  using assms unfolding records_wf_def by blast+

lemma resolved_in_records:
  assumes "records_wf recs prov" "Mapping.lookup prov p = Some i"
  shows "i \<in> Mapping.keys recs"
  using assms(2) unfolding records_wfD(5) [OF assms(1)] by (auto intro: lookup_in_keys)

lemma record_parents_known:
  assumes "records_wf recs prov" "Mapping.lookup recs i = Some r"
  shows "record_parents prov r \<subseteq> Mapping.keys recs"
  using records_wfD(3) [OF assms] resolved_in_records [OF assms(1)]
  unfolding record_parents_def by blast

section \<open>Inserting a record\<close>

lemma add_arc_succeeds:
  assumes "graph_inv g" "p \<in> g_nodes g" "c \<in> g_nodes g" "p \<noteq> c" "(p, c) \<notin> edges g"
    "(c, p) \<notin> (edges g)\<^sup>+"
  shows "\<exists>g'. add_arc p c g = Inr g'"
proof -
  have "valid p" "valid c" using assms by (auto simp: graph_inv_def graph_wf_def not_valid_iff)
  with assms show ?thesis
    by (simp add: add_arc_def has_node_def would_create_cycle_iff children_edges)
qed

lemma add_arcs_succeeds:
  assumes "graph_inv g" "set ps \<subseteq> g_nodes g" "c \<in> g_nodes g" "c \<notin> set ps" "distinct ps"
    and "\<And>p. p \<in> set ps \<Longrightarrow> (p, c) \<notin> edges g" and "\<And>x. (c, x) \<notin> edges g"
  shows "\<exists>g'. add_arcs ps c g = (None, g') \<and> graph_inv g' \<and> g_nodes g' = g_nodes g
    \<and> edges g' = edges g \<union> set ps \<times> {c}"
  using assms
proof (induction ps arbitrary: g)
  case (Cons p ps)
  have "(c, p) \<notin> (edges g)\<^sup>+" using Cons.prems(7) by (auto dest: tranclD)
  then obtain g1 where g1: "add_arc p c g = Inr g1"
    using add_arc_succeeds [of g p c] Cons.prems by auto
  note facts = add_arc_Inr [OF g1]
  have "\<exists>g'. add_arcs ps c g1 = (None, g') \<and> graph_inv g' \<and> g_nodes g' = g_nodes g1
      \<and> edges g' = edges g1 \<union> set ps \<times> {c}"
    by (rule Cons.IH) (use Cons.prems facts add_arc_inv [OF Cons.prems(1) g1] in auto)
  then show ?case using g1 facts by auto
qed simp

lemma resolve_parents_result:
  "set ps \<subseteq> Mapping.keys prov \<Longrightarrow> resolve_parents prov ps acc =
    Inr (acc \<union> {i. \<exists>p. p \<in> set ps \<and> Mapping.lookup prov p = Some i})"
  by (induction ps arbitrary: acc) (auto simp: lookup_Some_iff)

lemma find_None_subset: "find (\<lambda>i. i \<notin> A) xs = None \<longleftrightarrow> set xs \<subseteq> A"
  by (auto simp: find_None_iff)

definition insertable :: "RecordData \<Rightarrow> ProvenanceStore \<Rightarrow> bool" where
  "insertable d s \<longleftrightarrow> subject_id d \<notin> Mapping.keys (st_records s)
     \<and> provenance_id d \<notin> Mapping.keys (prov_to_state s)
     \<and> set (input_states d) \<subseteq> Mapping.keys (st_records s)
     \<and> set (parent_provenance d) \<subseteq> Mapping.keys (prov_to_state s)"

definition insertion_error :: "RecordData \<Rightarrow> ProvenanceStore \<Rightarrow> string" where
  "insertion_error d s =
     (if subject_id d \<in> Mapping.keys (st_records s) then ''duplicate StateId '' @ to_string (subject_id d)
      else if provenance_id d \<in> Mapping.keys (prov_to_state s)
        then ''duplicate ProvenanceId '' @ to_string (provenance_id d)
      else case find (\<lambda>i. i \<notin> Mapping.keys (st_records s)) (input_states d) of
        Some i \<Rightarrow> ''dangling input_state '' @ to_string i @ '' (parents must exist)''
      | None \<Rightarrow>
        (case find (\<lambda>p. p \<notin> Mapping.keys (prov_to_state s)) (parent_provenance d) of
           Some p \<Rightarrow> ''dangling parent_provenance '' @ to_string p
         | None \<Rightarrow> []))"

lemma insert_refused:
  "\<not> insertable d s \<Longrightarrow> insert_validated d s = (Inr (failure (insertion_error d s)), s)"
  unfolding insertable_def insert_validated_def insertion_error_def find_None_subset [symmetric]
  by (auto split: option.split)

lemma insert_accepted:
  assumes inv: "graph_agrees (st_graph s) (st_records s) (prov_to_state s)"
    and wf: "records_wf (st_records s) (prov_to_state s)"
    and ok: "record_ok d" and ins: "insertable d s"
  shows "\<exists>g'. insert_validated d s = (Inr \<lparr>po_ok = True, po_error = [], po_record = Some d\<rparr>,
      store_record d (s\<lparr>st_graph := g'\<rparr>))
    \<and> graph_inv g' \<and> g_nodes g' = insert (subject_id d) (Mapping.keys (st_records s))
    \<and> edges g' = edges (st_graph s) \<union> record_parents (prov_to_state s) d \<times> {subject_id d}"
proof -
  let ?i = "subject_id d" and ?g = "st_graph s"
  let ?ps = "record_parents (prov_to_state s) d"
  have g: "graph_inv ?g" "g_nodes ?g = Mapping.keys (st_records s)"
    using inv by (simp_all add: graph_agrees_def)
  have v: "valid ?i" using ok by (simp add: record_ok_def)
  then obtain b g1 where g1: "add_node ?i ?g = Inr (b, g1)"
    unfolding add_node_def by (cases "?i \<in> g_nodes ?g") auto
  note node = add_node_Inr [OF g1]
  have inv1: "graph_inv g1" using g(1) g1 by (rule add_node_inv)
  have new: "?i \<notin> g_nodes ?g" using ins g by (simp add: insertable_def)
  have no_edge: "(?i, x) \<notin> edges g1" "(x, ?i) \<notin> edges g1" for x
    using graph_wf_edges [of ?g ?i x] graph_wf_edges [of ?g x ?i] g(1) new node
    by (auto simp: graph_inv_def)
  have res: "resolve_parents (prov_to_state s) (parent_provenance d) (set (input_states d)) = Inr ?ps"
    using resolve_parents_result [of "parent_provenance d" "prov_to_state s" "set (input_states d)"] ins
    by (simp add: insertable_def record_parents_def)
  have ps: "?ps \<subseteq> g_nodes ?g"
    using ins resolved_in_records [OF wf] unfolding g(2) insertable_def record_parents_def by blast
  have "\<exists>g'. add_arcs (sorted_list_of_set ?ps) ?i g1 = (None, g') \<and> graph_inv g'
      \<and> g_nodes g' = g_nodes g1 \<and> edges g' = edges g1 \<union> set (sorted_list_of_set ?ps) \<times> {?i}"
  proof (rule add_arcs_succeeds [OF inv1])
    show "set (sorted_list_of_set ?ps) \<subseteq> g_nodes g1" using ps node by simp blast
    show "?i \<notin> set (sorted_list_of_set ?ps)" using ps new by simp blast
  qed (use node no_edge in simp_all)
  then obtain g' where g': "add_arcs (sorted_list_of_set ?ps) ?i g1 = (None, g')" "graph_inv g'"
    "g_nodes g' = g_nodes g1" "edges g' = edges g1 \<union> ?ps \<times> {?i}" by auto
  have find: "find (\<lambda>i. i \<notin> Mapping.keys (st_records s)) (input_states d) = None"
    "find (\<lambda>p. p \<notin> Mapping.keys (prov_to_state s)) (parent_provenance d) = None"
    using ins by (auto simp: insertable_def find_None_subset)
  have "insert_validated d s = (Inr \<lparr>po_ok = True, po_error = [], po_record = Some d\<rparr>,
      store_record d (s\<lparr>st_graph := g'\<rparr>))"
    using ins unfolding insert_validated_def find g1 insertable_def
    by (simp add: res g'(1))
  then show ?thesis using g' node g(2) by auto
qed


text \<open>The invariant over a successful insertion, one conjunct at a time.\<close>

lemma store_record_fields [simp]:
  "st_records (store_record d s) = Mapping.update (subject_id d) d (st_records s)"
  "prov_to_state (store_record d s) = Mapping.update (provenance_id d) (subject_id d) (prov_to_state s)"
  "st_graph (store_record d s) = st_graph s"
  "st_status (store_record d s) = Mapping.update (subject_id d) (status_of_record d) (st_status s)"
  "st_authority (store_record d s) = st_authority s"
  "st_runtime_generation (store_record d s) = st_runtime_generation s"
  "st_workers (store_record d s) =
    (if valid (worker_id d) then insert (worker_id d) (st_workers s) else st_workers s)"
  "by_model (store_record d s) = index_id (model_id d) (subject_id d) (by_model s)"
  "by_adapter (store_record d s) = index_id (adapter_id d) (subject_id d) (by_adapter s)"
  "by_producer (store_record d s) = index_id (producer_id d) (subject_id d) (by_producer s)"
  "by_execution (store_record d s) = index_id (execution_id d) (subject_id d) (by_execution s)"
  "by_attempt (store_record d s) = index_id (attempt_id d) (subject_id d) (by_attempt s)"
  "by_dependency (store_record d s) = index_dependencies (dependencies d) (subject_id d) (by_dependency s)"
  "by_artifact (store_record d s) = index_id (artifact_generation d) (subject_id d) (by_artifact s)"
  "by_validity (store_record d s) = insert_at (validity d) (subject_id d) (by_validity s)"
  "by_evidence (store_record d s) = insert_at (evidence d) (subject_id d) (by_evidence s)"
  by (simp_all add: store_record_def index_insert_def Let_def)

lemma indexes_ok_store_record:
  assumes "indexes_ok s" "subject_id d \<notin> Mapping.keys (st_records s)"
  shows "indexes_ok (store_record d s)"
  using assms unfolding indexes_ok_def store_record_fields
  by (simp add: model_index.indexes_add adapter_index.indexes_add producer_index.indexes_add
      execution_index.indexes_add attempt_index.indexes_add dependency_index.indexes_add
      artifact_index.indexes_add evidence_index.indexes_add)

lemma records_wf_update:
  assumes wf: "records_wf recs prov" and ok: "record_ok d"
    and new: "subject_id d \<notin> Mapping.keys recs" "provenance_id d \<notin> Mapping.keys prov"
    and refs: "set (input_states d) \<subseteq> Mapping.keys recs" "set (parent_provenance d) \<subseteq> Mapping.keys prov"
  shows "records_wf (Mapping.update (subject_id d) d recs)
    (Mapping.update (provenance_id d) (subject_id d) prov)"
  unfolding records_wf_def
proof (intro conjI allI impI)
  fix i r assume l: "Mapping.lookup (Mapping.update (subject_id d) d recs) i = Some r"
  have "r = d \<and> i = subject_id d \<or> Mapping.lookup recs i = Some r"
    using l by (auto simp: lookup_update' split: if_splits)
  then show "subject_id r = i" "record_ok r"
    "set (input_states r) \<subseteq> Mapping.keys (Mapping.update (subject_id d) d recs)"
    "set (parent_provenance r) \<subseteq> Mapping.keys (Mapping.update (provenance_id d) (subject_id d) prov)"
    using ok refs records_wfD(1-4) [OF wf, of i r] by auto
next
  fix p i
  have none: "Mapping.lookup recs (subject_id d) = None" "Mapping.lookup prov (provenance_id d) = None"
    using new by (simp_all add: lookup_None_iff)
  show "Mapping.lookup (Mapping.update (provenance_id d) (subject_id d) prov) p = Some i \<longleftrightarrow>
      (\<exists>r. Mapping.lookup (Mapping.update (subject_id d) d recs) i = Some r \<and> provenance_id r = p)"
    using records_wfD(5) [OF wf, of p i] records_wfD(5) [OF wf, of "provenance_id d" i] none
    by (auto simp: lookup_update')
qed

lemma record_parents_update:
  assumes "provenance_id d \<notin> Mapping.keys prov" "set (parent_provenance r) \<subseteq> Mapping.keys prov"
  shows "record_parents (Mapping.update (provenance_id d) i prov) r = record_parents prov r"
  using assms by (auto simp: record_parents_def lookup_update')

lemma derivation_edges_update:
  assumes wf: "records_wf recs prov" and new: "subject_id d \<notin> Mapping.keys recs"
    "provenance_id d \<notin> Mapping.keys prov" and refs: "set (parent_provenance d) \<subseteq> Mapping.keys prov"
  shows "derivation_edges (Mapping.update (subject_id d) d recs)
      (Mapping.update (provenance_id d) (subject_id d) prov)
    = derivation_edges recs prov \<union> record_parents prov d \<times> {subject_id d}"
proof -
  have none: "Mapping.lookup recs (subject_id d) = None" using new by (simp add: lookup_None_iff)
  have old: "record_parents (Mapping.update (provenance_id d) (subject_id d) prov) r = record_parents prov r"
    if "Mapping.lookup recs i = Some r" for i r
    using record_parents_update [OF new(2) records_wfD(4) [OF wf that]] .
  have self: "record_parents (Mapping.update (provenance_id d) (subject_id d) prov) d = record_parents prov d"
    by (rule record_parents_update [OF new(2) refs])
  show ?thesis
  proof (rule set_eqI, clarify)
    fix p i
    show "(p, i) \<in> derivation_edges (Mapping.update (subject_id d) d recs)
          (Mapping.update (provenance_id d) (subject_id d) prov) \<longleftrightarrow>
        (p, i) \<in> derivation_edges recs prov \<union> record_parents prov d \<times> {subject_id d}"
      using none self old [of i] by (cases "i = subject_id d") (auto simp: derivation_edges_def lookup_update')
  qed
qed

lemma ex_lookup_update:
  assumes "Mapping.lookup m k = None"
  shows "(\<exists>i r. Mapping.lookup (Mapping.update k d m) i = Some r \<and> Q r)
    \<longleftrightarrow> Q d \<or> (\<exists>i r. Mapping.lookup m i = Some r \<and> Q r)"
proof
  assume "Q d \<or> (\<exists>i r. Mapping.lookup m i = Some r \<and> Q r)"
  then show "\<exists>i r. Mapping.lookup (Mapping.update k d m) i = Some r \<and> Q r"
    using assms by (metis lookup_update' option.distinct(1))
qed (auto simp: lookup_update' split: if_splits)

lemma insert_validated_inv:
  assumes inv: "store_inv s" and ok: "record_ok d" and ins: "insertable d s"
  shows "\<exists>g'. insert_validated d s = (Inr \<lparr>po_ok = True, po_error = [], po_record = Some d\<rparr>,
      store_record d (s\<lparr>st_graph := g'\<rparr>)) \<and> store_inv (store_record d (s\<lparr>st_graph := g'\<rparr>))"
proof -
  have wf: "records_wf (st_records s) (prov_to_state s)"
    and ga: "graph_agrees (st_graph s) (st_records s) (prov_to_state s)"
    and st: "Mapping.keys (st_status s) = Mapping.keys (st_records s)"
    and val: "\<And>v. set_at (by_validity s) v = with_validity (st_status s) v"
    and idx: "indexes_ok s"
    using inv by (simp_all add: store_inv_def)
  have new: "subject_id d \<notin> Mapping.keys (st_records s)" "provenance_id d \<notin> Mapping.keys (prov_to_state s)"
    and refs: "set (input_states d) \<subseteq> Mapping.keys (st_records s)"
      "set (parent_provenance d) \<subseteq> Mapping.keys (prov_to_state s)"
    using ins by (simp_all add: insertable_def)
  from insert_accepted [OF ga wf ok ins] obtain g' where
    r: "insert_validated d s = (Inr \<lparr>po_ok = True, po_error = [], po_record = Some d\<rparr>,
      store_record d (s\<lparr>st_graph := g'\<rparr>))"
    and g': "graph_inv g'" "g_nodes g' = insert (subject_id d) (Mapping.keys (st_records s))"
      "edges g' = edges (st_graph s) \<union> record_parents (prov_to_state s) d \<times> {subject_id d}" by blast
  have ga': "graph_agrees g' (Mapping.update (subject_id d) d (st_records s))
      (Mapping.update (provenance_id d) (subject_id d) (prov_to_state s))"
    using g' ga derivation_edges_update [OF wf new refs(2)] by (simp add: graph_agrees_def)
  have none: "Mapping.lookup (st_status s) (subject_id d) = None" "Mapping.lookup (st_records s) (subject_id d) = None"
    using new st by (simp_all add: lookup_None_iff)
  have val': "set_at (insert_at (validity d) (subject_id d) (by_validity s)) v
      = with_validity (Mapping.update (subject_id d) (status_of_record d) (st_status s)) v" for v
    using val none by (auto simp: with_validity_def lookup_update' status_of_record_def)
  have workers: "record_workers (Mapping.update (subject_id d) d (st_records s))
      = record_workers (st_records s) \<union> {w. w = worker_id d \<and> valid w}"
    unfolding record_workers_def ex_lookup_update [OF none(2)] by blast
  have idx': "indexes_ok (store_record d (s\<lparr>st_graph := g'\<rparr>))"
    by (rule indexes_ok_store_record) (use idx new in \<open>simp_all add: indexes_ok_def\<close>)
  have "store_inv (store_record d (s\<lparr>st_graph := g'\<rparr>))"
    using inv ga' idx' val' workers records_wf_update [OF wf ok new refs] st
    unfolding store_inv_def store_record_fields by auto
  with r show ?thesis by blast
qed

lemma store_inv_empty: "store_inv empty_store"
proof -
  have "records_wf Mapping.empty Mapping.empty" by (simp add: records_wf_def)
  moreover have "graph_agrees empty_graph Mapping.empty Mapping.empty"
    using graph_inv_empty by (simp add: graph_agrees_def derivation_edges_def) (simp add: empty_graph_def)
  moreover have "indexes_ok empty_store"
    by (simp add: indexes_ok_def empty_store_def indexes_def indexed_under_def)
  ultimately show ?thesis
    by (simp add: store_inv_def empty_store_def with_validity_def record_workers_def initial_authority_def)
qed

lemma publish_validated_cases:
  assumes "store_inv s"
  shows "(\<exists>msg. publish_validated d s = (Inr (failure msg), s) \<and> \<not> (record_ok d \<and> insertable d s))
    \<or> (\<exists>g'. publish_validated d s = (Inr \<lparr>po_ok = True, po_error = [], po_record = Some d\<rparr>,
          store_record d (s\<lparr>st_graph := g'\<rparr>)) \<and> store_inv (store_record d (s\<lparr>st_graph := g'\<rparr>))
          \<and> record_ok d \<and> insertable d s)"
proof (cases "validate_record d")
  case None
  then have ok: "record_ok d" by (simp add: validate_record_None_iff)
  show ?thesis
  proof (cases "insertable d s")
    case True
    with insert_validated_inv [OF assms ok True] None ok show ?thesis by (auto simp: publish_validated_def)
  next
    case False
    with None insert_refused [OF False] show ?thesis by (auto simp: publish_validated_def)
  qed
next
  case (Some err)
  then have "\<not> record_ok d" using validate_record_None_iff by (metis option.distinct(1))
  with Some show ?thesis by (auto simp: publish_validated_def)
qed

section \<open>Invalidation on the store\<close>

definition invalidated_status ::
  "InvalidatingSubject \<Rightarrow> InvalidationResult \<Rightarrow> StateId \<Rightarrow> RecordStatus \<Rightarrow> RecordStatus" where
  "invalidated_status subj res i st =
     (let root = Mapping.lookup_default i (root_of res) i
      in st\<lparr>rs_validity := VS_INVALIDATED,
            rs_reason := Mapping.lookup_default (inv_reason subj) (root_reason res) root,
            rs_detail :=
              if i = inv_subject subj then
                if inv_detail subj = [] then ''invalidated by operator'' else inv_detail subj
              else ''invalidated because it transitively depends on '' @ to_string root\<rparr>)"

lemma rs_validity_invalidated [simp]: "rs_validity (invalidated_status subj res i st) = VS_INVALIDATED"
  by (simp add: invalidated_status_def Let_def)

lemma invalidate_one_status:
  "st_status (invalidate_one subj res i s) =
    Mapping.update i (invalidated_status subj res i (Mapping.lookup_default default_status (st_status s) i))
      (st_status s)"
  by (simp add: invalidate_one_def invalidated_status_def Let_def)

lemma invalidate_one_frame:
  "invalidate_one subj res i s = s\<lparr>st_status := st_status (invalidate_one subj res i s),
     by_validity := by_validity (invalidate_one subj res i s)\<rparr>"
  by (simp add: invalidate_one_def Let_def)

lemma invalidate_one_validity:
  assumes "\<And>v. set_at (by_validity s) v = with_validity (st_status s) v"
  shows "set_at (by_validity (invalidate_one subj res i s)) v
    = with_validity (st_status (invalidate_one subj res i s)) v"
proof -
  have new: "with_validity (st_status (invalidate_one subj res i s)) v =
      (if v = VS_INVALIDATED then insert i (with_validity (st_status s) v)
       else with_validity (st_status s) v - {i})"
    by (auto simp: invalidate_one_status with_validity_def lookup_update')
  define oldv where
    "oldv = (case Mapping.lookup (st_status s) i of None \<Rightarrow> VS_VALID | Some st \<Rightarrow> rs_validity st)"
  have only: "i \<in> with_validity (st_status s) v \<Longrightarrow> v = oldv" for v
    by (auto simp: with_validity_def oldv_def)
  have idx: "by_validity (invalidate_one subj res i s) =
      (if oldv \<noteq> VS_INVALIDATED then insert_at VS_INVALIDATED i (erase_at oldv i (by_validity s))
       else by_validity s)"
    by (simp add: invalidate_one_def Let_def oldv_def)
  show ?thesis
  proof (cases "oldv = VS_INVALIDATED")
    case True
    then have "i \<in> with_validity (st_status s) VS_INVALIDATED"
      by (auto simp: oldv_def with_validity_def split: option.splits)
    with True only [of v] show ?thesis by (auto simp: idx new assms)
  next
    case False
    with only [of v] show ?thesis by (auto simp: idx new assms)
  qed
qed

lemma invalidate_fold:
  fixes subj res
  assumes "distinct ids" "\<And>v. set_at (by_validity s) v = with_validity (st_status s) v"
  defines "s' \<equiv> fold (invalidate_one subj res) ids s"
  shows "s' = s\<lparr>st_status := st_status s', by_validity := by_validity s'\<rparr>
    \<and> (\<forall>v. set_at (by_validity s') v = with_validity (st_status s') v)
    \<and> (\<forall>j. Mapping.lookup (st_status s') j =
        (if j \<in> set ids then Some (invalidated_status subj res j
            (Mapping.lookup_default default_status (st_status s) j))
         else Mapping.lookup (st_status s) j))"
  using assms(1,2) unfolding s'_def
proof (induction ids arbitrary: s)
  case (Cons i ids)
  let ?s = "invalidate_one subj res i s"
  have val: "\<And>v. set_at (by_validity ?s) v = with_validity (st_status ?s) v"
    using Cons.prems(2) by (rule invalidate_one_validity)
  have d: "distinct ids" "i \<notin> set ids" using Cons.prems(1) by simp_all
  define t where "t = fold (invalidate_one subj res) ids ?s"
  have IH: "t = ?s\<lparr>st_status := st_status t, by_validity := by_validity t\<rparr>"
    "\<forall>v. set_at (by_validity t) v = with_validity (st_status t) v"
    "\<forall>j. Mapping.lookup (st_status t) j =
        (if j \<in> set ids then Some (invalidated_status subj res j
            (Mapping.lookup_default default_status (st_status ?s) j))
         else Mapping.lookup (st_status ?s) j)"
    using Cons.IH [OF d(1) val] unfolding t_def by blast+
  have frame: "t = s\<lparr>st_status := st_status t, by_validity := by_validity t\<rparr>"
    by (subst IH(1), subst invalidate_one_frame) simp
  have look: "Mapping.lookup_default default_status (st_status ?s) j
      = Mapping.lookup_default default_status (st_status s) j" if "j \<in> set ids" for j
    using that d by (auto simp: invalidate_one_status lookup_default_update')
  have "\<forall>j. Mapping.lookup (st_status t) j =
        (if j \<in> set (i # ids) then Some (invalidated_status subj res j
            (Mapping.lookup_default default_status (st_status s) j))
         else Mapping.lookup (st_status s) j)"
    using IH(3) look d(2) by (auto simp: invalidate_one_status lookup_update')
  with frame IH(2) show ?case by (simp add: t_def [symmetric])
qed simp

lemma reachable_known:
  assumes ga: "graph_agrees g recs prov" and mem: "i \<in> Mapping.keys recs"
  shows "(edges g)\<^sup>* `` {i} \<subseteq> Mapping.keys recs"
proof -
  have step: "y \<in> Mapping.keys recs" if "(x, y) \<in> edges g" for x y
    using ga that by (auto simp: graph_agrees_def graph_inv_def graph_wf_def)
  have "y \<in> Mapping.keys recs" if "(i, y) \<in> (edges g)\<^sup>*" for y
    using that by (rule rtranclE) (use mem step in auto)
  then show ?thesis by blast
qed

lemma invalidate_result:
  assumes inv: "store_inv s" and mem: "inv_subject subj \<in> Mapping.keys (st_records s)"
  shows "\<exists>res s'. invalidate subj s = Some (\<lparr>io_ok = True, io_error = [], io_result = res\<rparr>, s')
    \<and> propagate_invalidation (st_graph s) [subj] = Some res
    \<and> s' = s\<lparr>st_status := st_status s', by_validity := by_validity s'\<rparr> \<and> store_inv s'
    \<and> (\<forall>j. Mapping.lookup (st_status s') j =
        (if (inv_subject subj, j) \<in> (edges (st_graph s))\<^sup>*
         then Some (invalidated_status subj res j (Mapping.lookup_default default_status (st_status s) j))
         else Mapping.lookup (st_status s) j))"
proof -
  obtain res where res: "propagate_invalidation (st_graph s) [subj] = Some res"
    using propagate_result [of "st_graph s" "[subj]"] by blast
  have set: "set (affected res) = (edges (st_graph s))\<^sup>* `` {inv_subject subj}"
    by (simp add: set_affected [OF res] root_set_def)
  have "distinct (affected res)" by (simp add: propagate_affected [OF res])
  define s' where "s' = fold (invalidate_one subj res) (affected res) s"
  have val: "\<And>v. set_at (by_validity s) v = with_validity (st_status s) v"
    using inv by (simp add: store_inv_def)
  note f = invalidate_fold [OF \<open>distinct (affected res)\<close> val, of subj res, folded s'_def]
  have ga: "graph_agrees (st_graph s) (st_records s) (prov_to_state s)"
    and st: "Mapping.keys (st_status s) = Mapping.keys (st_records s)"
    using inv by (simp_all add: store_inv_def)
  have known: "set (affected res) \<subseteq> Mapping.keys (st_records s)"
    unfolding set using ga mem by (rule reachable_known)
  have keys: "Mapping.keys (st_status s') = Mapping.keys (st_status s)"
  proof (rule set_eqI)
    fix j show "j \<in> Mapping.keys (st_status s') \<longleftrightarrow> j \<in> Mapping.keys (st_status s)"
      using f known st lookup_Some_iff [of j "st_status s"] by (auto simp: lookup_Some_iff)
  qed
  have s': "s' = s\<lparr>st_status := st_status s', by_validity := by_validity s'\<rparr>" using f by blast
  have fields: "st_records s' = st_records s" "prov_to_state s' = prov_to_state s"
    "st_graph s' = st_graph s" "st_workers s' = st_workers s" "st_authority s' = st_authority s"
    "indexes_ok s' = indexes_ok s"
    by (subst s', simp add: indexes_ok_def)+
  have "store_inv s'"
    using inv f keys unfolding store_inv_def fields by simp
  moreover have "invalidate subj s = Some (\<lparr>io_ok = True, io_error = [], io_result = res\<rparr>, s')"
    using mem res by (simp add: invalidate_def s'_def)
  moreover have "\<forall>j. Mapping.lookup (st_status s') j =
      (if (inv_subject subj, j) \<in> (edges (st_graph s))\<^sup>*
       then Some (invalidated_status subj res j (Mapping.lookup_default default_status (st_status s) j))
       else Mapping.lookup (st_status s) j)"
    using f set by auto
  ultimately show ?thesis using res s' by blast
qed

section \<open>Reuse decisions on the store\<close>

lemma any_with_validity_iff:
  "any_with_validity status v ids \<longleftrightarrow> set ids \<inter> with_validity status v \<noteq> {}"
proof -
  have "fold (\<lambda>i found. case Mapping.lookup status i of
      None \<Rightarrow> found | Some st \<Rightarrow> if rs_validity st = v then True else found) ids b
      \<longleftrightarrow> b \<or> set ids \<inter> with_validity status v \<noteq> {}" for b
    by (induction ids arbitrary: b) (auto simp: with_validity_def split: option.splits)
  then show ?thesis by (simp add: any_with_validity_def)
qed

lemma evaluate_reuse_eligible:
  "d_eligibility (evaluate_reuse r q) = RE_ELIGIBLE \<longleftrightarrow> validity r = VS_VALID \<and> environment_met r q"
  unfolding evaluate_reuse_cases Let_def all_checks_pass [symmetric]
  using no_failure_iff [of "dim_calls r q"] by (cases "validity r") auto

lemma check_reuse_eligible:
  assumes rec: "Mapping.lookup (st_records s) i = Some r"
    and st: "Mapping.lookup (st_status s) i = Some st"
  shows "d_eligibility (check_reuse s i q) = RE_ELIGIBLE \<longleftrightarrow>
    rs_validity st = VS_VALID \<and> validity r = VS_VALID \<and> environment_met r q
    \<and> set (ancestors (st_graph s) i) \<inter>
        (with_validity (st_status s) VS_INVALIDATED \<union> with_validity (st_status s) VS_STALE) = {}"
  using evaluate_reuse_eligible [of r q]
  by (cases "rs_validity st")
    (auto simp: check_reuse_def rec st escalate_def any_with_validity_iff Let_def)

lemma ancestors_edges:
  "graph_agrees g recs prov \<Longrightarrow> set (ancestors g i) = {a. (a, i) \<in> (edges g)\<^sup>+}"
  by (auto simp: graph_agrees_def graph_inv_def set_ancestors trancl_converse)

section \<open>Operations keep the invariant\<close>

lemma publish_validated_inv:
  assumes "store_inv s" "publish_validated d s = (r, s')"
  shows "store_inv s'"
  using publish_validated_cases [OF assms(1), of d] assms by auto

lemma publish_fenced_alt:
  "publish_fenced d c s =
    (if record_ok d \<and> \<not> accepted (evaluate_claim (st_authority s) c)
     then (Inr (failure (''stale authority ['' @ v_dimension (evaluate_claim (st_authority s) c) @ '']: ''
       @ v_detail (evaluate_claim (st_authority s) c))), s)
     else publish_validated d s)"
  by (cases "validate_record d")
    (auto simp: publish_fenced_def publish_validated_def Let_def validate_record_None_iff [symmetric])

lemma publish_fenced_inv:
  assumes "store_inv s" "publish_fenced d c s = (r, s')"
  shows "store_inv s'"
  using assms publish_validated_inv [OF assms(1)] by (auto simp: publish_fenced_alt split: if_splits)

lemma invalidate_inv:
  assumes "store_inv s" "invalidate subj s = Some (out, s')"
  shows "store_inv s'"
proof (cases "inv_subject subj \<in> Mapping.keys (st_records s)")
  case True
  with invalidate_result [OF assms(1) True] assms show ?thesis by auto
next
  case False
  with assms show ?thesis by (simp add: invalidate_def)
qed

lemma validity_of_with: "validity_of s i = v \<longleftrightarrow>
    i \<in> with_validity (st_status s) v \<or> (v = VS_UNKNOWN \<and> i \<notin> Mapping.keys (st_status s))"
  by (auto simp: validity_of_def with_validity_def lookup_None_iff [symmetric] lookup_Some_iff
      split: option.split)

text \<open>A small store to instantiate the theorems on: subject 2 derived from subject 1.\<close>

definition sample_record :: "u64 \<Rightarrow> u64 \<Rightarrow> StateId list \<Rightarrow> RecordData" where
  "sample_record i p ins = empty_record\<lparr>provenance_id := ScalarIdentifier p,
     provenance_generation := ScalarIdentifier 1, subject_id := ScalarIdentifier i,
     subject_kind := SK_KVState, state_generation := ScalarIdentifier 1,
     producer_id := ScalarIdentifier 1, producer_generation := ScalarIdentifier 1,
     execution_id := ScalarIdentifier 1, model_id := ScalarIdentifier 5, input_states := ins\<rparr>"

definition one_store :: ProvenanceStore where
  "one_store = snd (publish (sample_record 1 11 []) empty_store)"

definition two_store :: ProvenanceStore where
  "two_store = snd (publish (sample_record 2 12 [ScalarIdentifier 1]) one_store)"

lemma one_store_inv: "store_inv one_store"
  unfolding one_store_def publish_def
  by (rule publish_validated_inv [OF store_inv_empty]) (rule prod.collapse [symmetric])

lemma two_store_inv: "store_inv two_store"
  unfolding two_store_def publish_def
  by (rule publish_validated_inv [OF one_store_inv]) (rule prod.collapse [symmetric])

lemma two_store_facts:
  "Mapping.lookup (st_records two_store) (ScalarIdentifier 1) = Some (sample_record 1 11 [])"
  "Mapping.lookup (st_records two_store) (ScalarIdentifier 2) =
    Some (sample_record 2 12 [ScalarIdentifier 1])"
  "children (st_graph two_store) (ScalarIdentifier 1) = [ScalarIdentifier 2]"
  unfolding two_store_def one_store_def by code_simp+

lemma two_store_edge: "(ScalarIdentifier 1, ScalarIdentifier 2) \<in> edges (st_graph two_store)"
proof -
  have "ScalarIdentifier 2 \<in> set (children (st_graph two_store) (ScalarIdentifier 1))"
    unfolding two_store_facts by simp
  then show ?thesis by (simp add: children_edges)
qed

lemma one_store_insertable: "record_ok (sample_record 2 12 [ScalarIdentifier 1])"
  "insertable (sample_record 2 12 [ScalarIdentifier 1]) one_store"
  unfolding one_store_def insertable_def by code_simp+


section \<open>Properties\<close>

text \<open>
  C1: publishing is all or nothing.  On a consistent store it never throws; it succeeds exactly
  when the record is well formed, its subject and provenance ids are new and everything it refers
  to is present, and then adds that record, its status, and one arc per distinct parent; otherwise
  it reports an error and changes nothing (the graph rejection path cannot be reached).  Either
  way the store stays consistent: graph, identity map, indexes and status agree with the records.
\<close>

theorem publish_all_or_nothing:
  assumes "store_inv s"
  shows "(case publish d s of (r, s') \<Rightarrow> store_inv s' \<and>
    (if record_ok d \<and> insertable d s then
       r = Inr \<lparr>po_ok = True, po_error = [], po_record = Some d\<rparr>
       \<and> st_records s' = Mapping.update (subject_id d) d (st_records s)
       \<and> st_status s' = Mapping.update (subject_id d) (status_of_record d) (st_status s)
       \<and> edges (st_graph s') =
           edges (st_graph s) \<union> record_parents (prov_to_state s) d \<times> {subject_id d}
       \<and> st_authority s' = st_authority s
     else (\<exists>msg. r = Inr (failure msg)) \<and> s' = s))"
proof (cases "record_ok d \<and> insertable d s")
  case True
  then have ok: "record_ok d" and ins: "insertable d s" by auto
  have ga: "graph_agrees (st_graph s) (st_records s) (prov_to_state s)"
    and wf: "records_wf (st_records s) (prov_to_state s)"
    using assms by (simp_all add: store_inv_def)
  have pub: "publish d s = insert_validated d s"
    using ok by (simp add: publish_def publish_validated_def validate_record_None_iff [symmetric])
  from insert_accepted [OF ga wf ok ins] insert_validated_inv [OF assms ok ins] show ?thesis
    unfolding pub using True by auto
next
  case False
  with publish_validated_cases [OF assms, of d] assms show ?thesis by (auto simp: publish_def)
qed

theorem publish_all_or_nothing_witness:
  "edges (st_graph two_store) = edges (st_graph one_store)
      \<union> record_parents (prov_to_state one_store) (sample_record 2 12 [ScalarIdentifier 1]) \<times> {ScalarIdentifier 2}"
proof -
  have "subject_id (sample_record 2 12 [ScalarIdentifier 1]) = ScalarIdentifier 2"
    by (simp add: sample_record_def)
  with publish_all_or_nothing [OF one_store_inv, of "sample_record 2 12 [ScalarIdentifier 1]"]
  show ?thesis using one_store_insertable by (auto simp: two_store_def split: prod.splits)
qed

text \<open>
  The fenced publish adds exactly the fence: a well-formed record whose claim is refused gives
  the stale-authority error with the failing dimension and leaves the store alone; in every other
  case it is the unfenced publish.
\<close>

theorem publish_fenced_exact:
  "publish_fenced d c s =
    (if record_ok d \<and> \<not> accepted (evaluate_claim (st_authority s) c)
     then (Inr (failure (''stale authority ['' @ v_dimension (evaluate_claim (st_authority s) c) @ '']: ''
       @ v_detail (evaluate_claim (st_authority s) c))), s)
     else publish d s)"
  by (simp add: publish_fenced_alt publish_def)

text \<open>
  C22: invalidating a known subject returns and makes exactly that subject and its descendants
  INVALIDATED; every other status, the records, the graph, the authority and the record indexes
  are untouched, the index by validity follows, and the store stays consistent.  An unknown
  subject is refused without any change.
\<close>

theorem invalidate_exact:
  assumes "store_inv s"
  shows "\<exists>out s'. invalidate subj s = Some (out, s') \<and> store_inv s'
    \<and> io_ok out = (inv_subject subj \<in> Mapping.keys (st_records s))
    \<and> s' = s\<lparr>st_status := st_status s', by_validity := by_validity s'\<rparr>
    \<and> (if inv_subject subj \<in> Mapping.keys (st_records s) then
         {j. Mapping.lookup (st_status s') j \<noteq> Mapping.lookup (st_status s) j}
           \<subseteq> {j. (inv_subject subj, j) \<in> (edges (st_graph s))\<^sup>*}
         \<and> {j. (inv_subject subj, j) \<in> (edges (st_graph s))\<^sup>*}
           \<subseteq> {j. validity_of s' j = VS_INVALIDATED}
       else s' = s)"
proof (cases "inv_subject subj \<in> Mapping.keys (st_records s)")
  case True
  from invalidate_result [OF assms True] obtain res s' where r:
    "invalidate subj s = Some (\<lparr>io_ok = True, io_error = [], io_result = res\<rparr>, s')"
    "s' = s\<lparr>st_status := st_status s', by_validity := by_validity s'\<rparr>" "store_inv s'"
    "\<And>j. Mapping.lookup (st_status s') j =
        (if (inv_subject subj, j) \<in> (edges (st_graph s))\<^sup>*
         then Some (invalidated_status subj res j (Mapping.lookup_default default_status (st_status s) j))
         else Mapping.lookup (st_status s) j)" by blast
  have "validity_of s' j = VS_INVALIDATED" if "(inv_subject subj, j) \<in> (edges (st_graph s))\<^sup>*" for j
    using that by (simp add: validity_of_def r(4))
  moreover have "(inv_subject subj, j) \<in> (edges (st_graph s))\<^sup>*"
    if "Mapping.lookup (st_status s') j \<noteq> Mapping.lookup (st_status s) j" for j
    using that r(4) [of j] by (cases "(inv_subject subj, j) \<in> (edges (st_graph s))\<^sup>*") simp_all
  ultimately show ?thesis using r(1-3) True by (intro exI conjI) auto
next
  case False
  with assms show ?thesis by (simp add: invalidate_def)
qed

theorem invalidate_exact_witness:
  "\<exists>out s'. invalidate (InvalidatingSubject (ScalarIdentifier 1) IR_CorruptState []) two_store = Some (out, s')
    \<and> io_ok out \<and> validity_of s' (ScalarIdentifier 2) = VS_INVALIDATED"
proof -
  let ?subj = "InvalidatingSubject (ScalarIdentifier 1) IR_CorruptState []"
  have k: "inv_subject ?subj \<in> Mapping.keys (st_records two_store)"
    using two_store_facts(1) by (auto intro: lookup_in_keys)
  have "(inv_subject ?subj, ScalarIdentifier 2) \<in> (edges (st_graph two_store))\<^sup>*"
    using two_store_edge by auto
  with invalidate_exact [OF two_store_inv, of ?subj] k show ?thesis by auto
qed

text \<open>
  C9: \<^verbatim>\<open>check_reuse\<close> answers ELIGIBLE exactly when the subject has a record, its live status and
  its recorded validity are VALID, every requested field is met, and no transitive ancestor is
  currently invalidated or stale.
\<close>

theorem check_reuse_eligible_iff:
  assumes "store_inv s"
  shows "d_eligibility (check_reuse s i q) = RE_ELIGIBLE \<longleftrightarrow>
    (\<exists>r. find_record s i = Some r \<and> validity_of s i = VS_VALID \<and> validity r = VS_VALID
      \<and> environment_met r q
      \<and> {a. (a, i) \<in> (edges (st_graph s))\<^sup>+ \<and> validity_of s a \<in> {VS_INVALIDATED, VS_STALE}} = {})"
proof (cases "Mapping.lookup (st_records s) i")
  case None
  then show ?thesis by (simp add: check_reuse_def find_record_def)
next
  case (Some r)
  have ga: "graph_agrees (st_graph s) (st_records s) (prov_to_state s)"
    and keys: "Mapping.keys (st_status s) = Mapping.keys (st_records s)"
    using assms by (simp_all add: store_inv_def)
  obtain st where st: "Mapping.lookup (st_status s) i = Some st"
    using Some keys lookup_in_keys lookup_Some_iff by metis
  have "{a. (a, i) \<in> (edges (st_graph s))\<^sup>+ \<and> validity_of s a \<in> {VS_INVALIDATED, VS_STALE}}
      = set (ancestors (st_graph s) i) \<inter>
        (with_validity (st_status s) VS_INVALIDATED \<union> with_validity (st_status s) VS_STALE)"
    by (auto simp: ancestors_edges [OF ga] validity_of_with)
  then show ?thesis
    unfolding check_reuse_eligible [OF Some st] find_record_def Some by (simp add: validity_of_def st)
qed

theorem check_reuse_eligible_iff_witness:
  "d_eligibility (check_reuse two_store (ScalarIdentifier 2) empty_request) = RE_ELIGIBLE"
proof -
  have v: "validity_of two_store (ScalarIdentifier 1) = VS_VALID"
    "validity_of two_store (ScalarIdentifier 2) = VS_VALID"
    "environment_met (sample_record 2 12 [ScalarIdentifier 1]) empty_request"
    "validity (sample_record 2 12 [ScalarIdentifier 1]) = VS_VALID"
    "ancestors (st_graph two_store) (ScalarIdentifier 2) = [ScalarIdentifier 1]"
    unfolding two_store_def one_store_def environment_met_def met_id_def met_str_def by code_simp+
  have ga: "graph_agrees (st_graph two_store) (st_records two_store) (prov_to_state two_store)"
    using two_store_inv by (simp add: store_inv_def)
  have "(a, ScalarIdentifier 2) \<in> (edges (st_graph two_store))\<^sup>+ \<longleftrightarrow> a = ScalarIdentifier 1" for a
    using ancestors_edges [OF ga, of "ScalarIdentifier 2"] unfolding v by auto
  then have "{a. (a, ScalarIdentifier 2) \<in> (edges (st_graph two_store))\<^sup>+
      \<and> validity_of two_store a \<in> {VS_INVALIDATED, VS_STALE}} = {}"
    using v(1) by auto
  with check_reuse_eligible_iff [OF two_store_inv, of "ScalarIdentifier 2" empty_request] v two_store_facts(2)
  show ?thesis by (simp add: find_record_def)
qed

text \<open>
  C6: after a successful invalidation no subject that depends on the invalidated one, directly or
  through any chain of derivations, is reusable: \<^verbatim>\<open>check_reuse\<close> answers INVALIDATED for it whatever
  is requested.  For every subject that does not depend on it the decision is what it was.
\<close>

theorem invalidation_blocks_reuse:
  assumes "store_inv s" "invalidate subj s = Some (out, s')" "io_ok out"
  shows "d_eligibility (check_reuse s' j q) =
    (if (inv_subject subj, j) \<in> (edges (st_graph s))\<^sup>* then RE_INVALIDATED
     else d_eligibility (check_reuse s j q))"
proof -
  have known: "inv_subject subj \<in> Mapping.keys (st_records s)"
    using assms(2,3) by (auto simp: invalidate_def split: if_splits)
  have ga: "graph_agrees (st_graph s) (st_records s) (prov_to_state s)"
    using assms(1) by (simp add: store_inv_def)
  from invalidate_result [OF assms(1) known] assms(2) obtain res where r:
    "s' = s\<lparr>st_status := st_status s', by_validity := by_validity s'\<rparr>"
    "\<And>j. Mapping.lookup (st_status s') j =
        (if (inv_subject subj, j) \<in> (edges (st_graph s))\<^sup>*
         then Some (invalidated_status subj res j (Mapping.lookup_default default_status (st_status s) j))
         else Mapping.lookup (st_status s) j)" by auto
  have same: "st_records s' = st_records s" "st_graph s' = st_graph s" by (subst r(1), simp)+
  show ?thesis
  proof (cases "(inv_subject subj, j) \<in> (edges (st_graph s))\<^sup>*")
    case True
    with reachable_known [OF ga known] have "j \<in> Mapping.keys (st_records s)" by blast
    then obtain rec where "Mapping.lookup (st_records s) j = Some rec" by (auto simp: lookup_Some_iff)
    with True show ?thesis by (simp add: check_reuse_def same r(2))
  next
    case False
    then have up: "(inv_subject subj, a) \<notin> (edges (st_graph s))\<^sup>*" if "(a, j) \<in> (edges (st_graph s))\<^sup>+" for a
      using that by (meson rtrancl_trans trancl_into_rtrancl)
    have "set (ancestors (st_graph s) j) \<inter> with_validity (st_status s') v
        = set (ancestors (st_graph s) j) \<inter> with_validity (st_status s) v" for v
      using up by (auto simp: ancestors_edges [OF ga] with_validity_def r(2))
    then have anc: "any_with_validity (st_status s') v (ancestors (st_graph s) j)
        = any_with_validity (st_status s) v (ancestors (st_graph s) j)" for v
      by (simp add: any_with_validity_iff)
    have live: "Mapping.lookup (st_status s') j = Mapping.lookup (st_status s) j"
      using False by (simp add: r(2))
    show ?thesis unfolding check_reuse_def same live Let_def anc using False by simp
  qed
qed

theorem invalidation_blocks_reuse_witness:
  "\<exists>out s'. invalidate (InvalidatingSubject (ScalarIdentifier 1) IR_CorruptState []) two_store = Some (out, s')
    \<and> d_eligibility (check_reuse s' (ScalarIdentifier 2) empty_request) = RE_INVALIDATED"
proof -
  let ?subj = "InvalidatingSubject (ScalarIdentifier 1) IR_CorruptState []"
  have k: "inv_subject ?subj \<in> Mapping.keys (st_records two_store)"
    using two_store_facts(1) by (auto intro: lookup_in_keys)
  obtain res s' where i: "invalidate ?subj two_store = Some (\<lparr>io_ok = True, io_error = [], io_result = res\<rparr>, s')"
    using invalidate_result [OF two_store_inv k] by blast
  have "(inv_subject ?subj, ScalarIdentifier 2) \<in> (edges (st_graph two_store))\<^sup>*"
    using two_store_edge by auto
  with invalidation_blocks_reuse [OF two_store_inv i, of "ScalarIdentifier 2" empty_request] i
  show ?thesis by auto
qed



end
