(* ===== verification/Store_Restore.thy ===== *)
theory Store_Restore
  imports Store
begin

text \<open>
  Snapshot and restore (\<^verbatim>\<open>store.hpp\<close>).  The theory proves that the topological order of a
  snapshot is correct (Kahn's algorithm again, by the locale of \<open>Derivation_Graph\<close>), that
  restoring the snapshot of a consistent store rebuilds that store, and, with it, that every
  store the API can reach is consistent and never loses or changes a record.
\<close>

section \<open>Folding updates into a map\<close>

lemma in_ordered_entries:
  fixes m :: "('k::{linorder,finite}, 'v) mapping"
  shows "(k, v) \<in> set (Mapping.ordered_entries m) \<longleftrightarrow> Mapping.lookup m k = Some v"
proof -
  have "finite (Mapping.keys m)" by simp
  then have "set (Mapping.ordered_entries m) = Mapping.entries m" by (rule set_ordered_entries)
  then show ?thesis by (simp add: entries_lookup Map.graph_def)
qed

lemma map_of_ordered_entries:
  fixes m :: "('k::{linorder,finite}, 'v) mapping"
  shows "map_of (Mapping.ordered_entries m) k = Mapping.lookup m k"
proof (cases "Mapping.lookup m k")
  case None
  then have "k \<notin> Mapping.keys m" by (simp add: lookup_None_iff)
  then have "map_of (Mapping.ordered_entries m) k = None" by (simp add: map_of_eq_None_iff)
  with None show ?thesis by simp
next
  case (Some v)
  then show ?thesis
    by (simp add: map_of_eq_Some_iff in_ordered_entries del: set_ordered_entries)
qed

lemma lookup_fold_update:
  "Mapping.lookup (fold (\<lambda>r. Mapping.update (f r) (h r)) rs m) k =
    (case map_of (rev (map (\<lambda>r. (f r, h r)) rs)) k of Some v \<Rightarrow> Some v | None \<Rightarrow> Mapping.lookup m k)"
  by (induction rs arbitrary: m) (auto simp: lookup_update' map_add_def split: option.split)

lemma keys_fold_update:
  "Mapping.keys (fold (\<lambda>r. Mapping.update (f r) (h r)) rs m) = f ` set rs \<union> Mapping.keys m"
  by (induction rs arbitrary: m) auto

lemma map_of_rev_distinct:
  assumes "distinct (map f rs)" "r \<in> set rs"
  shows "map_of (rev (map (\<lambda>r. (f r, h r)) rs)) (f r) = Some (h r)"
proof -
  have "distinct (map fst (rev (map (\<lambda>r. (f r, h r)) rs)))"
    using assms(1) by (simp add: rev_map [symmetric] comp_def)
  then show ?thesis by (rule map_of_is_SomeI) (use assms(2) in auto)
qed

section \<open>The topological order of a snapshot\<close>

lemma lookup_parents_map:
  "Mapping.lookup (parents_map_of rs) k =
    map_of (rev (map (\<lambda>r. (subject_id r, snapshot_parents (prov_map_of rs) r)) rs)) k"
  by (simp add: parents_map_of_def lookup_fold_update split: option.split)

lemma map_of_compose:
  "map_of (map (\<lambda>r. (f r, g (h r))) rs) k = map_option g (map_of (map (\<lambda>r. (f r, h r)) rs) k)"
  by (induction rs) auto

lemma lookup_indeg: "Mapping.lookup (indeg_of rs) k = map_option card (Mapping.lookup (parents_map_of rs) k)"
  by (simp add: lookup_parents_map indeg_of_def lookup_fold_update map_of_compose rev_map split: option.split)

lemma keys_parents_map: "Mapping.keys (parents_map_of rs) = subject_id ` set rs"
  by (simp add: parents_map_of_def keys_fold_update)

lemma set_children_of: "set (children_of rs p) =
    {n. n \<in> subject_id ` set rs \<and> p \<in> set_at (parents_map_of rs) n}"
proof -
  have "set (children_of rs p) = {n. \<exists>ps. Mapping.lookup (parents_map_of rs) n = Some ps \<and> p \<in> ps}"
    by (auto simp: children_of_def in_ordered_entries image_iff simp del: set_ordered_entries)
  also have "\<dots> = {n. n \<in> Mapping.keys (parents_map_of rs) \<and> p \<in> set_at (parents_map_of rs) n}"
    by (auto simp: lookup_Some_iff set_at_def)
  finally show ?thesis by (simp add: keys_parents_map)
qed

lemma distinct_map_fst_filter: "distinct (map fst l) \<Longrightarrow> distinct (map fst (filter Q l))"
  by (simp add: distinct_map inj_on_def)

interpretation snapshot_order: dependency_order "\<lambda>rs. True" "\<lambda>rs. subject_id ` set rs"
  "\<lambda>rs. set_at (parents_map_of rs)" children_of indeg_of
proof
  fix rs p n
  show "set (children_of rs p) = {n \<in> subject_id ` set rs. p \<in> set_at (parents_map_of rs) n}"
    by (simp add: set_children_of)
  show "distinct (children_of rs p)"
    unfolding children_of_def by (rule distinct_map_fst_filter) simp
  show "Mapping.keys (indeg_of rs) = subject_id ` set rs"
    by (simp add: indeg_of_def keys_fold_update)
  show "Mapping.lookup (indeg_of rs) n = Some (card (set_at (parents_map_of rs) n))"
    if mem: "n \<in> subject_id ` set rs"
  proof -
    obtain ps where "Mapping.lookup (parents_map_of rs) n = Some ps"
      using mem lookup_Some_iff [of n "parents_map_of rs"] unfolding keys_parents_map by blast
    then show ?thesis by (simp add: lookup_indeg set_at_def)
  qed
qed simp_all

lemma lookup_all_result:
  "(\<And>k. k \<in> set ks \<Longrightarrow> Mapping.lookup m k = Some (f k)) \<Longrightarrow> lookup_all m ks = Inr (map f ks)"
  by (induction ks) auto

lemma lookup_by_id:
  assumes "k \<in> subject_id ` set rs"
  shows "\<exists>r. r \<in> set rs \<and> subject_id r = k \<and> Mapping.lookup (by_id_of rs) k = Some r"
proof -
  have "k \<in> Mapping.keys (by_id_of rs)" using assms by (simp add: by_id_of_def keys_fold_update)
  then obtain r where r: "Mapping.lookup (by_id_of rs) k = Some r" by (auto simp: lookup_Some_iff)
  then have "map_of (rev (map (\<lambda>r. (subject_id r, r)) rs)) k = Some r"
    by (simp add: by_id_of_def lookup_fold_update split: option.splits)
  then have "(k, r) \<in> set (rev (map (\<lambda>r. (subject_id r, r)) rs))" by (rule map_of_SomeD)
  with r show ?thesis by auto
qed

text \<open>The order is always found or refused: no loop without end, no missing key.\<close>

definition snapshot_relation :: "RecordData list \<Rightarrow> (StateId \<times> StateId) set" where
  "snapshot_relation rs = {(p, n). n \<in> subject_id ` set rs \<and> p \<in> set_at (parents_map_of rs) n}"

text \<open>An order of all subjects, with the record of each, is a permutation of the records.\<close>

lemma by_id_permutation:
  assumes d: "distinct (map subject_id rs)" and o: "distinct order" "set order = subject_id ` set rs"
    and rec: "\<And>k. k \<in> subject_id ` set rs \<Longrightarrow> rec k \<in> set rs \<and> subject_id (rec k) = k"
  shows "mset (map rec order) = mset rs \<and> map subject_id (map rec order) = order"
proof -
  have sub: "map subject_id (map rec order) = order"
    unfolding map_map by (rule map_idI) (use rec o(2) in auto)
  have "distinct (map rec order)"
    using sub o(1) by (metis distinct_map)
  moreover have "set (map rec order) = set rs"
  proof
    show "set (map rec order) \<subseteq> set rs" using rec o(2) by auto
    show "set rs \<subseteq> set (map rec order)"
    proof
      fix r assume r: "r \<in> set rs"
      then have "rec (subject_id r) \<in> set rs" "subject_id (rec (subject_id r)) = subject_id r"
        using rec [of "subject_id r"] by auto
      then have "rec (subject_id r) = r" using d r by (auto simp: distinct_map inj_on_def)
      then show "r \<in> set (map rec order)" using r o(2) by force
    qed
  qed
  moreover have "distinct rs" using d by (simp add: distinct_map)
  ultimately have "mset (map rec order) = mset rs" using set_eq_iff_mset_eq_distinct by blast
  with sub show ?thesis by blast
qed

lemma records_in_topo_order_result:
  "\<exists>out. records_in_topo_order rs = Some (Inr out)
    \<and> (if distinct (map subject_id rs) \<and> fst ` snapshot_relation rs \<subseteq> subject_id ` set rs
          \<and> acyclic (snapshot_relation rs)
       then mset out = mset rs \<and> parents_first (set_at (parents_map_of rs)) {} (map subject_id out)
       else out = [])"
proof -
  let ?N = "subject_id ` set rs" and ?P = "set_at (parents_map_of rs)"
  obtain order where o: "kahn_loop (children_of rs) (indeg_of rs) (initially_ready (indeg_of rs)) [] = Some order"
    "distinct order" "set order \<subseteq> ?N" "parents_first ?P {} order"
    using snapshot_order.run_result [of rs] by auto
  have all: "length order = card ?N \<longleftrightarrow>
      fst ` snapshot_relation rs \<subseteq> ?N \<and> acyclic (snapshot_relation rs)"
  proof -
    have "fst ` snapshot_relation rs = (\<Union>n\<in>?N. ?P n)" by (force simp: snapshot_relation_def)
    then show ?thesis
      using snapshot_order.all_emitted_iff [OF TrueI o(1)] by (simp add: snapshot_relation_def)
  qed
  have le: "length order \<le> card ?N" using o by (metis List.finite_set card_mono distinct_card finite_imageI)
  have ids: "length rs = card ?N \<longleftrightarrow> distinct (map subject_id rs)"
    by (metis card_distinct distinct_card length_map list.set_map)
  have "card ?N \<le> length rs" by (metis card_length length_map list.set_map)
  then have len: "length order = length rs \<longleftrightarrow> distinct (map subject_id rs)
      \<and> fst ` snapshot_relation rs \<subseteq> ?N \<and> acyclic (snapshot_relation rs)"
    using all le ids by linarith
  define rec where "rec k = the (Mapping.lookup (by_id_of rs) k)" for k
  have rec: "rec k \<in> set rs \<and> subject_id (rec k) = k \<and> Mapping.lookup (by_id_of rs) k = Some (rec k)"
    if "k \<in> ?N" for k
    using lookup_by_id [OF that] by (auto simp: rec_def)
  have look: "lookup_all (by_id_of rs) order = Inr (map rec order)"
    by (rule lookup_all_result) (use rec o(3) in blast)
  show ?thesis
  proof (cases "length order = length rs")
    case True
    then have d: "distinct (map subject_id rs)" using len by blast
    have seteq: "set order = ?N"
      using True o ids d by (metis List.finite_set card_subset_eq distinct_card finite_imageI)
    note perm = by_id_permutation [OF d o(2) seteq, of rec]
    show ?thesis
      using True len o perm rec look by (intro exI [of _ "map rec order"]) (simp add: records_in_topo_order_def o(1))
  next
    case False
    then show ?thesis
      unfolding len [symmetric] by (intro exI [of _ "[]"]) (simp add: records_in_topo_order_def o(1))
  qed
qed


section \<open>Re-inserting records in dependency order\<close>

text \<open>
  \<open>part_of t s\<close>: the records of \<open>t\<close> are among those of \<open>s\<close>.  A record of \<open>s\<close> that is not in \<open>t\<close>
  and whose parents are can be inserted into \<open>t\<close>.
\<close>

definition part_of :: "ProvenanceStore \<Rightarrow> ProvenanceStore \<Rightarrow> bool" where
  "part_of t s \<longleftrightarrow> (\<forall>i r. Mapping.lookup (st_records t) i = Some r \<longrightarrow> Mapping.lookup (st_records s) i = Some r)"

lemma insertable_part:
  assumes s: "store_inv s" and t: "store_inv t" and part: "part_of t s"
    and d: "Mapping.lookup (st_records s) (subject_id d) = Some d"
    and new: "subject_id d \<notin> Mapping.keys (st_records t)"
    and par: "record_parents (prov_to_state s) d \<subseteq> Mapping.keys (st_records t)"
  shows "insertable d t"
proof -
  have ws: "records_wf (st_records s) (prov_to_state s)" and wt: "records_wf (st_records t) (prov_to_state t)"
    using s t by (simp_all add: store_inv_def)
  have sub: "Mapping.lookup (st_records s) i = Some r" if "Mapping.lookup (st_records t) i = Some r" for i r
    using part that by (auto simp: part_of_def)
  have "provenance_id d \<notin> Mapping.keys (prov_to_state t)"
  proof
    assume "provenance_id d \<in> Mapping.keys (prov_to_state t)"
    then obtain i where "Mapping.lookup (prov_to_state t) (provenance_id d) = Some i"
      by (auto simp: lookup_Some_iff)
    then obtain r where r: "Mapping.lookup (st_records t) i = Some r" "provenance_id r = provenance_id d"
      unfolding records_wfD(5) [OF wt] by blast
    then have "Mapping.lookup (prov_to_state s) (provenance_id d) = Some i"
      unfolding records_wfD(5) [OF ws] using sub by blast
    moreover have "Mapping.lookup (prov_to_state s) (provenance_id d) = Some (subject_id d)"
      unfolding records_wfD(5) [OF ws] using d by blast
    ultimately have "i = subject_id d" by simp
    with r(1) new show False by (auto dest: lookup_in_keys)
  qed
  moreover have "set (parent_provenance d) \<subseteq> Mapping.keys (prov_to_state t)"
  proof
    fix p assume p: "p \<in> set (parent_provenance d)"
    then have "p \<in> Mapping.keys (prov_to_state s)" using records_wfD(4) [OF ws d] by blast
    then obtain i where i: "Mapping.lookup (prov_to_state s) p = Some i" by (auto simp: lookup_Some_iff)
    then obtain r where r: "Mapping.lookup (st_records s) i = Some r" "provenance_id r = p"
      unfolding records_wfD(5) [OF ws] by blast
    have "i \<in> Mapping.keys (st_records t)" using par p i by (auto simp: record_parents_def)
    then obtain r' where "Mapping.lookup (st_records t) i = Some r'" by (auto simp: lookup_Some_iff)
    then have "Mapping.lookup (st_records t) i = Some r" using sub r(1) by fastforce
    then have "Mapping.lookup (prov_to_state t) p = Some i"
      unfolding records_wfD(5) [OF wt] using r(2) by blast
    then show "p \<in> Mapping.keys (prov_to_state t)" by (rule lookup_in_keys)
  qed
  moreover have "set (input_states d) \<subseteq> Mapping.keys (st_records t)"
    using par by (auto simp: record_parents_def)
  ultimately show ?thesis using new by (simp add: insertable_def)
qed

lemma insert_all_result:
  assumes "store_inv s" "store_inv t" "part_of t s"
    and "\<And>d. d \<in> set ds \<Longrightarrow> Mapping.lookup (st_records s) (subject_id d) = Some d"
    and "distinct (map subject_id ds)" "subject_id ` set ds \<inter> Mapping.keys (st_records t) = {}"
    and "parents_first (\<lambda>i. case Mapping.lookup (st_records s) i of
        None \<Rightarrow> {} | Some d \<Rightarrow> record_parents (prov_to_state s) d)
      (Mapping.keys (st_records t)) (map subject_id ds)"
  shows "\<exists>t'. insert_all ds t = (Inr (), t') \<and> store_inv t'
    \<and> st_authority t' = st_authority t \<and> st_runtime_generation t' = st_runtime_generation t
    \<and> part_of t' s \<and> Mapping.keys (st_records t') = Mapping.keys (st_records t) \<union> subject_id ` set ds
    \<and> st_workers t' = st_workers t \<union> {w. valid w \<and> w \<in> worker_id ` set ds}"
  using assms
proof (induction ds arbitrary: t)
  case (Cons d ds)
  let ?P = "\<lambda>i. case Mapping.lookup (st_records s) i of
    None \<Rightarrow> {} | Some d \<Rightarrow> record_parents (prov_to_state s) d"
  have d: "Mapping.lookup (st_records s) (subject_id d) = Some d" using Cons.prems(4) by simp
  have ok: "record_ok d" using Cons.prems(1) records_wfD(2) [OF _ d] by (auto simp: store_inv_def)
  have "insertable d t"
    by (rule insertable_part [OF Cons.prems(1-3) d]) (use Cons.prems d in auto)
  from insert_validated_inv [OF Cons.prems(2) ok this] obtain g where
    g: "insert_validated d t = (Inr \<lparr>po_ok = True, po_error = [], po_record = Some d\<rparr>,
      store_record d (t\<lparr>st_graph := g\<rparr>))" "store_inv (store_record d (t\<lparr>st_graph := g\<rparr>))" by blast
  define t1 where "t1 = store_record d (t\<lparr>st_graph := g\<rparr>)"
  have keys: "Mapping.keys (st_records t1) = insert (subject_id d) (Mapping.keys (st_records t))"
    by (simp add: t1_def)
  have "part_of t1 s" using Cons.prems(3) d by (auto simp: part_of_def t1_def lookup_update')
  moreover have "parents_first ?P (Mapping.keys (st_records t1)) (map subject_id ds)"
    using Cons.prems(7) by (simp add: keys)
  moreover have "subject_id ` set ds \<inter> Mapping.keys (st_records t1) = {}"
    using Cons.prems(5,6) by (auto simp: keys)
  moreover have "store_inv t1" using g(2) by (simp add: t1_def)
  ultimately obtain t' where t': "insert_all ds t1 = (Inr (), t')" "store_inv t'"
    "st_authority t' = st_authority t1" "st_runtime_generation t' = st_runtime_generation t1"
    "part_of t' s" "Mapping.keys (st_records t') = Mapping.keys (st_records t1) \<union> subject_id ` set ds"
    "st_workers t' = st_workers t1 \<union> {w. valid w \<and> w \<in> worker_id ` set ds}"
    using Cons.IH [of t1] Cons.prems(1,4,5) by auto
  have "insert_all (d # ds) t = insert_all ds t1" by (simp add: g(1) t1_def)
  then show ?case using t' by (auto simp: t1_def)
qed simp


section \<open>The snapshot of a consistent store\<close>

lemma lookup_fold_update_iff:
  assumes "distinct (map f rs)"
  shows "Mapping.lookup (fold (\<lambda>r. Mapping.update (f r) (h r)) rs Mapping.empty) k = Some v
    \<longleftrightarrow> (\<exists>r. r \<in> set rs \<and> f r = k \<and> h r = v)"
proof
  assume "Mapping.lookup (fold (\<lambda>r. Mapping.update (f r) (h r)) rs Mapping.empty) k = Some v"
  then have "map_of (rev (map (\<lambda>r. (f r, h r)) rs)) k = Some v"
    by (simp add: lookup_fold_update split: option.splits)
  then have "(k, v) \<in> set (rev (map (\<lambda>r. (f r, h r)) rs))" by (rule map_of_SomeD)
  then show "\<exists>r. r \<in> set rs \<and> f r = k \<and> h r = v" by auto
next
  assume "\<exists>r. r \<in> set rs \<and> f r = k \<and> h r = v"
  then obtain r where "r \<in> set rs" "f r = k" "h r = v" by blast
  with map_of_rev_distinct [OF assms, of r h]
  show "Mapping.lookup (fold (\<lambda>r. Mapping.update (f r) (h r)) rs Mapping.empty) k = Some v"
    by (simp add: lookup_fold_update)
qed

lemma snapshot_parents_eq: "snapshot_parents prov r = record_parents prov r"
proof -
  have "fold (\<lambda>p ps. case Mapping.lookup prov p of None \<Rightarrow> ps | Some i \<Rightarrow> insert i ps) pp acc
      = acc \<union> {i. \<exists>p. p \<in> set pp \<and> Mapping.lookup prov p = Some i}" for pp acc
    by (induction pp arbitrary: acc) (auto split: option.split)
  then show ?thesis by (simp add: snapshot_parents_def record_parents_def)
qed

definition parents_in :: "ProvenanceStore \<Rightarrow> StateId \<Rightarrow> StateId set" where
  "parents_in s i = (case Mapping.lookup (st_records s) i of
     None \<Rightarrow> {} | Some d \<Rightarrow> record_parents (prov_to_state s) d)"

lemma snapshot_members:
  assumes "store_inv s"
  shows "r \<in> set (sn_records (store_snapshot s)) \<longleftrightarrow> Mapping.lookup (st_records s) (subject_id r) = Some r"
    and "distinct (map subject_id (sn_records (store_snapshot s)))"
    and "subject_id ` set (sn_records (store_snapshot s)) = Mapping.keys (st_records s)"
proof -
  let ?rs = "sn_records (store_snapshot s)"
  have "records_wf (st_records s) (prov_to_state s)" using assms by (simp add: store_inv_def)
  note sid = records_wfD(1) [OF this]
  have rs: "?rs = map snd (Mapping.ordered_entries (st_records s))" by (simp add: store_snapshot_def)
  show mem: "r \<in> set ?rs \<longleftrightarrow> Mapping.lookup (st_records s) (subject_id r) = Some r" for r
  proof
    assume "r \<in> set ?rs"
    then obtain i where "(i, r) \<in> set (Mapping.ordered_entries (st_records s))"
      by (auto simp: rs simp del: set_ordered_entries)
    with sid [of i r] show "Mapping.lookup (st_records s) (subject_id r) = Some r"
      by (simp add: in_ordered_entries del: set_ordered_entries)
  next
    assume "Mapping.lookup (st_records s) (subject_id r) = Some r"
    then have "(subject_id r, r) \<in> set (Mapping.ordered_entries (st_records s))"
      by (simp add: in_ordered_entries del: set_ordered_entries)
    then show "r \<in> set ?rs" unfolding rs by force
  qed
  have "map subject_id ?rs = map fst (Mapping.ordered_entries (st_records s))"
    unfolding rs map_map by (rule map_cong) (use sid in_ordered_entries [of _ _ "st_records s"] in auto)
  then show "distinct (map subject_id ?rs)" by simp
  show "subject_id ` set ?rs = Mapping.keys (st_records s)"
  proof (rule set_eqI)
    fix i
    have "i \<in> subject_id ` set ?rs \<longleftrightarrow> (\<exists>r. r \<in> set ?rs \<and> subject_id r = i)" by blast
    also have "\<dots> \<longleftrightarrow> (\<exists>r. Mapping.lookup (st_records s) i = Some r)"
      unfolding mem using sid by blast
    finally show "i \<in> subject_id ` set ?rs \<longleftrightarrow> i \<in> Mapping.keys (st_records s)"
      by (simp only: lookup_Some_iff)
  qed
qed

lemma snapshot_prov_map:
  assumes "store_inv s"
  shows "prov_map_of (sn_records (store_snapshot s)) = prov_to_state s"
proof -
  let ?rs = "sn_records (store_snapshot s)"
  have wf: "records_wf (st_records s) (prov_to_state s)" using assms by (simp add: store_inv_def)
  note mem = snapshot_members(1) [OF assms]
  have "inj_on provenance_id (set ?rs)"
  proof (rule inj_onI)
    fix a b assume ab: "a \<in> set ?rs" "b \<in> set ?rs" "provenance_id a = provenance_id b"
    then have "Mapping.lookup (prov_to_state s) (provenance_id a) = Some (subject_id a)"
      "Mapping.lookup (prov_to_state s) (provenance_id a) = Some (subject_id b)"
      unfolding records_wfD(5) [OF wf] mem by auto
    with ab mem show "a = b" by (metis option.inject)
  qed
  moreover have "distinct ?rs" using snapshot_members(2) [OF assms] by (simp add: distinct_map)
  ultimately have inj: "distinct (map provenance_id ?rs)" by (simp add: distinct_map)
  show ?thesis
  proof (rule mapping_eqI)
    fix p
    have "Mapping.lookup (prov_map_of ?rs) p = Some i \<longleftrightarrow> Mapping.lookup (prov_to_state s) p = Some i" for i
      unfolding prov_map_of_def lookup_fold_update_iff [OF inj] records_wfD(5) [OF wf] mem
      using records_wfD(1) [OF wf] by blast
    then show "Mapping.lookup (prov_map_of ?rs) p = Mapping.lookup (prov_to_state s) p"
      by (metis option.exhaust)
  qed
qed

lemma snapshot_parent_sets:
  assumes "store_inv s"
  shows "set_at (parents_map_of (sn_records (store_snapshot s))) = parents_in s"
proof
  let ?rs = "sn_records (store_snapshot s)"
  have wf: "records_wf (st_records s) (prov_to_state s)" using assms by (simp add: store_inv_def)
  have pm: "Mapping.lookup (parents_map_of ?rs) i = Some ps \<longleftrightarrow>
      (\<exists>r. Mapping.lookup (st_records s) i = Some r \<and> record_parents (prov_to_state s) r = ps)" for i ps
    unfolding parents_map_of_def lookup_fold_update_iff [OF snapshot_members(2) [OF assms]]
      snapshot_members(1) [OF assms] snapshot_prov_map [OF assms] snapshot_parents_eq
    using records_wfD(1) [OF wf] by blast
  fix i show "set_at (parents_map_of ?rs) i = parents_in s i"
  proof (cases "Mapping.lookup (st_records s) i")
    case None
    then have "Mapping.lookup (parents_map_of ?rs) i \<noteq> Some ps" for ps by (simp add: pm)
    then have "Mapping.lookup (parents_map_of ?rs) i = None" by blast
    with None show ?thesis by (simp add: set_at_def parents_in_def)
  next
    case (Some r)
    then have "Mapping.lookup (parents_map_of ?rs) i = Some (record_parents (prov_to_state s) r)"
      by (simp add: pm)
    with Some show ?thesis by (simp add: set_at_def parents_in_def)
  qed
qed

lemma snapshot_edges:
  assumes "store_inv s"
  shows "snapshot_relation (sn_records (store_snapshot s)) = edges (st_graph s)"
proof -
  have "n \<in> Mapping.keys (st_records s) \<and> p \<in> parents_in s n \<longleftrightarrow>
      (\<exists>r. Mapping.lookup (st_records s) n = Some r \<and> p \<in> record_parents (prov_to_state s) r)" for p n
    by (cases "Mapping.lookup (st_records s) n") (simp_all add: lookup_Some_iff parents_in_def)
  moreover have "edges (st_graph s) = derivation_edges (st_records s) (prov_to_state s)"
    using assms by (simp add: store_inv_def graph_agrees_def)
  ultimately show ?thesis
    unfolding snapshot_relation_def snapshot_members(3) [OF assms] snapshot_parent_sets [OF assms]
      derivation_edges_def by simp
qed

lemmas snapshot_records = snapshot_members snapshot_prov_map snapshot_parent_sets snapshot_edges

lemma snapshot_topo:
  assumes inv: "store_inv s"
  shows "\<exists>out. records_in_topo_order (sn_records (store_snapshot s)) = Some (Inr out)
    \<and> mset out = mset (sn_records (store_snapshot s)) \<and> parents_first (parents_in s) {} (map subject_id out)"
proof -
  let ?rs = "sn_records (store_snapshot s)"
  note sn = snapshot_records [OF inv]
  have "edges (st_graph s) \<subseteq> Mapping.keys (st_records s) \<times> Mapping.keys (st_records s)"
    "acyclic (edges (st_graph s))"
    using inv by (auto simp: store_inv_def graph_agrees_def graph_inv_def graph_wf_def)
  then have "distinct (map subject_id ?rs) \<and> fst ` snapshot_relation ?rs \<subseteq> subject_id ` set ?rs
      \<and> acyclic (snapshot_relation ?rs)"
    unfolding sn(3,6) using sn(2) by force
  with records_in_topo_order_result [of ?rs] show ?thesis unfolding sn(5) by auto
qed

lemma lookup_collect_boots:
  "Mapping.lookup (collect_boots a ws boots) w =
    (if w \<in> set ws \<and> boot_of a w \<noteq> None then boot_of a w else Mapping.lookup boots w)"
  by (induction ws arbitrary: boots) (auto simp: lookup_update' split: option.split)

lemma lookup_snapshot_boots:
  "Mapping.lookup (as_boots (authority_snapshot s)) w =
    (if w \<in> st_workers s then Mapping.lookup (a_boot (st_authority s)) w else None)"
  by (auto simp: authority_snapshot_def Let_def lookup_collect_boots boot_of_def)

lemma fold_register_boot:
  "fold (\<lambda>(w, b). register_boot w b) es a
    = a\<lparr>a_boot := fold (\<lambda>e. Mapping.update (fst e) (snd e)) es (a_boot a)\<rparr>"
  by (induction es arbitrary: a) (auto simp: register_boot_def)

lemma fold_update_entries:
  fixes m :: "('k::{linorder,finite}, 'v) mapping"
  shows "fold (\<lambda>e. Mapping.update (fst e) (snd e)) (Mapping.ordered_entries m) Mapping.empty = m"
proof (rule mapping_eqI)
  fix k
  have "distinct (map fst (Mapping.ordered_entries m))" by simp
  from lookup_fold_update_iff [OF this, of snd k]
  have "Mapping.lookup (fold (\<lambda>e. Mapping.update (fst e) (snd e)) (Mapping.ordered_entries m) Mapping.empty) k
      = Some v \<longleftrightarrow> Mapping.lookup m k = Some v" for v
    by (simp only: in_ordered_entries [symmetric]) force
  then show "Mapping.lookup (fold (\<lambda>e. Mapping.update (fst e) (snd e)) (Mapping.ordered_entries m) Mapping.empty) k
      = Mapping.lookup m k"
    by (metis option.exhaust)
qed

text \<open>What the persisted authority keeps: everything, with the boots of known workers only.\<close>

definition persisted_authority :: "ProvenanceStore \<Rightarrow> AuthorityState" where
  "persisted_authority s = (st_authority s)\<lparr>
     a_epoch := if a_epoch (st_authority s) = 0 then 1 else a_epoch (st_authority s),
     a_boot := Mapping.filter (\<lambda>w b. w \<in> st_workers s) (a_boot (st_authority s))\<rparr>"

lemma boots_filter: "as_boots (authority_snapshot s)
    = Mapping.filter (\<lambda>w b. w \<in> st_workers s) (a_boot (st_authority s))"
  by (rule mapping_eqI) (auto simp: lookup_snapshot_boots lookup_filter split: option.split)

lemma restore_authority_snapshot: "restore_authority (authority_snapshot s) = persisted_authority s"
  unfolding restore_authority_def fold_register_boot persisted_authority_def boots_filter [symmetric]
  by (simp add: authority_ops initial_authority_def fold_update_entries)
    (simp add: authority_snapshot_def Let_def)


section \<open>Restoring a snapshot\<close>

lemma graph_determined:
  assumes "graph_inv g" "graph_inv g'" "g_nodes g = g_nodes g'" "edges g = edges g'"
  shows "g = (g' :: ProvenanceGraph)"
proof -
  have look: "Mapping.lookup (g_parents h) i = (if i \<in> g_nodes h then Some {p. (p, i) \<in> edges h} else None)"
    "Mapping.lookup (g_children h) i = (if i \<in> g_nodes h then Some {c. (i, c) \<in> edges h} else None)"
    if "graph_inv h" for h :: ProvenanceGraph and i
  proof -
    have keys: "Mapping.keys (g_parents h) = g_nodes h" "Mapping.keys (g_children h) = g_nodes h"
      and wf: "graph_wf h" using that by (simp_all add: graph_inv_def graph_wf_def)
    have "set_at (g_parents h) i = {p. (p, i) \<in> edges h}" "set_at (g_children h) i = {c. (i, c) \<in> edges h}"
      using graph_wf_parents [OF wf] by (auto simp: children_edges)
    then show "Mapping.lookup (g_parents h) i = (if i \<in> g_nodes h then Some {p. (p, i) \<in> edges h} else None)"
      "Mapping.lookup (g_children h) i = (if i \<in> g_nodes h then Some {c. (i, c) \<in> edges h} else None)"
      using lookup_None_iff [of "g_parents h" i] lookup_None_iff [of "g_children h" i] keys
      by (auto simp: set_at_def split: option.splits)
  qed
  have "g_parents g = g_parents g'" "g_children g = g_children g'"
    using look [OF assms(1)] look [OF assms(2)] assms(3,4) by (auto intro: mapping_eqI)
  moreover have "g_arc_count g = g_arc_count g'"
    using assms by (simp add: graph_inv_def graph_wf_def)
  ultimately show ?thesis using assms(3) by simp
qed

lemma set_at_fold_status:
  "set_at (fold (\<lambda>(i, st) m. insert_at (rs_validity st) i m) es m) v
    = set_at m v \<union> {i. \<exists>st. (i, st) \<in> set es \<and> rs_validity st = v}"
  by (induction es arbitrary: m) (auto split: if_splits)

lemma fold_known_records:
  "fst ` set es \<subseteq> Mapping.keys status \<Longrightarrow>
    fold (\<lambda>(i, r) m. if i \<in> Mapping.keys status then m else insert_at VS_VALID i m) es m = m"
  by (induction es arbitrary: m) auto

lemma rebuild_by_validity_exact:
  assumes "Mapping.keys recs = Mapping.keys status"
  shows "set_at (rebuild_by_validity status recs) v = with_validity status v"
proof -
  have "fst ` set (Mapping.ordered_entries recs) \<subseteq> Mapping.keys status" using assms by simp
  then show ?thesis
    unfolding rebuild_by_validity_def
    by (simp add: fold_known_records set_at_fold_status in_ordered_entries with_validity_def
        del: set_ordered_entries)
qed

lemma keys_filter: "Mapping.keys (Mapping.filter (\<lambda>w b. w \<in> A) m) = A \<inter> Mapping.keys m"
  by (auto simp: lookup_Some_iff lookup_filter split: option.splits if_splits)

lemma restore_start_inv:
  assumes "ws = Mapping.keys (a_boot a)"
  shows "store_inv (empty_store\<lparr>st_runtime_generation := g, st_authority := a, st_workers := ws\<rparr>)"
  using store_inv_empty assms
  by (simp add: store_inv_def indexes_ok_def) (simp add: empty_store_def record_workers_def)

lemma restored_equal:
  assumes "store_inv t" "store_inv s" "st_records t = st_records s"
  shows "prov_to_state t = prov_to_state s" "st_graph t = st_graph s"
    "by_model t = by_model s" "by_adapter t = by_adapter s" "by_producer t = by_producer s"
    "by_execution t = by_execution s" "by_attempt t = by_attempt s" "by_dependency t = by_dependency s"
    "by_artifact t = by_artifact s" "by_evidence t = by_evidence s"
proof -
  have wt: "records_wf (st_records s) (prov_to_state t)" and ws: "records_wf (st_records s) (prov_to_state s)"
    and gt: "graph_agrees (st_graph t) (st_records s) (prov_to_state t)"
    and gs: "graph_agrees (st_graph s) (st_records s) (prov_to_state s)"
    and it: "indexes_ok t" and iso: "indexes_ok s"
    using assms by (simp_all add: store_inv_def)
  have "Mapping.lookup (prov_to_state t) p = Some i \<longleftrightarrow> Mapping.lookup (prov_to_state s) p = Some i" for p i
    unfolding records_wfD(5) [OF wt] records_wfD(5) [OF ws] ..
  then have "Mapping.lookup (prov_to_state t) p = Mapping.lookup (prov_to_state s) p" for p
    by (metis option.exhaust)
  then show prov: "prov_to_state t = prov_to_state s" by (rule mapping_eqI)
  show "st_graph t = st_graph s"
    by (rule graph_determined) (use gt gs prov in \<open>auto simp: graph_agrees_def\<close>)
  show "by_model t = by_model s" "by_adapter t = by_adapter s" "by_producer t = by_producer s"
    "by_execution t = by_execution s" "by_attempt t = by_attempt s" "by_dependency t = by_dependency s"
    "by_artifact t = by_artifact s" "by_evidence t = by_evidence s"
    using it iso assms(3) unfolding indexes_ok_def
    by (auto intro: model_index.indexes_unique adapter_index.indexes_unique producer_index.indexes_unique
        execution_index.indexes_unique attempt_index.indexes_unique dependency_index.indexes_unique
        artifact_index.indexes_unique evidence_index.indexes_unique)
qed

text \<open>Reinserting the records of a snapshot rebuilds the records and the known workers.\<close>

lemma snapshot_reinserted:
  assumes inv: "store_inv s"
  shows "\<exists>out t'. records_in_topo_order (sn_records (store_snapshot s)) = Some (Inr out)
    \<and> length out = length (sn_records (store_snapshot s))
    \<and> insert_all out (empty_store\<lparr>st_runtime_generation := g, st_authority := persisted_authority s,
        st_workers := Mapping.keys (as_boots (authority_snapshot s))\<rparr>) = (Inr (), t')
    \<and> store_inv t' \<and> st_authority t' = persisted_authority s \<and> st_runtime_generation t' = g
    \<and> st_records t' = st_records s \<and> st_workers t' = st_workers s"
proof -
  let ?sn = "store_snapshot s" and ?a = "persisted_authority s"
  let ?ws = "Mapping.keys (as_boots (authority_snapshot s))"
  let ?t0 = "empty_store\<lparr>st_runtime_generation := g, st_authority := ?a,
    st_workers := ?ws\<rparr>"
  note sn = snapshot_records [OF inv]
  obtain out where out: "records_in_topo_order (sn_records ?sn) = Some (Inr out)"
    "mset out = mset (sn_records ?sn)" "parents_first (parents_in s) {} (map subject_id out)"
    using snapshot_topo [OF inv] by blast
  have set_out: "set out = set (sn_records ?sn)" and len: "length out = length (sn_records ?sn)"
    using out(2) by (metis mset_eq_setD, metis mset_eq_length)
  have dist: "distinct (map subject_id out)"
    using sn(2) out(2) by (metis mset_eq_imp_distinct_iff mset_map)
  have boots: "?ws = Mapping.keys (a_boot ?a)" by (simp add: boots_filter persisted_authority_def)
  have t0: "store_inv ?t0" "part_of ?t0 s" "Mapping.keys (st_records ?t0) = {}"
    using restore_start_inv [OF boots] by (simp_all add: part_of_def empty_store_def)
  obtain t' where t': "insert_all out ?t0 = (Inr (), t')" "store_inv t'" "st_authority t' = ?a"
    "st_runtime_generation t' = g" "part_of t' s"
    "Mapping.keys (st_records t') = Mapping.keys (st_records s)"
    "st_workers t' = ?ws \<union> {w. valid w \<and> w \<in> worker_id ` set out}"
    using insert_all_result [OF inv t0(1,2), of out] set_out sn(1,3) dist out(3) t0(3)
    unfolding parents_in_def [abs_def] by auto
  have recs: "st_records t' = st_records s"
  proof (rule mapping_eqI)
    fix i show "Mapping.lookup (st_records t') i = Mapping.lookup (st_records s) i"
      using t'(5,6) lookup_None_iff [of "st_records t'" i] lookup_None_iff [of "st_records s" i]
      by (cases "Mapping.lookup (st_records t') i") (auto simp: part_of_def)
  qed
  have rw: "{w. valid w \<and> w \<in> worker_id ` set out} = record_workers (st_records s)"
    unfolding record_workers_def set_out image_iff using sn(1) records_wfD(1) [of "st_records s" "prov_to_state s"] inv
    by (auto simp: store_inv_def)
  have workers: "st_workers t' = st_workers s"
    using inv unfolding t'(7) rw boots_filter keys_filter by (auto simp: store_inv_def)
  show ?thesis
    by (intro exI [of _ out] exI [of _ t']) (simp add: out(1) len t'(1-4) recs workers)
qed

lemma restore_snapshot_result:
  assumes inv: "store_inv s"
  shows "\<exists>s'. restore (store_snapshot s) t = Some (Inr (), s') \<and> store_inv s'
    \<and> s' = s\<lparr>st_authority := persisted_authority s, st_runtime_generation := st_runtime_generation t,
        by_validity := by_validity s'\<rparr>"
proof -
  let ?sn = "store_snapshot s" and ?a = "persisted_authority s"
  have auth: "sn_authority ?sn = authority_snapshot s" "sn_status ?sn = st_status s"
    by (simp_all add: store_snapshot_def)
  from snapshot_reinserted [OF inv, of "st_runtime_generation t"] obtain out t'
    where out: "records_in_topo_order (sn_records ?sn) = Some (Inr out)" "length out = length (sn_records ?sn)"
    and t': "insert_all out (empty_store\<lparr>st_runtime_generation := st_runtime_generation t, st_authority := ?a,
        st_workers := Mapping.keys (as_boots (authority_snapshot s))\<rparr>) = (Inr (), t')"
      "store_inv t'" "st_authority t' = ?a" "st_runtime_generation t' = st_runtime_generation t"
      "st_records t' = st_records s" "st_workers t' = st_workers s" by blast
  define s' where "s' = t'\<lparr>st_status := st_status s,
    by_validity := rebuild_by_validity (st_status s) (st_records t')\<rparr>"
  note eq = restored_equal [OF t'(2) inv t'(5)]
  have s': "s' = s\<lparr>st_authority := ?a, st_runtime_generation := st_runtime_generation t,
      by_validity := by_validity s'\<rparr>"
    by (rule ProvenanceStore.equality) (simp_all add: s'_def eq t'(3-6))
  have keys: "Mapping.keys (st_status s) = Mapping.keys (st_records s)" using inv by (simp add: store_inv_def)
  have val: "set_at (by_validity s') v = with_validity (st_status s) v" for v
    using rebuild_by_validity_exact [of "st_records t'" "st_status s" v] keys t'(5) by (simp add: s'_def)
  have inv': "store_inv s'"
    using t'(2) val keys t'(5) by (simp add: store_inv_def indexes_ok_def) (simp add: s'_def)
  have "restore ?sn t = Some (Inr (), s')"
    unfolding restore_def auth restore_authority_snapshot out(1) Let_def
    by (simp add: out(2) t'(1) s'_def)
  with inv' s' show ?thesis by blast
qed


section \<open>Reachable stores\<close>

text \<open>
  One call of the public interface.  \<open>restart\<close> is a save and a load: the snapshot of the store is
  restored into whatever store object the loading process has.
\<close>

inductive store_step :: "ProvenanceStore \<Rightarrow> ProvenanceStore \<Rightarrow> bool" where
  publish: "publish d s = (r, s') \<Longrightarrow> store_step s s'"
| publish_fenced: "publish_fenced d c s = (r, s') \<Longrightarrow> store_step s s'"
| invalidate: "invalidate subj s = Some (out, s') \<Longrightarrow> store_step s s'"
| restart: "restore (store_snapshot s) t = Some (Inr (), s') \<Longrightarrow> store_step s s'"
| roll_epoch: "store_step s (snd (store_roll_epoch s))"
| register_boot: "store_step s (store_register_boot w b s)"
| begin_attempt: "store_step s (store_begin_attempt i k s)"
| state_generation: "store_step s (store_roll_state_generation sg s)"
| provenance_generation: "store_step s (store_roll_provenance_generation pg s)"
| model_generation: "store_step s (store_set_model_generation mg s)"
| adapter_generation: "store_step s (store_set_adapter_generation ag s)"
| composition_generation: "store_step s (store_set_composition_generation cg s)"
| policy_generation: "store_step s (store_set_policy_generation plg s)"
| dependency_generation: "store_step s (store_set_dependency_generation dg s)"
| artifact_generation: "store_step s (store_set_artifact_generation arg s)"
| runtime_generation: "store_step s (set_runtime_generation rg s)"

definition store_reachable :: "ProvenanceStore \<Rightarrow> bool" where
  "store_reachable s \<longleftrightarrow> store_step\<^sup>*\<^sup>* empty_store s"

lemmas store_authority_defs = store_roll_epoch_def store_register_boot_def store_begin_attempt_def
  store_roll_state_generation_def store_roll_provenance_generation_def store_set_model_generation_def
  store_set_adapter_generation_def store_set_composition_generation_def
  store_set_policy_generation_def store_set_dependency_generation_def
  store_set_artifact_generation_def set_runtime_generation_def roll_epoch_def authority_ops

lemma store_inv_authority:
  assumes "store_inv s" "Mapping.keys (a_boot (st_authority s)) \<subseteq> Mapping.keys (a_boot a)"
  shows "store_inv (s\<lparr>st_authority := a\<rparr>)"
  using assms by (auto simp: store_inv_def indexes_ok_def)

lemma store_inv_runtime: "store_inv s \<Longrightarrow> store_inv (s\<lparr>st_runtime_generation := g\<rparr>)"
  by (simp add: store_inv_def indexes_ok_def)

lemma store_step_inv:
  assumes "store_step s s'" "store_inv s"
  shows "store_inv s'"
  using assms
proof (induction rule: store_step.induct)
  case (publish d s r s')
  then show ?case using publish_validated_inv by (simp add: publish_def)
next
  case (restart s t s')
  with restore_snapshot_result [of s t] show ?case by auto
qed (auto simp: store_authority_defs Let_def intro!: store_inv_authority store_inv_runtime
      intro: publish_fenced_inv invalidate_inv)

lemma publish_validated_keeps:
  assumes "store_inv s" "publish_validated d s = (r, s')" "Mapping.lookup (st_records s) i = Some rec"
  shows "Mapping.lookup (st_records s') i = Some rec"
  using publish_validated_cases [OF assms(1), of d] assms(2,3) lookup_in_keys [OF assms(3)]
  by (auto simp: insertable_def lookup_update')

lemma invalidate_one_records: "st_records (invalidate_one subj res i s) = st_records s"
  by (subst invalidate_one_frame) simp

lemma invalidate_keeps: "invalidate subj s = Some (out, s') \<Longrightarrow> st_records s' = st_records s"
proof -
  have "st_records (fold (invalidate_one subj res) ids t) = st_records t" for res ids and t
    by (induction ids arbitrary: t) (simp_all add: invalidate_one_records)
  then show "invalidate subj s = Some (out, s') \<Longrightarrow> st_records s' = st_records s"
    by (auto simp: invalidate_def split: if_splits option.splits)
qed

lemma store_step_keeps:
  assumes "store_step s s'" "store_inv s" "Mapping.lookup (st_records s) i = Some rec"
  shows "Mapping.lookup (st_records s') i = Some rec"
  using assms
proof (induction rule: store_step.induct)
  case (publish d s r s')
  then show ?case using publish_validated_keeps by (simp add: publish_def)
next
  case (publish_fenced d c s r s')
  then show ?case using publish_validated_keeps by (auto simp: publish_fenced_alt split: if_splits)
next
  case (invalidate subj s out s')
  then show ?case using invalidate_keeps by simp
next
  case (restart s t s')
  then obtain s1 where "s' = s1" "st_records s1 = st_records s"
    using restore_snapshot_result [of s t]
    by (metis (no_types, lifting) ProvenanceStore.select_convs(1) ProvenanceStore.surjective
        ProvenanceStore.update_convs(5,7,15) option.inject prod.inject)
  with restart show ?case by simp
qed (simp_all add: store_authority_defs Let_def)

lemma reachable_store_inv: "store_reachable s \<Longrightarrow> store_inv s"
  unfolding store_reachable_def
  by (induction rule: rtranclp_induct) (auto intro: store_inv_empty store_step_inv)

lemma two_store_reachable: "store_reachable two_store"
proof -
  have "store_step empty_store one_store"
    by (rule store_step.publish, unfold one_store_def, rule prod.collapse [symmetric])
  moreover have "store_step one_store two_store"
    by (rule store_step.publish, unfold two_store_def, rule prod.collapse [symmetric])
  ultimately show ?thesis by (auto simp: store_reachable_def)
qed

section \<open>Properties\<close>

text \<open>
  C4: every store the interface can reach, by any sequence of publications (fenced or not),
  invalidations, authority changes and restarts, is consistent: graph, identity map, indexes,
  status and workers agree with the records, every reference of a record resolves, and the
  derivation graph has no cycle.
\<close>

theorem reachable_stores_consistent:
  assumes "store_reachable s"
  shows "store_inv s \<and> is_acyclic (st_graph s) = Some (Inr True)"
proof -
  have inv: "store_inv s" using assms by (rule reachable_store_inv)
  then have "graph_inv (st_graph s)" by (simp add: store_inv_def graph_agrees_def)
  then have "graph_wf (st_graph s)" "acyclic (edges (st_graph s))" by (simp_all add: graph_inv_def)
  with topological_order_result inv show ?thesis by (fastforce simp: is_acyclic_def)
qed

theorem reachable_stores_consistent_witness:
  "is_acyclic (st_graph two_store) = Some (Inr True)"
  using reachable_stores_consistent [OF two_store_reachable] by blast

text \<open>
  A published record is never lost or altered: once a reachable store has a record for a
  subject, every later store, across any further calls and restarts, has the same record for it.
\<close>

theorem records_immutable:
  assumes "store_reachable s" "store_step\<^sup>*\<^sup>* s s'" "find_record s i = Some r"
  shows "find_record s' i = Some r"
  using assms(2,3)
proof (induction rule: rtranclp_induct)
  case (step t t')
  have "store_reachable t" using assms(1) step.hyps(1) by (simp add: store_reachable_def)
  with step show ?case
    using store_step_keeps reachable_store_inv by (auto simp: find_record_def)
qed

theorem records_immutable_witness:
  "find_record (store_set_model_generation (ScalarIdentifier 3) two_store) (ScalarIdentifier 1)
    = Some (sample_record 1 11 [])"
  by (rule records_immutable [OF two_store_reachable r_into_rtranclp [of store_step]])
    (auto simp: find_record_def two_store_facts intro: store_step.model_generation)

text \<open>
  C7: restoring the snapshot of a consistent store always succeeds and rebuilds it exactly:
  records, identity map, graph, status, workers and indexes are equal (the index by validity up to
  empty entries).  The authority is equal except that boots are kept for known workers only and a
  zero epoch becomes 1; the runtime generation is that of the restoring store.
\<close>

theorem snapshot_restore_roundtrip:
  assumes "store_inv s"
  shows "\<exists>s'. restore (store_snapshot s) t = Some (Inr (), s') \<and> store_inv s'
    \<and> s' = s\<lparr>st_authority := persisted_authority s, st_runtime_generation := st_runtime_generation t,
        by_validity := by_validity s'\<rparr>
    \<and> (set_at (by_validity s') = set_at (by_validity s))"
proof -
  obtain s' where r: "restore (store_snapshot s) t = Some (Inr (), s')" "store_inv s'"
    "s' = s\<lparr>st_authority := persisted_authority s, st_runtime_generation := st_runtime_generation t,
        by_validity := by_validity s'\<rparr>"
    using restore_snapshot_result [OF assms] by blast
  have "st_status s' = st_status s" by (subst r(3)) simp
  then have "set_at (by_validity s') = set_at (by_validity s)"
    using assms r(2) by (auto simp: store_inv_def)
  with r show ?thesis by blast
qed

theorem snapshot_restore_roundtrip_witness:
  "\<exists>s'. restore (store_snapshot two_store) empty_store = Some (Inr (), s')
    \<and> st_records s' = st_records two_store"
proof -
  obtain s' where "restore (store_snapshot two_store) empty_store = Some (Inr (), s')"
    "s' = two_store\<lparr>st_authority := persisted_authority two_store,
      st_runtime_generation := st_runtime_generation empty_store, by_validity := by_validity s'\<rparr>"
    using snapshot_restore_roundtrip [OF two_store_inv, of empty_store] by blast
  moreover from this(2) have "st_records s' = st_records two_store" by (rule ssubst) simp
  ultimately show ?thesis by blast
qed

text \<open>
  What a restart loses.  The boot of a worker that was registered but has published no record
  is not in the snapshot: after the restart the worker is unknown, and every claim it makes is
  refused as \<^verbatim>\<open>WorkerBootId\<close> (or on the epoch).
\<close>

theorem registered_boot_lost_on_restart:
  assumes "store_inv s" "w \<notin> st_workers s" "valid w"
    and "restore (store_snapshot (store_register_boot w b s)) t = Some (Inr (), s')"
    and "claim_worker_id c = w"
  shows "boot_of (st_authority (store_register_boot w b s)) w = Some b
    \<and> boot_of (st_authority s') w = None \<and> \<not> accepted (evaluate_claim (st_authority s') c)"
proof -
  let ?s = "store_register_boot w b s"
  have inv: "store_inv ?s" using assms(1) by (rule store_step_inv [OF store_step.register_boot])
  obtain s1 where "s' = s1" "st_authority s1 = persisted_authority ?s"
    using restore_snapshot_result [OF inv, of t] assms(4)
    by (metis (no_types, lifting) ProvenanceStore.select_convs(5) ProvenanceStore.surjective
        ProvenanceStore.update_convs(5,7,15) option.inject prod.inject)
  then have "boot_of (st_authority s') w = None"
    using assms(2) by (simp add: boot_of_def persisted_authority_def lookup_filter store_register_boot_def
        split: option.split)
  moreover from this have "boot_stale (st_authority s') c"
    using assms(3,5) by (simp add: boot_stale_def boot_of_def)
  ultimately show ?thesis
    by (simp add: accepted_iff fence_table_def store_register_boot_def register_boot_def boot_of_def lookup_update)
qed

theorem registered_boot_lost_on_restart_witness:
  "\<exists>s'. restore (store_snapshot (store_register_boot (ScalarIdentifier 7) (ScalarIdentifier 9) two_store))
      empty_store = Some (Inr (), s') \<and> boot_of (st_authority s') (ScalarIdentifier 7) = None"
proof -
  let ?s = "store_register_boot (ScalarIdentifier 7) (ScalarIdentifier 9) two_store"
  have inv: "store_inv ?s" by (rule store_step_inv [OF store_step.register_boot two_store_inv])
  obtain s' where s': "restore (store_snapshot ?s) empty_store = Some (Inr (), s')"
    using restore_snapshot_result [OF inv] by blast
  have "ScalarIdentifier 7 \<notin> st_workers two_store"
    unfolding two_store_def one_store_def by code_simp
  from registered_boot_lost_on_restart [OF two_store_inv this _ s',
      of "empty_claim\<lparr>claim_worker_id := ScalarIdentifier 7\<rparr>"] s'
  show ?thesis by auto
qed

text \<open>
  \<^verbatim>\<open>restore\<close> of any snapshot returns.  If its records repeat a subject, refer to an input state
  outside the snapshot, or form a cycle, it throws the "contains a cycle" error, and only after
  it has cleared the store: the records that were there before are gone.
\<close>

theorem restore_refusal:
  assumes "\<not> (distinct (map subject_id (sn_records sn))
      \<and> fst ` snapshot_relation (sn_records sn) \<subseteq> subject_id ` set (sn_records sn)
      \<and> acyclic (snapshot_relation (sn_records sn)))"
  shows "\<exists>s'. restore sn s = Some (Inl (RuntimeError
      ''restore refused: persisted provenance graph contains a cycle''), s')
    \<and> st_records s' = Mapping.empty \<and> st_status s' = Mapping.empty"
proof -
  have ne: "sn_records sn \<noteq> []" using assms by (auto simp: snapshot_relation_def acyclic_def)
  have "records_in_topo_order (sn_records sn) = Some (Inr [])"
    using records_in_topo_order_result [of "sn_records sn"] assms by auto
  with ne show ?thesis by (simp add: restore_def Let_def) (simp add: empty_store_def)
qed

definition orphan_snapshot :: StoreSnapshot where
  "orphan_snapshot = \<lparr>sn_records = [sample_record 2 12 [ScalarIdentifier 1]],
     sn_status = Mapping.empty, sn_authority = authority_snapshot empty_store\<rparr>"

theorem restore_refusal_witness:
  "\<exists>s'. restore orphan_snapshot two_store = Some (Inl (RuntimeError
      ''restore refused: persisted provenance graph contains a cycle''), s')
    \<and> st_records s' = Mapping.empty \<and> Mapping.lookup (st_records two_store) (ScalarIdentifier 1) \<noteq> None"
proof -
  have "ScalarIdentifier 1 \<in> fst ` snapshot_relation (sn_records orphan_snapshot)"
  proof -
    have "ScalarIdentifier 2 \<in> subject_id ` set (sn_records orphan_snapshot)"
      "ScalarIdentifier 1 \<in> set_at (parents_map_of (sn_records orphan_snapshot)) (ScalarIdentifier 2)"
      unfolding orphan_snapshot_def by code_simp+
    then have "(ScalarIdentifier 1, ScalarIdentifier 2) \<in> snapshot_relation (sn_records orphan_snapshot)"
      by (simp add: snapshot_relation_def)
    then show ?thesis by force
  qed
  moreover have "ScalarIdentifier 1 \<notin> subject_id ` set (sn_records orphan_snapshot)"
    by (simp add: orphan_snapshot_def sample_record_def)
  ultimately have "\<not> (distinct (map subject_id (sn_records orphan_snapshot))
      \<and> fst ` snapshot_relation (sn_records orphan_snapshot) \<subseteq> subject_id ` set (sn_records orphan_snapshot)
      \<and> acyclic (snapshot_relation (sn_records orphan_snapshot)))" by blast
  from restore_refusal [OF this, of two_store] two_store_facts(1) show ?thesis by auto
qed

end
