(* ===== verification/Persist.thy ===== *)
theory Persist
  imports Store_Restore
begin

text \<open>
  \<^verbatim>\<open>persist.hpp\<close>: the binary format.  A writer is the list of bytes it has appended; a reader is
  the buffer with a position and the \<^verbatim>\<open>ok_\<close> flag.  A reading function of the code (read a field,
  return a message when it fails, store the field otherwise) is a step on the object under
  construction, and a record is read by running its steps in order.
\<close>

section \<open>Bounds\<close>

definition kFormatVersion :: u32 where "kFormatVersion = 1"

definition kMaxPayloadLen :: nat where "kMaxPayloadLen = 512 * 1024 * 1024"

definition kMaxStringLen :: nat where "kMaxStringLen = 64 * 1024 * 1024"

definition kMaxVecLen :: nat where "kMaxVecLen = 2 ^ 26"

definition kMaxRecords :: nat where "kMaxRecords = 2 ^ 24"

definition kPayloadMagic :: u64 where "kPayloadMagic = 0x53505256"

definition kFileMagic :: "byte list" where "kFileMagic = bytes_of_string ''SPROV1.0''"

section \<open>BinaryWriter\<close>

text \<open>What one call of the writer appends; \<open>None\<close> is the exception of an over-long string.\<close>

definition put_u8 :: "byte \<Rightarrow> byte list option" where
  "put_u8 v = Some [v]"

definition bytes_u32 :: "u32 \<Rightarrow> byte list" where
  "bytes_u32 v = map (\<lambda>i. ucast (drop_bit (8 * i) v)) [0..<4]"

definition bytes_u64 :: "u64 \<Rightarrow> byte list" where
  "bytes_u64 v = map (\<lambda>i. ucast (drop_bit (8 * i) v)) [0..<8]"

definition put_u32 :: "u32 \<Rightarrow> byte list option" where
  "put_u32 v = Some (bytes_u32 v)"

definition put_u64 :: "u64 \<Rightarrow> byte list option" where
  "put_u64 v = Some (bytes_u64 v)"

definition put_str :: "string \<Rightarrow> byte list option" where
  "put_str s = (if kMaxStringLen < length s then None
     else Some (bytes_u32 (of_nat (length s)) @ bytes_of_string s))"

definition put_u16 :: "16 word \<Rightarrow> byte list option" where
  "put_u16 v = Some [ucast (v AND 0xFF), ucast (drop_bit 8 v AND 0xFF)]"

definition put_i64 :: "64 word \<Rightarrow> byte list option" where
  "put_i64 v = put_u64 v"

text \<open>Consecutive calls.\<close>

fun put_seq :: "byte list option list \<Rightarrow> byte list option" where
  "put_seq [] = Some []"
| "put_seq (w # ws) =
     (case w of None \<Rightarrow> None
      | Some bs \<Rightarrow> (case put_seq ws of None \<Rightarrow> None | Some cs \<Rightarrow> Some (bs @ cs)))"

text \<open>A counted vector: the 32-bit length, then the elements.\<close>

definition put_list :: "('a \<Rightarrow> byte list option) \<Rightarrow> 'a list \<Rightarrow> byte list option" where
  "put_list put xs = put_seq (put_u32 (of_nat (length xs)) # map put xs)"

section \<open>BinaryReader\<close>

record BinaryReader =
  rd_data :: "byte list"
  rd_pos :: nat
  rd_ok :: bool

definition new_reader :: "byte list \<Rightarrow> BinaryReader" where
  "new_reader bs = \<lparr>rd_data = bs, rd_pos = 0, rd_ok = True\<rparr>"

definition can_take :: "nat \<Rightarrow> BinaryReader \<Rightarrow> bool" where
  "can_take n r \<longleftrightarrow> rd_ok r \<and> rd_pos r + n \<le> length (rd_data r)"

definition reader_remaining :: "BinaryReader \<Rightarrow> nat" where
  "reader_remaining r = (if rd_ok r then length (rd_data r) - rd_pos r else 0)"

definition reader_fail :: "BinaryReader \<Rightarrow> BinaryReader" where
  "reader_fail r = r\<lparr>rd_ok := False\<rparr>"

definition advance :: "nat \<Rightarrow> BinaryReader \<Rightarrow> BinaryReader" where
  "advance n r = r\<lparr>rd_pos := rd_pos r + n\<rparr>"

definition peek :: "nat \<Rightarrow> BinaryReader \<Rightarrow> byte list" where
  "peek n r = take n (drop (rd_pos r) (rd_data r))"

fun or_bytes :: "nat \<Rightarrow> byte list \<Rightarrow> ('a::len) word" where
  "or_bytes k [] = 0"
| "or_bytes k (b # bs) = push_bit k (ucast b) OR or_bytes (k + 8) bs"

definition get_u8 :: "BinaryReader \<Rightarrow> byte option \<times> BinaryReader" where
  "get_u8 r = (if can_take 1 r then (Some (rd_data r ! rd_pos r), advance 1 r) else (None, reader_fail r))"

definition get_u32 :: "BinaryReader \<Rightarrow> u32 option \<times> BinaryReader" where
  "get_u32 r = (if can_take 4 r then (Some (or_bytes 0 (peek 4 r)), advance 4 r) else (None, reader_fail r))"

definition get_u64 :: "BinaryReader \<Rightarrow> u64 option \<times> BinaryReader" where
  "get_u64 r = (if can_take 8 r then (Some (or_bytes 0 (peek 8 r)), advance 8 r) else (None, reader_fail r))"

definition get_str :: "BinaryReader \<Rightarrow> string option \<times> BinaryReader" where
  "get_str r =
     (case get_u32 r of
        (None, r) \<Rightarrow> (None, r)
      | (Some len, r) \<Rightarrow>
          if kMaxStringLen < unat len then (None, reader_fail r)
          else if \<not> can_take (unat len) r then (None, reader_fail r)
          else (Some (string_of_bytes (peek (unat len) r)), advance (unat len) r))"

definition get_i64 :: "BinaryReader \<Rightarrow> 64 word option \<times> BinaryReader" where
  "get_i64 r = get_u64 r"

definition reader_skip :: "nat \<Rightarrow> BinaryReader \<Rightarrow> bool \<times> BinaryReader" where
  "reader_skip n r = (if can_take n r then (True, advance n r) else (False, reader_fail r))"

section \<open>Reading steps\<close>

type_synonym 'd step = "'d \<Rightarrow> BinaryReader \<Rightarrow> (string + 'd) \<times> BinaryReader"

text \<open>\<open>field_step\<close>: read a value, or return the message.\<close>

definition field_step ::
  "(BinaryReader \<Rightarrow> 'a option \<times> BinaryReader) \<Rightarrow> string \<Rightarrow> ('a \<Rightarrow> 'd \<Rightarrow> 'd) \<Rightarrow> 'd step" where
  "field_step getv msg upd d r =
     (case getv r of (None, r) \<Rightarrow> (Inl msg, r) | (Some v, r) \<Rightarrow> (Inr (upd v d), r))"

definition id_step :: "string \<Rightarrow> ('tag ScalarIdentifier \<Rightarrow> 'd \<Rightarrow> 'd) \<Rightarrow> 'd step" where
  "id_step msg upd = field_step get_u64 msg (\<lambda>v. upd (ScalarIdentifier v))"

definition enum_step :: "(byte \<Rightarrow> 'e option) \<Rightarrow> string \<Rightarrow> string \<Rightarrow> ('e \<Rightarrow> 'd \<Rightarrow> 'd) \<Rightarrow> 'd step" where
  "enum_step cast msg invalid upd d r =
     (case get_u8 r of
        (None, r) \<Rightarrow> (Inl msg, r)
      | (Some b, r) \<Rightarrow> (case cast b of None \<Rightarrow> (Inl invalid, r) | Some v \<Rightarrow> (Inr (upd v d), r)))"

fun run_steps :: "'d step list \<Rightarrow> 'd step" where
  "run_steps [] d r = (Inr d, r)"
| "run_steps (s # ss) d r =
     (case s d r of (Inl e, r) \<Rightarrow> (Inl e, r) | (Inr d, r) \<Rightarrow> run_steps ss d r)"

primrec repeat_step :: "nat \<Rightarrow> 'd step \<Rightarrow> 'd step" where
  "repeat_step 0 s d r = (Inr d, r)"
| "repeat_step (Suc n) s d r =
     (case s d r of (Inl e, r) \<Rightarrow> (Inl e, r) | (Inr d, r) \<Rightarrow> repeat_step n s d r)"

text \<open>A counted vector: one message for a missing count and one over the bound.\<close>

definition list_step :: "string \<Rightarrow> 'd step \<Rightarrow> 'd step" where
  "list_step msg s d r =
     (case get_u32 r of
        (None, r) \<Rightarrow> (Inl msg, r)
      | (Some n, r) \<Rightarrow> if kMaxVecLen < unat n then (Inl msg, r) else repeat_step (unat n) s d r)"

text \<open>A local object, read by its own steps and then stored.\<close>

definition nested_step :: "'e step list \<Rightarrow> 'e \<Rightarrow> ('e \<Rightarrow> 'd \<Rightarrow> 'd) \<Rightarrow> 'd step" where
  "nested_step steps e upd d r =
     (case run_steps steps e r of (Inl msg, r) \<Rightarrow> (Inl msg, r) | (Inr v, r) \<Rightarrow> (Inr (upd v d), r))"

section \<open>Records\<close>

definition put_dependency :: "Dependency \<Rightarrow> byte list option" where
  "put_dependency dep = put_seq [put_u64 (get (dep_id dep)), put_u64 (get (dep_generation dep)),
     put_str (dep_kind dep), put_str (dep_revision dep)]"

definition put_requirement :: "CompatibilityRequirement \<Rightarrow> byte list option" where
  "put_requirement req = put_seq [put_u8 (CompatibilityDimension_val (req_dimension req)),
     put_str (req_required_value req), put_str (req_note req)]"

definition write_record :: "RecordData \<Rightarrow> byte list option" where
  "write_record d = put_seq [
     put_u64 (get (provenance_id d)),
     put_u64 (get (provenance_generation d)),
     put_u64 (get (subject_id d)),
     put_u8 (SubjectKind_val (subject_kind d)),
     put_u64 (get (state_generation d)),
     put_u64 (get (producer_id d)),
     put_u64 (get (producer_generation d)),
     put_u64 (get (execution_id d)),
     put_u64 (get (attempt_id d)),
     put_u64 (get (attempt_generation d)),
     put_u64 (created_at d),
     put_u64 (get (model_id d)),
     put_u64 (get (model_generation d)),
     put_str (model_revision d),
     put_str (tokenizer d),
     put_u64 (get (adapter_id d)),
     put_u64 (get (adapter_generation d)),
     put_str (adapter_revision d),
     put_u64 (get (composition_id d)),
     put_u64 (get (composition_generation d)),
     put_str (composition_fingerprint d),
     put_u64 (get (runtime_id d)),
     put_u64 (get (runtime_generation d)),
     put_u64 (get (artifact_generation d)),
     put_u64 (get (backend_id d)),
     put_u64 (get (toolchain_id d)),
     put_u64 (get (device_id d)),
     put_str (architecture d),
     put_str (compute_capability d),
     put_str (abi d),
     put_str (dtype d),
     put_str (layout d),
     put_str (shape d),
     put_list (\<lambda>s. put_u64 (get s)) (input_states d),
     put_list (\<lambda>s. put_u64 (get s)) (parent_provenance d),
     put_list put_dependency (dependencies d),
     put_list put_requirement (requirements d),
     put_u64 (get (policy_id d)),
     put_u64 (get (policy_generation d)),
     put_str (policy_fingerprint d),
     put_str (content_digest d),
     put_u64 (coordinator_epoch d),
     put_u64 (get (worker_id d)),
     put_u64 (get (worker_boot d)),
     put_u8 (EvidenceClass_val (evidence d)),
     put_u8 (ValidityState_val (validity d)),
     put_u8 (InvalidationReason_val (invalidation_reason d)),
     put_u8 (ReuseEligibility_val (reuse_eligibility d)),
     put_str (record_note d)]"

definition empty_dependency :: Dependency where
  "empty_dependency = Dependency null_id null_id [] []"

definition dependency_steps :: "Dependency step list" where
  "dependency_steps = [
     id_step ''truncated dependency id''
       (\<lambda>v d. Dependency v (dep_generation d) (dep_kind d) (dep_revision d)),
     id_step ''truncated dependency generation''
       (\<lambda>v d. Dependency (dep_id d) v (dep_kind d) (dep_revision d)),
     field_step get_str ''truncated dependency kind''
       (\<lambda>v d. Dependency (dep_id d) (dep_generation d) v (dep_revision d)),
     field_step get_str ''truncated dependency revision''
       (\<lambda>v d. Dependency (dep_id d) (dep_generation d) (dep_kind d) v)]"

text \<open>\<^verbatim>\<open>req.dimension\<close> has no initialiser; it is set before it is used.\<close>

definition empty_requirement :: CompatibilityRequirement where
  "empty_requirement = CompatibilityRequirement CD_Unknown [] []"

definition requirement_steps :: "CompatibilityRequirement step list" where
  "requirement_steps = [
     enum_step cast_CompatibilityDimension ''truncated requirement dimension''
       ''invalid enum: requirement dimension''
       (\<lambda>v q. CompatibilityRequirement v (req_required_value q) (req_note q)),
     field_step get_str ''truncated requirement value''
       (\<lambda>v q. CompatibilityRequirement (req_dimension q) v (req_note q)),
     field_step get_str ''truncated requirement note''
       (\<lambda>v q. CompatibilityRequirement (req_dimension q) (req_required_value q) v)]"

definition validate_step :: "RecordData step" where
  "validate_step d r = (case validate_record d of
     Some e \<Rightarrow> (Inl (''record failed validation: '' @ e), r) | None \<Rightarrow> (Inr d, r))"

definition record_steps :: "RecordData step list" where
  "record_steps = [
     id_step ''truncated record(provenance_id)'' (\<lambda>v d. d\<lparr>provenance_id := v\<rparr>),
     id_step ''truncated record(provenance_generation)'' (\<lambda>v d. d\<lparr>provenance_generation := v\<rparr>),
     id_step ''truncated record(subject_id)'' (\<lambda>v d. d\<lparr>subject_id := v\<rparr>),
     enum_step cast_SubjectKind ''truncated record(subject_kind)'' ''invalid enum: subject_kind''
       (\<lambda>v d. d\<lparr>subject_kind := v\<rparr>),
     id_step ''truncated record(state_generation)'' (\<lambda>v d. d\<lparr>state_generation := v\<rparr>),
     id_step ''truncated record(producer_id)'' (\<lambda>v d. d\<lparr>producer_id := v\<rparr>),
     id_step ''truncated record(producer_generation)'' (\<lambda>v d. d\<lparr>producer_generation := v\<rparr>),
     id_step ''truncated record(execution_id)'' (\<lambda>v d. d\<lparr>execution_id := v\<rparr>),
     id_step ''truncated record(attempt_id)'' (\<lambda>v d. d\<lparr>attempt_id := v\<rparr>),
     id_step ''truncated record(attempt_generation)'' (\<lambda>v d. d\<lparr>attempt_generation := v\<rparr>),
     field_step get_u64 ''truncated record(created_at)'' (\<lambda>v d. d\<lparr>created_at := v\<rparr>),
     id_step ''truncated record(model_id)'' (\<lambda>v d. d\<lparr>model_id := v\<rparr>),
     id_step ''truncated record(model_generation)'' (\<lambda>v d. d\<lparr>model_generation := v\<rparr>),
     field_step get_str ''truncated record(model_revision)'' (\<lambda>v d. d\<lparr>model_revision := v\<rparr>),
     field_step get_str ''truncated record(tokenizer)'' (\<lambda>v d. d\<lparr>tokenizer := v\<rparr>),
     id_step ''truncated record(adapter_id)'' (\<lambda>v d. d\<lparr>adapter_id := v\<rparr>),
     id_step ''truncated record(adapter_generation)'' (\<lambda>v d. d\<lparr>adapter_generation := v\<rparr>),
     field_step get_str ''truncated record(adapter_revision)'' (\<lambda>v d. d\<lparr>adapter_revision := v\<rparr>),
     id_step ''truncated record(composition_id)'' (\<lambda>v d. d\<lparr>composition_id := v\<rparr>),
     id_step ''truncated record(composition_generation)'' (\<lambda>v d. d\<lparr>composition_generation := v\<rparr>),
     field_step get_str ''truncated record(composition_fingerprint)'' (\<lambda>v d. d\<lparr>composition_fingerprint := v\<rparr>),
     id_step ''truncated record(runtime_id)'' (\<lambda>v d. d\<lparr>runtime_id := v\<rparr>),
     id_step ''truncated record(runtime_generation)'' (\<lambda>v d. d\<lparr>runtime_generation := v\<rparr>),
     id_step ''truncated record(artifact_generation)'' (\<lambda>v d. d\<lparr>artifact_generation := v\<rparr>),
     id_step ''truncated record(backend_id)'' (\<lambda>v d. d\<lparr>backend_id := v\<rparr>),
     id_step ''truncated record(toolchain_id)'' (\<lambda>v d. d\<lparr>toolchain_id := v\<rparr>),
     id_step ''truncated record(device_id)'' (\<lambda>v d. d\<lparr>device_id := v\<rparr>),
     field_step get_str ''truncated record(architecture)'' (\<lambda>v d. d\<lparr>architecture := v\<rparr>),
     field_step get_str ''truncated record(compute_capability)'' (\<lambda>v d. d\<lparr>compute_capability := v\<rparr>),
     field_step get_str ''truncated record(abi)'' (\<lambda>v d. d\<lparr>abi := v\<rparr>),
     field_step get_str ''truncated record(dtype)'' (\<lambda>v d. d\<lparr>dtype := v\<rparr>),
     field_step get_str ''truncated record(layout)'' (\<lambda>v d. d\<lparr>layout := v\<rparr>),
     field_step get_str ''truncated record(shape)'' (\<lambda>v d. d\<lparr>shape := v\<rparr>),
     list_step ''invalid input_states count''
       (id_step ''truncated input_states'' (\<lambda>v d. d\<lparr>input_states := input_states d @ [v]\<rparr>)),
     list_step ''invalid parent_provenance count''
       (id_step ''truncated parent_provenance'' (\<lambda>v d. d\<lparr>parent_provenance := parent_provenance d @ [v]\<rparr>)),
     list_step ''invalid dependencies count''
       (nested_step dependency_steps empty_dependency (\<lambda>v d. d\<lparr>dependencies := dependencies d @ [v]\<rparr>)),
     list_step ''invalid requirements count''
       (nested_step requirement_steps empty_requirement (\<lambda>v d. d\<lparr>requirements := requirements d @ [v]\<rparr>)),
     id_step ''truncated record(policy_id)'' (\<lambda>v d. d\<lparr>policy_id := v\<rparr>),
     id_step ''truncated record(policy_generation)'' (\<lambda>v d. d\<lparr>policy_generation := v\<rparr>),
     field_step get_str ''truncated record(policy_fingerprint)'' (\<lambda>v d. d\<lparr>policy_fingerprint := v\<rparr>),
     field_step get_str ''truncated record(content_digest)'' (\<lambda>v d. d\<lparr>content_digest := v\<rparr>),
     field_step get_u64 ''truncated record(coordinator_epoch)'' (\<lambda>v d. d\<lparr>coordinator_epoch := v\<rparr>),
     id_step ''truncated record(worker_id)'' (\<lambda>v d. d\<lparr>worker_id := v\<rparr>),
     id_step ''truncated record(worker_boot)'' (\<lambda>v d. d\<lparr>worker_boot := v\<rparr>),
     enum_step cast_EvidenceClass ''truncated record(evidence)'' ''invalid enum: evidence''
       (\<lambda>v d. d\<lparr>evidence := v\<rparr>),
     enum_step cast_ValidityState ''truncated record(validity)'' ''invalid enum: validity''
       (\<lambda>v d. d\<lparr>validity := v\<rparr>),
     enum_step cast_InvalidationReason ''truncated record(invalidation_reason)'' ''invalid enum: invalidation_reason''
       (\<lambda>v d. d\<lparr>invalidation_reason := v\<rparr>),
     enum_step cast_ReuseEligibility ''truncated record(reuse_eligibility)'' ''invalid enum: reuse_eligibility''
       (\<lambda>v d. d\<lparr>reuse_eligibility := v\<rparr>),
     field_step get_str ''truncated record(note)'' (\<lambda>v d. d\<lparr>record_note := v\<rparr>),
     validate_step]"

definition read_record :: "RecordData step" where
  "read_record = run_steps record_steps"

section \<open>Authority\<close>

definition write_authority :: "AuthoritySnapshot \<Rightarrow> byte list option" where
  "write_authority a = put_seq [put_u64 (as_epoch a),
     put_list (\<lambda>(w, b). put_seq [put_u64 (get w), put_u64 (get b)]) (Mapping.ordered_entries (as_boots a)),
     put_u64 (get (as_attempt_id a)),
     put_u64 (get (as_attempt_generation a)),
     put_u64 (get (as_state_generation a)),
     put_u64 (get (as_provenance_generation a)),
     put_u64 (get (as_artifact_generation a)),
     put_u64 (get (as_model_generation a)),
     put_u64 (get (as_adapter_generation a)),
     put_u64 (get (as_composition_generation a)),
     put_u64 (get (as_policy_generation a)),
     put_u64 (get (as_dependency_generation a))]"

definition empty_authority :: AuthoritySnapshot where
  "empty_authority = \<lparr>as_epoch = 1, as_boots = Mapping.empty, as_attempt_id = null_id,
     as_attempt_generation = null_id, as_state_generation = null_id,
     as_provenance_generation = null_id, as_artifact_generation = null_id,
     as_model_generation = null_id, as_adapter_generation = null_id,
     as_composition_generation = null_id, as_policy_generation = null_id,
     as_dependency_generation = null_id\<rparr>"

definition boot_steps :: "(WorkerId \<times> WorkerBootId) step list" where
  "boot_steps = [id_step ''truncated boots(worker)'' (\<lambda>v p. (v, snd p)),
     id_step ''truncated boots(boot)'' (\<lambda>v p. (fst p, v))]"

definition authority_steps :: "AuthoritySnapshot step list" where
  "authority_steps = [
     field_step get_u64 ''truncated authority(epoch)'' (\<lambda>v a. a\<lparr>as_epoch := v\<rparr>),
     list_step ''invalid boots count''
       (nested_step boot_steps (null_id, null_id)
         (\<lambda>p a. a\<lparr>as_boots := Mapping.update (fst p) (snd p) (as_boots a)\<rparr>)),
     id_step ''truncated authority(attempt_id)'' (\<lambda>v a. a\<lparr>as_attempt_id := v\<rparr>),
     id_step ''truncated authority(attempt_generation)'' (\<lambda>v a. a\<lparr>as_attempt_generation := v\<rparr>),
     id_step ''truncated authority(state_generation)'' (\<lambda>v a. a\<lparr>as_state_generation := v\<rparr>),
     id_step ''truncated authority(provenance_generation)'' (\<lambda>v a. a\<lparr>as_provenance_generation := v\<rparr>),
     id_step ''truncated authority(artifact_generation)'' (\<lambda>v a. a\<lparr>as_artifact_generation := v\<rparr>),
     id_step ''truncated authority(model_generation)'' (\<lambda>v a. a\<lparr>as_model_generation := v\<rparr>),
     id_step ''truncated authority(adapter_generation)'' (\<lambda>v a. a\<lparr>as_adapter_generation := v\<rparr>),
     id_step ''truncated authority(composition_generation)'' (\<lambda>v a. a\<lparr>as_composition_generation := v\<rparr>),
     id_step ''truncated authority(policy_generation)'' (\<lambda>v a. a\<lparr>as_policy_generation := v\<rparr>),
     id_step ''truncated authority(dependency_generation)'' (\<lambda>v a. a\<lparr>as_dependency_generation := v\<rparr>)]"

definition read_authority :: "AuthoritySnapshot step" where
  "read_authority = run_steps authority_steps"

section \<open>Snapshots\<close>

definition put_status :: "StateId \<times> RecordStatus \<Rightarrow> byte list option" where
  "put_status p = put_seq [put_u64 (get (fst p)), put_u8 (ValidityState_val (rs_validity (snd p))),
     put_u8 (InvalidationReason_val (rs_reason (snd p))),
     put_u64 (get (rs_provenance_generation (snd p))), put_str (rs_detail (snd p))]"

definition encode_snapshot :: "StoreSnapshot \<Rightarrow> byte list option" where
  "encode_snapshot s = put_seq [put_u64 kPayloadMagic, put_u32 kFormatVersion,
     put_u64 (of_nat (length (sn_records s))), put_seq (map write_record (sn_records s)),
     put_list put_status (Mapping.ordered_entries (sn_status s)),
     write_authority (sn_authority s)]"

definition empty_snapshot :: StoreSnapshot where
  "empty_snapshot = \<lparr>sn_records = [], sn_status = Mapping.empty, sn_authority = empty_authority\<rparr>"

definition status_steps :: "(StateId \<times> RecordStatus) step list" where
  "status_steps = [
     id_step ''truncated status id'' (\<lambda>v p. (v, snd p)),
     enum_step cast_ValidityState ''truncated status validity'' ''invalid enum: status validity''
       (\<lambda>v p. (fst p, (snd p)\<lparr>rs_validity := v\<rparr>)),
     enum_step cast_InvalidationReason ''truncated status reason'' ''invalid enum: status reason''
       (\<lambda>v p. (fst p, (snd p)\<lparr>rs_reason := v\<rparr>)),
     id_step ''truncated status provenance generation''
       (\<lambda>v p. (fst p, (snd p)\<lparr>rs_provenance_generation := v\<rparr>)),
     field_step get_str ''truncated status detail'' (\<lambda>v p. (fst p, (snd p)\<lparr>rs_detail := v\<rparr>))]"

definition expect_step :: "(BinaryReader \<Rightarrow> 'a option \<times> BinaryReader) \<Rightarrow> 'a \<Rightarrow> string \<Rightarrow> string \<Rightarrow> 'd step" where
  "expect_step getv v missing bad d r =
     (case getv r of
        (None, r) \<Rightarrow> (Inl missing, r)
      | (Some u, r) \<Rightarrow> if u \<noteq> v then (Inl bad, r) else (Inr d, r))"

text \<open>One iteration of the record loop: read, then refuse a provenance id already in the stream.\<close>

definition push_record_step :: "StoreSnapshot step" where
  "push_record_step s r =
     (case read_record empty_record r of
        (Inl e, r) \<Rightarrow> (Inl e, r)
      | (Inr d, r) \<Rightarrow>
          if list_ex (\<lambda>x. provenance_id x = provenance_id d) (sn_records s)
          then (Inl ''duplicate provenance id in stream'', r)
          else (Inr (s\<lparr>sn_records := sn_records s @ [d]\<rparr>), r))"

definition records_step :: "StoreSnapshot step" where
  "records_step s r =
     (case get_u64 r of
        (None, r) \<Rightarrow> (Inl ''truncated: missing record count'', r)
      | (Some n, r) \<Rightarrow>
          if kMaxRecords < unat n then (Inl ''record count exceeds bound'', r)
          else repeat_step (unat n) push_record_step s r)"

definition end_step :: "'d step" where
  "end_step d r = (if reader_remaining r \<noteq> 0 then (Inl ''trailing data after snapshot'', r) else (Inr d, r))"

definition snapshot_steps :: "StoreSnapshot step list" where
  "snapshot_steps = [
     expect_step get_u64 kPayloadMagic ''truncated: missing payload magic'' ''bad payload magic'',
     expect_step get_u32 kFormatVersion ''truncated: missing version'' ''unsupported format version'',
     records_step,
     list_step ''invalid status count''
       (nested_step status_steps (null_id, default_status)
         (\<lambda>p s. s\<lparr>sn_status := Mapping.update (fst p) (snd p) (sn_status s)\<rparr>)),
     nested_step authority_steps empty_authority (\<lambda>a s. s\<lparr>sn_authority := a\<rparr>),
     end_step]"

definition decode_snapshot :: "byte list \<Rightarrow> string + StoreSnapshot" where
  "decode_snapshot bs = fst (run_steps snapshot_steps empty_snapshot (new_reader bs))"

section \<open>Files\<close>

text \<open>
  A file system is a map from paths to contents.  \<open>IoFaults\<close> is what the environment decides
  during one save: whether the temporary file opens, how much of it is written (\<open>None\<close>:
  everything), and whether each rename succeeds.  On Windows there is one replacing move, on the
  other systems a rename that is retried after removing the target.
\<close>

type_synonym filesystem = "string \<Rightarrow> byte list option"

datatype Platform = Windows | Posix

record IoFaults =
  platform :: Platform
  open_ok :: bool
  written :: "nat option"
  rename1_ok :: bool
  rename2_ok :: bool

definition file_bytes :: "byte list \<Rightarrow> byte list" where
  "file_bytes payload = kFileMagic @ bytes_u32 kFormatVersion @ bytes_u32 0
     @ bytes_u64 (of_nat (length payload)) @ bytes_u32 (crc32 payload) @ payload"

definition rename_file :: "string \<Rightarrow> string \<Rightarrow> filesystem \<Rightarrow> filesystem" where
  "rename_file src dst fs = (fs(dst := fs src))(src := None)"

datatype save_result = Saved | SaveError string | SaveThrew

definition save_file :: "StoreSnapshot \<Rightarrow> string \<Rightarrow> IoFaults \<Rightarrow> filesystem \<Rightarrow> save_result \<times> filesystem" where
  "save_file s path io fs =
     (case encode_snapshot s of
        None \<Rightarrow> (SaveThrew, fs)
      | Some payload \<Rightarrow>
          let out = file_bytes payload; tmp = path @ ''.tmp''
          in if \<not> open_ok io then (SaveError (''cannot open temp file for write: '' @ tmp), fs)
             else case written io of
               Some n \<Rightarrow> (SaveError (''write failed: '' @ tmp), fs(tmp := Some (take n out)))
             | None \<Rightarrow>
                 let fs1 = fs(tmp := Some out)
                 in if rename1_ok io then (Saved, rename_file tmp path fs1)
                    else if platform io = Windows
                      then (SaveError (''atomic replace failed: '' @ path), fs1)
                    else let fs2 = fs1(path := None)
                         in if rename2_ok io then (Saved, rename_file tmp path fs2)
                            else (SaveError (''atomic replace failed: '' @ path), fs2))"

record LoadResult =
  lr_snapshot :: "StoreSnapshot option"
  lr_error :: string
  lr_stored_crc :: u32
  lr_computed_crc :: u32

definition load_failed :: "string \<Rightarrow> LoadResult" where
  "load_failed e = \<lparr>lr_snapshot = None, lr_error = e, lr_stored_crc = 0, lr_computed_crc = 0\<rparr>"

fun check_magic :: "byte list \<Rightarrow> BinaryReader \<Rightarrow> bool \<times> BinaryReader" where
  "check_magic [] r = (True, r)"
| "check_magic (m # ms) r =
     (case get_u8 r of
        (None, r) \<Rightarrow> (False, r)
      | (Some c, r) \<Rightarrow> if c \<noteq> m then (False, r) else check_magic ms r)"

text \<open>A header value: the reader has all 28 bytes, so a value is always there.\<close>

definition header_value :: "'a::zero option \<Rightarrow> 'a" where
  "header_value v = (case v of None \<Rightarrow> 0 | Some x \<Rightarrow> x)"

definition load_bytes :: "byte list \<Rightarrow> LoadResult" where
  "load_bytes bytes =
     (if length bytes < 28 then load_failed ''file too small (truncated header)''
      else
        let (magic, r) = check_magic kFileMagic (new_reader (take 28 bytes))
        in if \<not> magic then load_failed ''bad file magic''
           else
             let (ver, r) = get_u32 r
             in if header_value ver \<noteq> kFormatVersion then load_failed ''unsupported file version''
                else
                  let (flags, r) = get_u32 r; (plen, r) = get_u64 r; (crc, r) = get_u32 r;
                      payload_len = unat (header_value plen);
                      res = (load_failed [])\<lparr>lr_stored_crc := header_value crc\<rparr>
                  in if kMaxPayloadLen < payload_len then res\<lparr>lr_error := ''payload length exceeds bound''\<rparr>
                     else if length bytes - 28 < payload_len then res\<lparr>lr_error := ''truncated payload''\<rparr>
                     else if payload_len + 28 < length bytes
                       then res\<lparr>lr_error := ''trailing garbage after payload''\<rparr>
                     else if payload_len + 28 \<noteq> length bytes
                       then res\<lparr>lr_error := ''payload length mismatch''\<rparr>
                     else
                       let payload = drop 28 bytes; res = res\<lparr>lr_computed_crc := crc32 payload\<rparr>
                       in if lr_computed_crc res \<noteq> lr_stored_crc res
                          then res\<lparr>lr_error := ''crc32 mismatch (corruption detected)''\<rparr>
                          else case decode_snapshot payload of
                              Inr s \<Rightarrow> res\<lparr>lr_snapshot := Some s\<rparr>
                            | Inl e \<Rightarrow> res\<lparr>lr_error := e\<rparr>)"

text \<open>What the environment decides during one load: the size query and the read may fail.\<close>

datatype ReadFault = No_fault | Stat_fault | Read_fault

definition load_file :: "string \<Rightarrow> ReadFault \<Rightarrow> filesystem \<Rightarrow> LoadResult" where
  "load_file path fault fs = (case fs path of
     None \<Rightarrow> load_failed (''cannot open for read: '' @ path)
   | Some bytes \<Rightarrow>
       if fault = Stat_fault then load_failed (''cannot stat: '' @ path)
       else if bytes \<noteq> [] \<and> fault = Read_fault then load_failed (''read failed: '' @ path)
       else load_bytes bytes)"

end
