(* ===== verification/Persist_Codec.thy ===== *)
theory Persist_Codec
  imports Persist
begin

text \<open>
  The format reads back what it writes.  \<open>reads s d bs d'\<close> says that the step \<open>s\<close> takes exactly the
  bytes \<open>bs\<close> and turns \<open>d\<close> into \<open>d'\<close>, whatever follows; \<open>consumes s\<close> that whenever \<open>s\<close> succeeds
  it has done so for the bytes it took.  The primitive values state the contract in the locale
  \<open>codec\<close>; the composition rules then follow the shape of the steps up to whole snapshots.
\<close>

section \<open>Little-endian words\<close>

lemma bit_or_bytes:
  "bit (or_bytes k bs :: 'a::len word) n \<longleftrightarrow>
    k \<le> n \<and> n < LENGTH('a) \<and> (n - k) div 8 < length bs \<and> bit (bs ! ((n - k) div 8)) ((n - k) mod 8)"
proof (induction bs arbitrary: k)
  case (Cons b bs)
  show ?case
  proof (cases "k \<le> n \<and> n < LENGTH('a)")
    case False
    then show ?thesis
      by (auto simp: bit_or_iff bit_push_bit_iff Cons.IH dest: bit_imp_le_length)
  next
    case True
    then have kn: "k \<le> n" "n < LENGTH('a)" by auto
    show ?thesis
    proof (cases "n - k < 8")
      case small: True
      then have "(n - k) div 8 = 0" "(n - k) mod 8 = n - k" "\<not> k + 8 \<le> n" by auto
      with kn show ?thesis
        by (auto simp: bit_or_iff bit_push_bit_iff Cons.IH bit_ucast_iff)
    next
      case False
      then have d: "(n - k) div 8 = Suc ((n - (k + 8)) div 8)" "(n - (k + 8)) mod 8 = (n - k) mod 8"
        "k + 8 \<le> n"
        by (auto simp: div_if [of "n - k"] mod_if [of "n - k"] diff_diff_eq)
      have "\<not> bit b (n - k)" using False bit_imp_le_length [of b "n - k"] by auto
      with kn d show ?thesis
        by (simp add: bit_or_iff bit_push_bit_iff Cons.IH bit_ucast_iff)
    qed
  qed
qed simp

lemma bit_byte_of: "bit (ucast (drop_bit j (v :: 'a::len word)) :: byte) m \<longleftrightarrow> m < 8 \<and> bit v (j + m)"
  by (auto simp: bit_ucast_iff bit_drop_bit_eq)

lemma or_bytes_split:
  assumes "LENGTH('a) = 8 * n"
  shows "or_bytes 0 (map (\<lambda>i. ucast (drop_bit (8 * i) v)) [0..<n] :: byte list) = (v :: 'a::len word)"
proof (rule bit_word_eqI)
  fix m assume m: "m < LENGTH('a)"
  then have "m div 8 < n" using assms by (simp add: less_mult_imp_div_less mult.commute)
  with m show "bit (or_bytes 0 (map (\<lambda>i. ucast (drop_bit (8 * i) v)) [0..<n] :: byte list) :: 'a word) m = bit v m"
    by (simp add: bit_or_bytes bit_byte_of)
qed

lemma split_or_bytes:
  assumes "LENGTH('a) = 8 * n" "length bs = n"
  shows "map (\<lambda>i. ucast (drop_bit (8 * i) (or_bytes 0 bs :: 'a::len word))) [0..<n] = (bs :: byte list)"
proof (rule nth_equalityI)
  fix i assume "i < length (map (\<lambda>i. ucast (drop_bit (8 * i) (or_bytes 0 bs :: 'a word)) :: byte) [0..<n])"
  then have i: "i < n" by simp
  show "map (\<lambda>i. ucast (drop_bit (8 * i) (or_bytes 0 bs :: 'a word))) [0..<n] ! i = bs ! i"
  proof (rule bit_word_eqI)
    fix m assume m: "m < LENGTH(8)"
    then have "8 * i + m < 8 * n" using i by simp
    with m i assms(1) assms(2) show "bit (map (\<lambda>i. ucast (drop_bit (8 * i) (or_bytes 0 bs :: 'a word)) :: byte) [0..<n] ! i) m
        = bit (bs ! i) m"
      by (simp add: bit_byte_of bit_or_bytes)
  qed
qed (simp add: assms)

lemma u32_bytes [simp]: "or_bytes 0 (bytes_u32 v) = v" "length (bytes_u32 v) = 4"
  unfolding bytes_u32_def by (rule or_bytes_split) simp_all

lemma u64_bytes [simp]: "or_bytes 0 (bytes_u64 v) = v" "length (bytes_u64 v) = 8"
  unfolding bytes_u64_def by (rule or_bytes_split) simp_all

lemma bytes_u32_or: "length bs = 4 \<Longrightarrow> bytes_u32 (or_bytes 0 bs) = bs"
  unfolding bytes_u32_def by (rule split_or_bytes) simp_all

lemma bytes_u64_or: "length bs = 8 \<Longrightarrow> bytes_u64 (or_bytes 0 bs) = bs"
  unfolding bytes_u64_def by (rule split_or_bytes) simp_all

section \<open>What a step reads\<close>

text \<open>
  \<open>reads step d bs d'\<close>: wherever the input continues with \<open>bs\<close>, the step consumes exactly these
  bytes and turns \<open>d\<close> into \<open>d'\<close>.  \<open>consumes step\<close>: every success of the step is of this kind, so
  it never depends on what follows the bytes it consumed.
\<close>

definition reader_good :: "BinaryReader \<Rightarrow> bool" where
  "reader_good r \<longleftrightarrow> rd_ok r \<and> rd_pos r \<le> length (rd_data r)"

definition rest_of :: "BinaryReader \<Rightarrow> byte list" where
  "rest_of r = drop (rd_pos r) (rd_data r)"

definition reads :: "'d step \<Rightarrow> 'd \<Rightarrow> byte list \<Rightarrow> 'd \<Rightarrow> bool" where
  "reads step d bs d' \<longleftrightarrow> (\<forall>r rest. reader_good r \<longrightarrow> rest_of r = bs @ rest \<longrightarrow>
     step d r = (Inr d', advance (length bs) r))"

definition consumes :: "'d step \<Rightarrow> bool" where
  "consumes step \<longleftrightarrow> (\<forall>d r d' r'. reader_good r \<longrightarrow> step d r = (Inr d', r') \<longrightarrow>
     (\<exists>bs rest. rest_of r = bs @ rest \<and> r' = advance (length bs) r \<and> reads step d bs d'))"

named_theorems reads_intro "what a reading step reads"
named_theorems consumes_intro "steps that depend only on what they consume"

lemma advance_good:
  assumes "reader_good r" "rest_of r = bs @ rest"
  shows "reader_good (advance (length bs) r)" "rest_of (advance (length bs) r) = rest"
proof -
  have "length (bs @ rest) = length (rd_data r) - rd_pos r" using assms(2) by (metis length_drop rest_of_def)
  moreover have "rd_ok r" "rd_pos r \<le> length (rd_data r)" using assms(1) by (simp_all add: reader_good_def)
  ultimately have "rd_pos r + length bs \<le> length (rd_data r)" by simp
  then show "reader_good (advance (length bs) r)"
    using \<open>rd_ok r\<close> by (simp add: reader_good_def advance_def)
  have "rest_of (advance (length bs) r) = drop (length bs) (rest_of r)"
    by (simp add: rest_of_def advance_def add.commute)
  then show "rest_of (advance (length bs) r) = rest" by (simp add: assms(2))
qed

lemma advance_advance [simp]: "advance n (advance m r) = advance (m + n) r"
  by (simp add: advance_def)

lemma advance_0 [simp]: "advance 0 r = r"
  by (simp add: advance_def)

lemma can_take_rest: "reader_good r \<Longrightarrow> can_take n r \<longleftrightarrow> n \<le> length (rest_of r)"
  by (auto simp: reader_good_def can_take_def rest_of_def)

lemma peek_rest: "peek n r = take n (rest_of r)"
  by (simp add: peek_def rest_of_def)

lemma readsD: "reads step d bs d' \<Longrightarrow> reader_good r \<Longrightarrow> rest_of r = bs @ rest \<Longrightarrow>
    step d r = (Inr d', advance (length bs) r)"
  by (simp add: reads_def)

text \<open>The contract of a primitive: what it writes is what it reads, and it reads nothing else.\<close>

locale codec =
  fixes put :: "'a \<Rightarrow> byte list option" and getv :: "BinaryReader \<Rightarrow> 'a option \<times> BinaryReader"
  assumes get_put: "put v = Some bs \<Longrightarrow> reader_good r \<Longrightarrow> rest_of r = bs @ rest \<Longrightarrow>
      getv r = (Some v, advance (length bs) r)"
    and put_get: "reader_good r \<Longrightarrow> getv r = (Some v, r') \<Longrightarrow>
      \<exists>bs rest. put v = Some bs \<and> rest_of r = bs @ rest \<and> r' = advance (length bs) r"
begin

lemma reads_field: "put v = Some bs \<Longrightarrow> reads (field_step getv msg upd) d bs (upd v d)"
  by (simp add: reads_def field_step_def get_put)

lemma consumes_field: "consumes (field_step getv msg upd)"
  unfolding consumes_def
proof (intro allI impI)
  fix d r d' r' assume r: "reader_good r" "field_step getv msg upd d r = (Inr d', r')"
  then obtain v where v: "getv r = (Some v, r')" "d' = upd v d"
    by (auto simp: field_step_def split: prod.splits option.splits)
  from put_get [OF r(1) v(1)] obtain bs rest where
    b: "put v = Some bs" "rest_of r = bs @ rest" "r' = advance (length bs) r" by blast
  have "reads (field_step getv msg upd) d bs d'" unfolding v(2) by (rule reads_field [OF b(1)])
  with b show "\<exists>bs rest. rest_of r = bs @ rest \<and> r' = advance (length bs) r
      \<and> reads (field_step getv msg upd) d bs d'" by metis
qed

lemma reads_expect: "put v = Some bs \<Longrightarrow> reads (expect_step getv v missing bad) d bs d"
  by (simp add: reads_def expect_step_def get_put)

lemma consumes_expect: "consumes (expect_step getv v missing bad)"
  unfolding consumes_def
proof (intro allI impI)
  fix d r d' r' assume r: "reader_good r" "expect_step getv v missing bad d r = (Inr d', r')"
  then have v: "getv r = (Some v, r')" "d' = d"
    by (auto simp: expect_step_def split: prod.splits option.splits if_splits)
  from put_get [OF r(1) v(1)] obtain bs rest where
    b: "put v = Some bs" "rest_of r = bs @ rest" "r' = advance (length bs) r" by blast
  have "reads (expect_step getv v missing bad) d bs d'" unfolding v(2) by (rule reads_expect [OF b(1)])
  with b show "\<exists>bs rest. rest_of r = bs @ rest \<and> r' = advance (length bs) r
      \<and> reads (expect_step getv v missing bad) d bs d'" by metis
qed

end

lemma fixed_get_put:
  assumes "reader_good r" "rest_of r = bs @ rest" "length bs = n"
  shows "can_take n r" "peek n r = bs"
  using assms by (simp_all add: can_take_rest peek_rest)

lemma fixed_put_get:
  assumes "reader_good r" "can_take n r"
  shows "rest_of r = peek n r @ drop n (rest_of r)" "length (peek n r) = n"
  using assms by (simp_all add: can_take_rest peek_rest)

interpretation u8_codec: codec put_u8 get_u8
proof
  fix v bs r rest v' r'
  show "put_u8 v = Some bs \<Longrightarrow> reader_good r \<Longrightarrow> rest_of r = bs @ rest \<Longrightarrow>
      get_u8 r = (Some v, advance (length bs) r)"
  proof -
    assume a: "put_u8 v = Some bs" "reader_good r" "rest_of r = bs @ rest"
    then have bs: "bs = [v]" by (simp add: put_u8_def)
    have "can_take 1 r" using fixed_get_put [OF a(2,3), of 1] by (simp add: bs)
    moreover have "rd_data r ! rd_pos r = v"
      using a(2,3) hd_drop_conv_nth [of "rd_pos r" "rd_data r"] \<open>can_take 1 r\<close>
      by (simp add: bs rest_of_def can_take_def)
    ultimately show ?thesis by (simp add: get_u8_def bs)
  qed
  show "reader_good r \<Longrightarrow> get_u8 r = (Some v', r') \<Longrightarrow>
      \<exists>bs rest. put_u8 v' = Some bs \<and> rest_of r = bs @ rest \<and> r' = advance (length bs) r"
  proof -
    assume a: "reader_good r" "get_u8 r = (Some v', r')"
    then have t: "can_take 1 r" "v' = rd_data r ! rd_pos r" "r' = advance 1 r"
      by (auto simp: get_u8_def split: if_splits)
    then have "rest_of r = v' # drop (Suc (rd_pos r)) (rd_data r)"
      by (simp add: rest_of_def can_take_def Cons_nth_drop_Suc)
    with t show ?thesis by (auto simp: put_u8_def)
  qed
qed

interpretation u32_codec: codec put_u32 get_u32
proof
  fix v bs r rest
  show "put_u32 v = Some bs \<Longrightarrow> reader_good r \<Longrightarrow> rest_of r = bs @ rest \<Longrightarrow>
      get_u32 r = (Some v, advance (length bs) r)"
    using fixed_get_put [of r bs rest 4] by (auto simp: put_u32_def get_u32_def)
next
  fix v r r' assume "reader_good r" "get_u32 r = (Some v, r')"
  then show "\<exists>bs rest. put_u32 v = Some bs \<and> rest_of r = bs @ rest \<and> r' = advance (length bs) r"
    using fixed_put_get [of r 4]
    by (intro exI [of _ "peek 4 r"] exI [of _ "drop 4 (rest_of r)"])
      (auto simp: get_u32_def put_u32_def bytes_u32_or split: if_splits)
qed

interpretation u64_codec: codec put_u64 get_u64
proof
  fix v bs r rest
  show "put_u64 v = Some bs \<Longrightarrow> reader_good r \<Longrightarrow> rest_of r = bs @ rest \<Longrightarrow>
      get_u64 r = (Some v, advance (length bs) r)"
    using fixed_get_put [of r bs rest 8] by (auto simp: put_u64_def get_u64_def)
next
  fix v r r' assume "reader_good r" "get_u64 r = (Some v, r')"
  then show "\<exists>bs rest. put_u64 v = Some bs \<and> rest_of r = bs @ rest \<and> r' = advance (length bs) r"
    using fixed_put_get [of r 8]
    by (intro exI [of _ "peek 8 r"] exI [of _ "drop 8 (rest_of r)"])
      (auto simp: get_u64_def put_u64_def bytes_u64_or split: if_splits)
qed

lemma unat_length_u32: "n \<le> kMaxStringLen \<Longrightarrow> unat (of_nat n :: u32) = n"
  by (simp add: kMaxStringLen_def unat_of_nat take_bit_nat_eq_self)

interpretation str_codec: codec put_str get_str
proof
  fix v bs r rest
  assume a: "put_str v = Some bs" "reader_good r" "rest_of r = bs @ rest"
  then have len: "length v \<le> kMaxStringLen"
    and bs: "bs = bytes_u32 (of_nat (length v)) @ bytes_of_string v"
    by (auto simp: put_str_def split: if_splits)
  have r1: "rest_of r = bytes_u32 (of_nat (length v)) @ (bytes_of_string v @ rest)"
    using a(3) by (simp add: bs)
  have g: "get_u32 r = (Some (of_nat (length v)), advance 4 r)"
    using u32_codec.get_put [OF _ a(2) r1] by (simp add: put_u32_def)
  note adv = advance_good [OF a(2) r1, unfolded u32_bytes]
  have "can_take (length v) (advance 4 r)" "peek (length v) (advance 4 r) = bytes_of_string v"
    using fixed_get_put [OF adv, of "length v"] by simp_all
  then show "get_str r = (Some v, advance (length bs) r)"
    using len by (simp add: get_str_def g unat_length_u32 bs)
next
  fix v r r' assume a: "reader_good r" "get_str r = (Some v, r')"
  then obtain len r1 where g: "get_u32 r = (Some len, r1)" "unat len \<le> kMaxStringLen"
    "can_take (unat len) r1" "v = string_of_bytes (peek (unat len) r1)" "r' = advance (unat len) r1"
    by (auto simp: get_str_def split: prod.splits option.splits if_splits)
  from u32_codec.put_get [OF a(1) g(1)] obtain rest where
    r1: "rest_of r = bytes_u32 len @ rest" "r1 = advance 4 r" by (auto simp: put_u32_def)
  note adv = advance_good [OF a(1) r1(1), unfolded u32_bytes, folded r1(2)]
  note body = fixed_put_get [OF adv(1) g(3)]
  have "length v = unat len" using body(2) g(4) by simp
  then have "put_str v = Some (bytes_u32 len @ peek (unat len) r1)"
    using g(2,4) by (simp add: put_str_def)
  moreover have "rest_of r = (bytes_u32 len @ peek (unat len) r1) @ drop (unat len) rest"
    using r1(1) body(1) adv(2) by (simp add: append_assoc)
  moreover have "r' = advance (length (bytes_u32 len @ peek (unat len) r1)) r"
    using g(5) r1(2) body(2) by simp
  ultimately show "\<exists>bs rest. put_str v = Some bs \<and> rest_of r = bs @ rest \<and> r' = advance (length bs) r"
    by blast
qed

section \<open>Composing steps\<close>

lemmas reads_u64 [reads_intro] = u64_codec.reads_field
lemmas reads_str [reads_intro] = str_codec.reads_field
lemmas consumes_primitive [consumes_intro] = u64_codec.consumes_field str_codec.consumes_field
  u32_codec.consumes_expect u64_codec.consumes_expect

lemma reads_id [reads_intro]: "put_u64 (get i) = Some bs \<Longrightarrow> reads (id_step msg upd) d bs (upd i d)"
  using u64_codec.reads_field [of "get i" bs msg "\<lambda>v. upd (ScalarIdentifier v)" d]
  by (simp add: id_step_def)

lemma consumes_id [consumes_intro]: "consumes (id_step msg upd)"
  unfolding id_step_def by (rule u64_codec.consumes_field)

lemma reads_enum:
  "put_u8 b = Some bs \<Longrightarrow> cast b = Some v \<Longrightarrow> reads (enum_step cast msg invalid upd) d bs (upd v d)"
  by (simp add: reads_def enum_step_def u8_codec.get_put)

lemma reads_enums [reads_intro]:
  "put_u8 (SubjectKind_val k) = Some bs \<Longrightarrow> reads (enum_step cast_SubjectKind msg bad upd1) d bs (upd1 k d)"
  "put_u8 (EvidenceClass_val e) = Some bs \<Longrightarrow> reads (enum_step cast_EvidenceClass msg bad upd2) d bs (upd2 e d)"
  "put_u8 (ValidityState_val v) = Some bs \<Longrightarrow> reads (enum_step cast_ValidityState msg bad upd3) d bs (upd3 v d)"
  "put_u8 (InvalidationReason_val i) = Some bs \<Longrightarrow>
    reads (enum_step cast_InvalidationReason msg bad upd4) d bs (upd4 i d)"
  "put_u8 (ReuseEligibility_val r) = Some bs \<Longrightarrow> reads (enum_step cast_ReuseEligibility msg bad upd5) d bs (upd5 r d)"
  "put_u8 (CompatibilityDimension_val c) = Some bs \<Longrightarrow>
    reads (enum_step cast_CompatibilityDimension msg bad upd6) d bs (upd6 c d)"
  by (simp_all add: reads_def enum_step_def u8_codec.get_put)

lemma consumes_enum [consumes_intro]: "consumes (enum_step cast msg invalid upd)"
  unfolding consumes_def
proof (intro allI impI)
  fix d r d' r' assume r: "reader_good r" "enum_step cast msg invalid upd d r = (Inr d', r')"
  then obtain b v where v: "get_u8 r = (Some b, r')" "cast b = Some v" "d' = upd v d"
    by (auto simp: enum_step_def split: prod.splits option.splits)
  from u8_codec.put_get [OF r(1) v(1)] obtain bs rest where
    b: "put_u8 b = Some bs" "rest_of r = bs @ rest" "r' = advance (length bs) r" by blast
  have "reads (enum_step cast msg invalid upd) d bs d'" unfolding v(3)
    using b(1) v(2) by (rule reads_enum)
  with b show "\<exists>bs rest. rest_of r = bs @ rest \<and> r' = advance (length bs) r
      \<and> reads (enum_step cast msg invalid upd) d bs d'" by metis
qed

lemma reads_Nil: "reads (run_steps []) d [] d"
  by (simp add: reads_def)

text \<open>Two steps in a row, in whatever form the code has them.\<close>

lemma reads_then:
  assumes "reads s d bs d1" "reads t d1 cs d2"
    and "\<And>r. u d r = (case s d r of (Inl e, r) \<Rightarrow> (Inl e, r) | (Inr d, r) \<Rightarrow> t d r)"
  shows "reads u d (bs @ cs) d2"
  unfolding reads_def
proof (intro allI impI)
  fix r rest assume r: "reader_good r" "rest_of r = (bs @ cs) @ rest"
  then have r1: "rest_of r = bs @ (cs @ rest)" by simp
  note adv = advance_good [OF r(1) r1]
  show "u d r = (Inr d2, advance (length (bs @ cs)) r)"
    by (simp add: assms(3) readsD [OF assms(1) r(1) r1] readsD [OF assms(2) adv])
qed

lemma consumes_then:
  assumes "consumes s" "consumes t"
    and "\<And>d r. u d r = (case s d r of (Inl e, r) \<Rightarrow> (Inl e, r) | (Inr d, r) \<Rightarrow> t d r)"
  shows "consumes u"
  unfolding consumes_def
proof (intro allI impI)
  fix d r d' r' assume r: "reader_good r" "u d r = (Inr d', r')"
  then obtain d1 r1 where s: "s d r = (Inr d1, r1)" and t: "t d1 r1 = (Inr d', r')"
    by (auto simp: assms(3) split: prod.splits sum.splits)
  from assms(1) r(1) s obtain bs rest where
    b: "rest_of r = bs @ rest" "r1 = advance (length bs) r" "reads s d bs d1"
    unfolding consumes_def by blast
  note adv = advance_good [OF r(1) b(1), folded b(2)]
  from assms(2) adv(1) t obtain cs rest' where
    c: "rest_of r1 = cs @ rest'" "r' = advance (length cs) r1" "reads t d1 cs d'"
    unfolding consumes_def by blast
  have "rest_of r = (bs @ cs) @ rest'" using b(1) adv(2) c(1) by simp
  moreover have "r' = advance (length (bs @ cs)) r" using c(2) b(2) by simp
  moreover have "reads u d (bs @ cs) d'" by (rule reads_then [OF b(3) c(3)]) (rule assms(3))
  ultimately show "\<exists>bs rest. rest_of r = bs @ rest \<and> r' = advance (length bs) r \<and> reads u d bs d'"
    by blast
qed

lemma consumes_pure:
  assumes "\<And>d r d' r'. s d r = (Inr d', r') \<Longrightarrow> d' = d \<and> r' = r \<and> (\<forall>q. s d q = (Inr d, q))"
  shows "consumes s"
  unfolding consumes_def
proof (intro allI impI)
  fix d r d' r' assume "s d r = (Inr d', r')"
  from assms [OF this] have "rest_of r = [] @ rest_of r \<and> r' = advance (length []) r \<and> reads s d [] d'"
    by (simp add: reads_def)
  then show "\<exists>bs rest. rest_of r = bs @ rest \<and> r' = advance (length bs) r \<and> reads s d bs d'" by metis
qed

lemma consumes_Nil [consumes_intro]: "consumes (run_steps [])"
  by (rule consumes_pure) simp

lemma consumes_Cons [consumes_intro]:
  "consumes s \<Longrightarrow> consumes (run_steps ss) \<Longrightarrow> consumes (run_steps (s # ss))"
  by (rule consumes_then) simp_all

lemma put_seq_Cons:
  "put_seq (w # ws) = Some bs \<longleftrightarrow> (\<exists>b c. w = Some b \<and> put_seq ws = Some c \<and> bs = b @ c)"
  by (auto split: option.splits)

lemma reads_seq:
  assumes "put_seq (w # ws) = Some bs" "\<And>b. w = Some b \<Longrightarrow> reads s d b d1"
    and "\<And>c. put_seq ws = Some c \<Longrightarrow> reads (run_steps ss) d1 c d2"
  shows "reads (run_steps (s # ss)) d bs d2"
proof -
  obtain b c where "w = Some b" "put_seq ws = Some c" "bs = b @ c"
    using assms(1) unfolding put_seq_Cons by blast
  with assms(2,3) show ?thesis by (auto intro: reads_then)
qed

lemma reads_end: "put_seq [] = Some bs \<Longrightarrow> d = d' \<Longrightarrow> reads (run_steps []) d bs d'"
  using reads_Nil by simp

lemma reads_repeat:
  assumes elem: "\<And>x d b. x \<in> set xs \<Longrightarrow> put x = Some b \<Longrightarrow> reads s d b (push x d)"
    and put: "put_seq (map put xs) = Some bs"
  shows "reads (repeat_step (length xs) s) d bs (fold push xs d)"
  using assms
proof (induction xs arbitrary: d bs)
  case Nil
  then show ?case by (simp add: reads_def)
next
  case (Cons x xs)
  from Cons.prems(2) obtain b c where
    b: "put x = Some b" "put_seq (map put xs) = Some c" "bs = b @ c"
    unfolding list.map put_seq_Cons by blast
  have "reads s d b (push x d)" using Cons.prems(1) b(1) by simp
  moreover have "reads (repeat_step (length xs) s) (push x d) c (fold push xs (push x d))"
    by (rule Cons.IH) (use Cons.prems(1) b(2) in auto)
  ultimately show ?case unfolding b(3) by (auto intro: reads_then)
qed

lemma consumes_repeat [consumes_intro]: "consumes s \<Longrightarrow> consumes (repeat_step n s)"
proof (induction n)
  case 0
  show ?case by (rule consumes_pure) simp
next
  case (Suc n)
  then show ?case by (auto intro: consumes_then)
qed

lemma unat_length_vec: "n \<le> kMaxVecLen \<Longrightarrow> unat (of_nat n :: u32) = n"
  by (simp add: kMaxVecLen_def unat_of_nat take_bit_nat_eq_self)

lemma reads_list:
  assumes "put_list put xs = Some bs" "length xs \<le> kMaxVecLen"
    and "\<And>x d b. x \<in> set xs \<Longrightarrow> put x = Some b \<Longrightarrow> reads s d b (push x d)"
  shows "reads (list_step msg s) d bs (fold push xs d)"
  unfolding reads_def
proof (intro allI impI)
  fix r rest assume r: "reader_good r" "rest_of r = bs @ rest"
  from assms(1) obtain c where c: "put_seq (map put xs) = Some c" "bs = bytes_u32 (of_nat (length xs)) @ c"
    unfolding put_list_def put_seq_Cons by (auto simp: put_u32_def)
  have r1: "rest_of r = bytes_u32 (of_nat (length xs)) @ (c @ rest)" using r(2) c(2) by simp
  have g: "get_u32 r = (Some (of_nat (length xs)), advance 4 r)"
    using u32_codec.get_put [OF _ r(1) r1] by (simp add: put_u32_def)
  note adv = advance_good [OF r(1) r1, unfolded u32_bytes]
  have "reads (repeat_step (length xs) s) d c (fold push xs d)"
    by (rule reads_repeat [OF assms(3) c(1)])
  from readsD [OF this adv] show "list_step msg s d r = (Inr (fold push xs d), advance (length bs) r)"
    by (simp add: list_step_def g unat_length_vec [OF assms(2)] assms(2) leD c(2))
qed

lemma consumes_list [consumes_intro]:
  assumes "consumes s"
  shows "consumes (list_step msg s)"
  unfolding consumes_def
proof (intro allI impI)
  fix d r d' r' assume r: "reader_good r" "list_step msg s d r = (Inr d', r')"
  then obtain n r1 where n: "get_u32 r = (Some n, r1)" "\<not> kMaxVecLen < unat n"
    "repeat_step (unat n) s d r1 = (Inr d', r')"
    by (auto simp: list_step_def split: prod.splits option.splits if_splits)
  from u32_codec.put_get [OF r(1) n(1)] obtain rest where
    b: "rest_of r = bytes_u32 n @ rest" "r1 = advance 4 r" by (auto simp: put_u32_def)
  note adv = advance_good [OF r(1) b(1), unfolded u32_bytes, folded b(2)]
  from consumes_repeat [OF assms, of "unat n"] adv(1) n(3) obtain cs rest' where
    c: "rest_of r1 = cs @ rest'" "r' = advance (length cs) r1" "reads (repeat_step (unat n) s) d cs d'"
    unfolding consumes_def by blast
  have "reads (list_step msg s) d (bytes_u32 n @ cs) d'"
    unfolding reads_def
  proof (intro allI impI)
    fix q rest2 assume q: "reader_good q" "rest_of q = (bytes_u32 n @ cs) @ rest2"
    then have q1: "rest_of q = bytes_u32 n @ (cs @ rest2)" by simp
    have g: "get_u32 q = (Some n, advance 4 q)"
      using u32_codec.get_put [OF _ q(1) q1] by (simp add: put_u32_def)
    note qa = advance_good [OF q(1) q1, unfolded u32_bytes]
    show "list_step msg s d q = (Inr d', advance (length (bytes_u32 n @ cs)) q)"
      using n(2) readsD [OF c(3) qa] by (simp add: list_step_def g)
  qed
  moreover have "rest_of r = (bytes_u32 n @ cs) @ rest'" using b(1) adv(2) c(1) by simp
  moreover have "r' = advance (length (bytes_u32 n @ cs)) r" using c(2) b(2) by simp
  ultimately show "\<exists>bs rest. rest_of r = bs @ rest \<and> r' = advance (length bs) r
      \<and> reads (list_step msg s) d bs d'" by blast
qed

lemma reads_nested:
  "reads (run_steps steps) e bs e' \<Longrightarrow> reads (nested_step steps e upd) d bs (upd e' d)"
  by (simp add: reads_def nested_step_def)

lemma consumes_nested [consumes_intro]:
  assumes "consumes (run_steps steps)"
  shows "consumes (nested_step steps e upd)"
  unfolding consumes_def
proof (intro allI impI)
  fix d r d' r' assume r: "reader_good r" "nested_step steps e upd d r = (Inr d', r')"
  then obtain e' where e: "run_steps steps e r = (Inr e', r')" "d' = upd e' d"
    by (auto simp: nested_step_def split: prod.splits sum.splits)
  from assms r(1) e(1) obtain bs rest where
    b: "rest_of r = bs @ rest" "r' = advance (length bs) r" "reads (run_steps steps) e bs e'"
    unfolding consumes_def by blast
  have "reads (nested_step steps e upd) d bs d'" unfolding e(2) by (rule reads_nested [OF b(3)])
  with b show "\<exists>bs rest. rest_of r = bs @ rest \<and> r' = advance (length bs) r
      \<and> reads (nested_step steps e upd) d bs d'" by metis
qed

lemma reads_validate: "put_seq [] = Some bs \<Longrightarrow> record_ok d' \<Longrightarrow> d = d' \<Longrightarrow>
    reads (run_steps [validate_step]) d bs d'"
  by (simp add: reads_def validate_step_def validate_record_None_iff [symmetric])

lemma consumes_validate [consumes_intro]: "consumes validate_step"
  by (rule consumes_pure) (auto simp: validate_step_def split: option.splits)

section \<open>Records round trip\<close>

lemma reads_dependency_steps:
  "put_dependency dep = Some bs \<Longrightarrow> reads (run_steps dependency_steps) empty_dependency bs dep"
  unfolding put_dependency_def dependency_steps_def
  by ((erule reads_seq, rule reads_intro, assumption)+, erule reads_end) simp

lemma reads_requirement_steps:
  "put_requirement req = Some bs \<Longrightarrow> reads (run_steps requirement_steps) empty_requirement bs req"
  unfolding put_requirement_def requirement_steps_def
  by ((erule reads_seq, rule reads_intro, assumption)+, erule reads_end) simp

definition record_fits :: "RecordData \<Rightarrow> bool" where
  "record_fits d \<longleftrightarrow> length (input_states d) \<le> kMaxVecLen \<and> length (parent_provenance d) \<le> kMaxVecLen
     \<and> length (dependencies d) \<le> kMaxVecLen \<and> length (requirements d) \<le> kMaxVecLen"

lemma reads_ids:
  assumes "put_list (\<lambda>s. put_u64 (get s)) xs = Some bs" "length xs \<le> kMaxVecLen"
  shows "reads (list_step msg (id_step msg2 upd)) d bs (fold upd xs d)"
  by (rule reads_list [OF assms]) (rule reads_id)

lemma reads_dependencies:
  assumes "put_list put_dependency xs = Some bs" "length xs \<le> kMaxVecLen"
  shows "reads (list_step msg (nested_step dependency_steps empty_dependency upd)) d bs (fold upd xs d)"
  by (rule reads_list [OF assms]) (rule reads_nested, rule reads_dependency_steps)

lemma reads_requirements:
  assumes "put_list put_requirement xs = Some bs" "length xs \<le> kMaxVecLen"
  shows "reads (list_step msg (nested_step requirement_steps empty_requirement upd)) d bs (fold upd xs d)"
  by (rule reads_list [OF assms]) (rule reads_nested, rule reads_requirement_steps)

lemma fold_push_input_states [simp]:
  "fold (\<lambda>v d. d\<lparr>input_states := input_states d @ [v]\<rparr>) xs d = (d :: RecordData)\<lparr>input_states := input_states d @ xs\<rparr>"
  by (induction xs arbitrary: d) simp_all

lemma fold_push_parent_provenance [simp]:
  "fold (\<lambda>v d. d\<lparr>parent_provenance := parent_provenance d @ [v]\<rparr>) xs d = (d :: RecordData)\<lparr>parent_provenance := parent_provenance d @ xs\<rparr>"
  by (induction xs arbitrary: d) simp_all

lemma fold_push_dependencies [simp]:
  "fold (\<lambda>v d. d\<lparr>dependencies := dependencies d @ [v]\<rparr>) xs d = (d :: RecordData)\<lparr>dependencies := dependencies d @ xs\<rparr>"
  by (induction xs arbitrary: d) simp_all

lemma fold_push_requirements [simp]:
  "fold (\<lambda>v d. d\<lparr>requirements := requirements d @ [v]\<rparr>) xs d = (d :: RecordData)\<lparr>requirements := requirements d @ xs\<rparr>"
  by (induction xs arbitrary: d) simp_all

lemma reads_record:
  assumes "write_record d = Some bs" "record_ok d" "record_fits d"
  shows "reads read_record empty_record bs d"
proof -
  have fits: "length (input_states d) \<le> kMaxVecLen" "length (parent_provenance d) \<le> kMaxVecLen"
    "length (dependencies d) \<le> kMaxVecLen" "length (requirements d) \<le> kMaxVecLen"
    using assms(3) by (simp_all add: record_fits_def)
  note lists = reads_ids [OF _ fits(1)] reads_ids [OF _ fits(2)] reads_dependencies [OF _ fits(3)]
    reads_requirements [OF _ fits(4)]
  have "write_record d = Some bs \<Longrightarrow> reads (run_steps record_steps) empty_record bs d"
    unfolding write_record_def record_steps_def
    by ((erule reads_seq, rule reads_intro lists, assumption)+, erule reads_validate, rule assms(2))
      (cases d, simp add: empty_record_def)
  with assms(1) show ?thesis by (simp add: read_record_def)
qed

lemma consumes_record: "consumes read_record"
  unfolding read_record_def record_steps_def dependency_steps_def requirement_steps_def
  by (intro consumes_intro)


section \<open>Authority and status round trip\<close>

lemma reads_boot_steps:
  "put_seq [put_u64 (get (fst p)), put_u64 (get (snd p))] = Some bs \<Longrightarrow>
    reads (run_steps boot_steps) (null_id, null_id) bs p"
  unfolding boot_steps_def
  by ((erule reads_seq, rule reads_intro, assumption)+, erule reads_end) simp

lemma fold_put_boots:
  "fold (\<lambda>p a. a\<lparr>as_boots := Mapping.update (fst p) (snd p) (as_boots a)\<rparr>) ps a
    = (a :: AuthoritySnapshot)\<lparr>as_boots := fold (\<lambda>e. Mapping.update (fst e) (snd e)) ps (as_boots a)\<rparr>"
  by (induction ps arbitrary: a) simp_all

lemma length_ordered_entries:
  fixes m :: "('k::{linorder,finite}, 'v) mapping"
  shows "length (Mapping.ordered_entries m) = card (Mapping.keys m)"
proof -
  have "distinct (map fst (Mapping.ordered_entries m))" by simp
  then have "card (set (map fst (Mapping.ordered_entries m))) = length (map fst (Mapping.ordered_entries m))"
    by (rule distinct_card)
  moreover have "set (map fst (Mapping.ordered_entries m)) = Mapping.keys m" by simp
  ultimately show ?thesis by (metis length_map)
qed

lemma reads_boots:
  fixes a :: AuthoritySnapshot
  assumes "put_list (\<lambda>(w, b). put_seq [put_u64 (get w), put_u64 (get b)]) (Mapping.ordered_entries m) = Some bs"
    and "card (Mapping.keys m) \<le> kMaxVecLen"
  shows "reads (list_step msg (nested_step boot_steps (null_id, null_id)
      (\<lambda>p a. a\<lparr>as_boots := Mapping.update (fst p) (snd p) (as_boots a)\<rparr>))) a bs
    (a\<lparr>as_boots := fold (\<lambda>e. Mapping.update (fst e) (snd e)) (Mapping.ordered_entries m) (as_boots a)\<rparr>)"
  unfolding fold_put_boots [symmetric]
proof (rule reads_list [OF assms(1)])
  show "length (Mapping.ordered_entries m) \<le> kMaxVecLen" using assms(2) by (simp add: length_ordered_entries)
qed (rule reads_nested, rule reads_boot_steps, simp add: case_prod_beta)

lemma reads_authority:
  assumes "write_authority a = Some bs" "card (Mapping.keys (as_boots a)) \<le> kMaxVecLen"
  shows "reads (run_steps authority_steps) empty_authority bs a"
proof -
  note boots = reads_boots [OF _ assms(2)]
  have "write_authority a = Some bs \<Longrightarrow> reads (run_steps authority_steps) empty_authority bs a"
    unfolding write_authority_def authority_steps_def
    by ((erule reads_seq, rule reads_intro boots, assumption)+, erule reads_end)
      (simp add: empty_authority_def fold_update_entries)
  with assms(1) show ?thesis by simp
qed

lemma consumes_authority: "consumes (run_steps authority_steps)"
  unfolding authority_steps_def boot_steps_def by (intro consumes_intro)

lemma reads_status_steps:
  "put_status p = Some bs \<Longrightarrow> reads (run_steps status_steps) (null_id, default_status) bs p"
  unfolding put_status_def status_steps_def
  by ((erule reads_seq, rule reads_intro, assumption)+, erule reads_end) (cases p, simp)

lemma fold_put_status:
  "fold (\<lambda>p s. s\<lparr>sn_status := Mapping.update (fst p) (snd p) (sn_status s)\<rparr>) ps s
    = (s :: StoreSnapshot)\<lparr>sn_status := fold (\<lambda>e. Mapping.update (fst e) (snd e)) ps (sn_status s)\<rparr>"
  by (induction ps arbitrary: s) simp_all

lemma reads_status:
  fixes s :: StoreSnapshot
  assumes "put_list put_status (Mapping.ordered_entries m) = Some bs" "card (Mapping.keys m) \<le> kMaxVecLen"
  shows "reads (list_step msg (nested_step status_steps (null_id, default_status)
      (\<lambda>p s. s\<lparr>sn_status := Mapping.update (fst p) (snd p) (sn_status s)\<rparr>))) s bs
    (s\<lparr>sn_status := fold (\<lambda>e. Mapping.update (fst e) (snd e)) (Mapping.ordered_entries m) (sn_status s)\<rparr>)"
  unfolding fold_put_status [symmetric]
proof (rule reads_list [OF assms(1)])
  show "length (Mapping.ordered_entries m) \<le> kMaxVecLen" using assms(2) by (simp add: length_ordered_entries)
qed (rule reads_nested, rule reads_status_steps)

section \<open>Snapshots round trip\<close>

definition snapshot_fits :: "StoreSnapshot \<Rightarrow> bool" where
  "snapshot_fits s \<longleftrightarrow> length (sn_records s) \<le> kMaxRecords
     \<and> list_all (\<lambda>d. record_ok d \<and> record_fits d) (sn_records s)
     \<and> distinct (map provenance_id (sn_records s))
     \<and> card (Mapping.keys (sn_status s)) \<le> kMaxVecLen
     \<and> card (Mapping.keys (as_boots (sn_authority s))) \<le> kMaxVecLen"

lemma reads_push_record:
  assumes "write_record d = Some bs" "record_ok d" "record_fits d"
    and "provenance_id d \<notin> provenance_id ` set (sn_records s)"
  shows "reads push_record_step s bs (s\<lparr>sn_records := sn_records s @ [d]\<rparr>)"
proof -
  have "\<not> list_ex (\<lambda>x. provenance_id x = provenance_id d) (sn_records s)"
    using assms(4) unfolding list_ex_iff by (metis imageI)
  with reads_record [OF assms(1-3)] show ?thesis by (simp add: reads_def push_record_step_def)
qed

lemma consumes_push_record: "consumes push_record_step"
  unfolding consumes_def
proof (intro allI impI)
  fix s r s' r' assume r: "reader_good r" "push_record_step s r = (Inr s', r')"
  then obtain d where d: "read_record empty_record r = (Inr d, r')"
    "\<not> list_ex (\<lambda>x. provenance_id x = provenance_id d) (sn_records s)"
    "s' = s\<lparr>sn_records := sn_records s @ [d]\<rparr>"
    by (auto simp: push_record_step_def split: prod.splits sum.splits if_splits)
  from consumes_record r(1) d(1) obtain bs rest where
    b: "rest_of r = bs @ rest" "r' = advance (length bs) r" "reads read_record empty_record bs d"
    unfolding consumes_def by blast
  have "reads push_record_step s bs s'"
    using b(3) d(2) by (auto simp: reads_def push_record_step_def d(3))
  with b show "\<exists>bs rest. rest_of r = bs @ rest \<and> r' = advance (length bs) r \<and> reads push_record_step s bs s'"
    by metis
qed

lemma reads_records_repeat:
  assumes "put_seq (map write_record rs) = Some bs" "list_all (\<lambda>d. record_ok d \<and> record_fits d) rs"
    and "distinct (map provenance_id (sn_records s @ rs))"
  shows "reads (repeat_step (length rs) push_record_step) s bs (s\<lparr>sn_records := sn_records s @ rs\<rparr>)"
  using assms
proof (induction rs arbitrary: s bs)
  case Nil
  then show ?case by (simp add: reads_def)
next
  case (Cons d rs)
  from Cons.prems(1) obtain b c where
    b: "write_record d = Some b" "put_seq (map write_record rs) = Some c" "bs = b @ c"
    unfolding list.map put_seq_Cons by blast
  let ?s = "s\<lparr>sn_records := sn_records s @ [d]\<rparr>"
  have "reads push_record_step s b ?s"
    by (rule reads_push_record [OF b(1)]) (use Cons.prems in auto)
  moreover have "reads (repeat_step (length rs) push_record_step) ?s c (?s\<lparr>sn_records := sn_records ?s @ rs\<rparr>)"
    by (rule Cons.IH [OF b(2)]) (use Cons.prems in auto)
  ultimately have "reads (repeat_step (length (d # rs)) push_record_step) s (b @ c)
      (?s\<lparr>sn_records := sn_records ?s @ rs\<rparr>)" by (rule reads_then) simp
  moreover have "?s\<lparr>sn_records := sn_records ?s @ rs\<rparr> = s\<lparr>sn_records := sn_records s @ d # rs\<rparr>" by simp
  ultimately show ?case unfolding b(3) by metis
qed

lemma unat_length_records: "n \<le> kMaxRecords \<Longrightarrow> unat (of_nat n :: u64) = n"
  by (simp add: kMaxRecords_def unat_of_nat take_bit_nat_eq_self)

lemma reads_records:
  assumes "put_u64 (of_nat (length rs)) = Some b" "put_seq (map write_record rs) = Some c"
    and "length rs \<le> kMaxRecords" "list_all (\<lambda>d. record_ok d \<and> record_fits d) rs"
    and "distinct (map provenance_id (sn_records s @ rs))"
  shows "reads records_step s (b @ c) (s\<lparr>sn_records := sn_records s @ rs\<rparr>)"
  unfolding reads_def
proof (intro allI impI)
  fix r rest assume r: "reader_good r" "rest_of r = (b @ c) @ rest"
  then have r1: "rest_of r = b @ (c @ rest)" by simp
  note g = u64_codec.get_put [OF assms(1) r(1) r1] and adv = advance_good [OF r(1) r1]
  from readsD [OF reads_records_repeat [OF assms(2,4,5)] adv]
  show "records_step s r = (Inr (s\<lparr>sn_records := sn_records s @ rs\<rparr>), advance (length (b @ c)) r)"
    by (simp add: records_step_def g unat_length_records [OF assms(3)] assms(3) leD)
qed

lemma consumes_records: "consumes records_step"
  unfolding consumes_def
proof (intro allI impI)
  fix s r s' r' assume r: "reader_good r" "records_step s r = (Inr s', r')"
  then obtain n r1 where n: "get_u64 r = (Some n, r1)" "\<not> kMaxRecords < unat n"
    "repeat_step (unat n) push_record_step s r1 = (Inr s', r')"
    by (auto simp: records_step_def split: prod.splits option.splits if_splits)
  from u64_codec.put_get [OF r(1) n(1)] obtain b rest where
    b: "put_u64 n = Some b" "rest_of r = b @ rest" "r1 = advance (length b) r" by blast
  note adv = advance_good [OF r(1) b(2), folded b(3)]
  from consumes_repeat [OF consumes_push_record, of "unat n"] adv(1) n(3) obtain cs rest' where
    c: "rest_of r1 = cs @ rest'" "r' = advance (length cs) r1"
      "reads (repeat_step (unat n) push_record_step) s cs s'"
    unfolding consumes_def by blast
  have "reads records_step s (b @ cs) s'"
    unfolding reads_def
  proof (intro allI impI)
    fix q rest2 assume q: "reader_good q" "rest_of q = (b @ cs) @ rest2"
    then have q1: "rest_of q = b @ (cs @ rest2)" by simp
    note g = u64_codec.get_put [OF b(1) q(1) q1] and qa = advance_good [OF q(1) q1]
    show "records_step s q = (Inr s', advance (length (b @ cs)) q)"
      using n(2) readsD [OF c(3) qa] by (simp add: records_step_def g)
  qed
  moreover have "rest_of r = (b @ cs) @ rest'" using b(2) adv(2) c(1) by simp
  moreover have "r' = advance (length (b @ cs)) r" using c(2) b(3) by simp
  ultimately show "\<exists>bs rest. rest_of r = bs @ rest \<and> r' = advance (length bs) r \<and> reads records_step s bs s'"
    by blast
qed

text \<open>The steps before the final check that nothing is left.\<close>

definition body_steps :: "StoreSnapshot step list" where
  "body_steps = butlast snapshot_steps"

lemma snapshot_steps_body: "snapshot_steps = body_steps @ [end_step]"
  by (simp add: body_steps_def snapshot_steps_def)

lemma consumes_body: "consumes (run_steps body_steps)"
proof -
  have "body_steps = [
     expect_step get_u64 kPayloadMagic ''truncated: missing payload magic'' ''bad payload magic'',
     expect_step get_u32 kFormatVersion ''truncated: missing version'' ''unsupported format version'',
     records_step,
     list_step ''invalid status count''
       (nested_step status_steps (null_id, default_status)
         (\<lambda>p s. s\<lparr>sn_status := Mapping.update (fst p) (snd p) (sn_status s)\<rparr>)),
     nested_step authority_steps empty_authority (\<lambda>a s. s\<lparr>sn_authority := a\<rparr>)]"
    by (simp add: body_steps_def snapshot_steps_def)
  then have body: "run_steps body_steps = run_steps [
     expect_step get_u64 kPayloadMagic ''truncated: missing payload magic'' ''bad payload magic'',
     expect_step get_u32 kFormatVersion ''truncated: missing version'' ''unsupported format version'',
     records_step,
     list_step ''invalid status count''
       (nested_step status_steps (null_id, default_status)
         (\<lambda>p s. s\<lparr>sn_status := Mapping.update (fst p) (snd p) (sn_status s)\<rparr>)),
     nested_step authority_steps empty_authority (\<lambda>a s. s\<lparr>sn_authority := a\<rparr>)]"
    by simp
  show ?thesis
    unfolding body status_steps_def by (intro consumes_intro consumes_records consumes_authority)
qed

lemma reads_body:
  assumes enc: "encode_snapshot s = Some bs" and fits: "snapshot_fits s"
  shows "reads (run_steps body_steps) empty_snapshot bs s"
proof -
  obtain m v n rs st a where w: "put_u64 kPayloadMagic = Some m" "put_u32 kFormatVersion = Some v"
    "put_u64 (of_nat (length (sn_records s))) = Some n" "put_seq (map write_record (sn_records s)) = Some rs"
    "put_list put_status (Mapping.ordered_entries (sn_status s)) = Some st"
    "write_authority (sn_authority s) = Some a" "bs = m @ v @ (n @ rs) @ st @ a"
    using enc unfolding encode_snapshot_def put_seq_Cons by auto
  have "reads records_step empty_snapshot (n @ rs)
      (empty_snapshot\<lparr>sn_records := sn_records empty_snapshot @ sn_records s\<rparr>)"
    by (rule reads_records [OF w(3,4)]) (use fits in \<open>simp_all add: snapshot_fits_def empty_snapshot_def\<close>)
  then have recs: "reads records_step empty_snapshot (n @ rs) (empty_snapshot\<lparr>sn_records := sn_records s\<rparr>)"
    by (simp add: empty_snapshot_def)
  have fit: "card (Mapping.keys (sn_status s)) \<le> kMaxVecLen"
    "card (Mapping.keys (as_boots (sn_authority s))) \<le> kMaxVecLen"
    using fits by (simp_all add: snapshot_fits_def)
  have eq: "put_seq [Some m, Some v, Some (n @ rs), Some st, Some a] = Some bs" by (simp add: w(7))
  have steps: "body_steps = [
     expect_step get_u64 kPayloadMagic ''truncated: missing payload magic'' ''bad payload magic'',
     expect_step get_u32 kFormatVersion ''truncated: missing version'' ''unsupported format version'',
     records_step,
     list_step ''invalid status count''
       (nested_step status_steps (null_id, default_status)
         (\<lambda>p s. s\<lparr>sn_status := Mapping.update (fst p) (snd p) (sn_status s)\<rparr>)),
     nested_step authority_steps empty_authority (\<lambda>a s. s\<lparr>sn_authority := a\<rparr>)]"
    by (simp add: body_steps_def snapshot_steps_def)
  note parts = u64_codec.reads_expect [OF w(1)] u32_codec.reads_expect [OF w(2)] recs
    reads_status [OF w(5) fit(1)] reads_nested [OF reads_authority [OF w(6) fit(2)]]
  have "reads (run_steps body_steps) empty_snapshot (m @ v @ (n @ rs) @ st @ a @ [])
      (empty_snapshot\<lparr>sn_records := sn_records s,
        sn_status := fold (\<lambda>e. Mapping.update (fst e) (snd e)) (Mapping.ordered_entries (sn_status s))
          (sn_status (empty_snapshot\<lparr>sn_records := sn_records s\<rparr>)),
        sn_authority := sn_authority s\<rparr>)"
    unfolding steps
    by (rule reads_then [OF parts(1)], rule reads_then [OF parts(2)], rule reads_then [OF parts(3)],
      rule reads_then [OF parts(4)], rule reads_then [OF parts(5)], rule reads_Nil) simp_all
  moreover have "empty_snapshot\<lparr>sn_records := sn_records s,
        sn_status := fold (\<lambda>e. Mapping.update (fst e) (snd e)) (Mapping.ordered_entries (sn_status s))
          (sn_status (empty_snapshot\<lparr>sn_records := sn_records s\<rparr>)),
        sn_authority := sn_authority s\<rparr> = s"
    by (cases s) (simp add: empty_snapshot_def fold_update_entries)
  ultimately show ?thesis using w(7) by simp
qed

lemma new_reader_good [simp]: "reader_good (new_reader bs)" "rest_of (new_reader bs) = bs"
  by (simp_all add: reader_good_def new_reader_def rest_of_def)

lemma run_steps_append:
  "run_steps (ss @ ts) d r = (case run_steps ss d r of (Inl e, r) \<Rightarrow> (Inl e, r) | (Inr d, r) \<Rightarrow> run_steps ts d r)"
  by (induction ss arbitrary: d r) (auto split: prod.splits sum.splits)

lemma end_step_rest:
  assumes "reader_good r"
  shows "end_step d r = (if rest_of r = [] then (Inr d, r) else (Inl ''trailing data after snapshot'', r))"
  using assms by (auto simp: end_step_def reader_remaining_def rest_of_def reader_good_def)

text \<open>\<open>decode_snapshot\<close> succeeds exactly on the byte strings the body reads entirely.\<close>

lemma decode_reads:
  assumes "reads (run_steps body_steps) empty_snapshot bs s"
  shows "decode_snapshot (bs @ rest) = (if rest = [] then Inr s else Inl ''trailing data after snapshot'')"
proof -
  have r: "rest_of (new_reader (bs @ rest)) = bs @ rest" by simp
  note adv = advance_good [OF _ r, simplified]
  have "run_steps body_steps empty_snapshot (new_reader (bs @ rest))
      = (Inr s, advance (length bs) (new_reader (bs @ rest)))"
    by (rule readsD [OF assms _ r]) simp
  then show ?thesis
    unfolding decode_snapshot_def snapshot_steps_body run_steps_append
    by (simp add: end_step_rest adv)
qed

lemma decode_Inr_reads:
  assumes "decode_snapshot bs = Inr s"
  shows "reads (run_steps body_steps) empty_snapshot bs s"
proof -
  obtain r' where r': "run_steps body_steps empty_snapshot (new_reader bs) = (Inr s, r')"
    and e: "fst (end_step s r') = Inr s"
    using assms unfolding decode_snapshot_def snapshot_steps_body run_steps_append
    by (auto simp: end_step_def split: prod.splits sum.splits if_splits)
  from consumes_body r' obtain cs rest where
    c: "bs = cs @ rest" "r' = advance (length cs) (new_reader bs)" "reads (run_steps body_steps) empty_snapshot cs s"
    unfolding consumes_def by (metis new_reader_good)
  have "rest_of (new_reader bs) = cs @ rest" using c(1) by simp
  from advance_good [OF _ this] c(2) have "reader_good r'" "rest_of r' = rest" by simp_all
  with e have "rest = []" by (auto simp: end_step_rest split: if_splits)
  with c show ?thesis by simp
qed

section \<open>What the encoder accepts\<close>

text \<open>The strings a record and a snapshot write.\<close>

definition record_strings :: "RecordData \<Rightarrow> string set" where
  "record_strings d = {model_revision d, tokenizer d, adapter_revision d, composition_fingerprint d,
     architecture d, compute_capability d, abi d, dtype d, layout d, shape d}
     \<union> dep_kind ` set (dependencies d) \<union> dep_revision ` set (dependencies d)
     \<union> req_required_value ` set (requirements d) \<union> req_note ` set (requirements d)
     \<union> {policy_fingerprint d, content_digest d, record_note d}"

definition snapshot_strings :: "StoreSnapshot \<Rightarrow> string set" where
  "snapshot_strings s = (\<Union>d\<in>set (sn_records s). record_strings d)
     \<union> (\<lambda>p. rs_detail (snd p)) ` set (Mapping.ordered_entries (sn_status s))"

definition short_strings :: "string set" where
  "short_strings = {x. length x \<le> kMaxStringLen}"

lemma put_seq_defined: "put_seq ws \<noteq> None \<longleftrightarrow> None \<notin> set ws"
  by (induction ws) (auto split: option.splits)

lemma put_primitive_defined [simp]:
  "put_u8 b \<noteq> None" "put_u32 v \<noteq> None" "put_u64 w \<noteq> None"
  "None \<noteq> put_u8 b" "None \<noteq> put_u32 v" "None \<noteq> put_u64 w"
  "put_str x \<noteq> None \<longleftrightarrow> x \<in> short_strings"
  "None = put_str x \<longleftrightarrow> x \<notin> short_strings"
  by (auto simp: put_u8_def put_u32_def put_u64_def put_str_def short_strings_def)

lemma put_list_defined: "put_list put xs \<noteq> None \<longleftrightarrow> None \<notin> put ` set xs"
  unfolding put_list_def put_seq_defined by simp

lemma put_seq_refuses: "put_seq ws = None \<longleftrightarrow> None \<in> set ws"
  using put_seq_defined [of ws] by blast

lemma put_dependency_refuses:
  "put_dependency dep = None \<longleftrightarrow> dep_kind dep \<notin> short_strings \<or> dep_revision dep \<notin> short_strings"
  unfolding put_dependency_def put_seq_refuses by simp

lemma put_requirement_refuses:
  "put_requirement req = None \<longleftrightarrow> req_required_value req \<notin> short_strings \<or> req_note req \<notin> short_strings"
  unfolding put_requirement_def put_seq_refuses by simp

lemma put_status_refuses: "put_status p = None \<longleftrightarrow> rs_detail (snd p) \<notin> short_strings"
  unfolding put_status_def put_seq_refuses by simp

lemma put_list_refuses: "None = put_list put xs \<longleftrightarrow> None \<in> put ` set xs"
  using put_list_defined [of put xs] by fastforce

lemma in_put_images [simp]:
  "None \<in> (\<lambda>s. put_u64 (get s)) ` A \<longleftrightarrow> False"
  "None \<in> (\<lambda>(w, b). put_seq [put_u64 (get w), put_u64 (get b)]) ` B \<longleftrightarrow> False"
  "None \<in> put_dependency ` D \<longleftrightarrow> \<not> dep_kind ` D \<union> dep_revision ` D \<subseteq> short_strings"
  "None \<in> put_requirement ` R \<longleftrightarrow> \<not> req_required_value ` R \<union> req_note ` R \<subseteq> short_strings"
  "None \<in> put_status ` S \<longleftrightarrow> \<not> (\<lambda>p. rs_detail (snd p)) ` S \<subseteq> short_strings"
  "None \<in> write_record ` T \<longleftrightarrow> \<not> (\<forall>d\<in>T. write_record d \<noteq> None)"
proof -
  show "None \<in> put_dependency ` D \<longleftrightarrow> \<not> dep_kind ` D \<union> dep_revision ` D \<subseteq> short_strings"
    unfolding image_iff eq_commute [of None] put_dependency_refuses by blast
  show "None \<in> put_requirement ` R \<longleftrightarrow> \<not> req_required_value ` R \<union> req_note ` R \<subseteq> short_strings"
    unfolding image_iff eq_commute [of None] put_requirement_refuses by blast
  show "None \<in> put_status ` S \<longleftrightarrow> \<not> (\<lambda>p. rs_detail (snd p)) ` S \<subseteq> short_strings"
    unfolding image_iff eq_commute [of None] put_status_refuses by blast
qed (auto simp: image_iff put_u64_def eq_commute [of None])

lemma write_record_defined: "write_record d \<noteq> None \<longleftrightarrow> record_strings d \<subseteq> short_strings"
  unfolding write_record_def put_seq_defined record_strings_def
  by (simp add: put_list_refuses del: Un_insert_left Un_insert_right)
    (intro iffI conjI; elim conjE; assumption)

lemma write_authority_defined [simp]: "write_authority a \<noteq> None" "None \<noteq> write_authority a"
proof -
  show "write_authority a \<noteq> None" 
    unfolding write_authority_def put_seq_defined by (simp add: put_list_refuses del: put_seq.simps)
  then show "None \<noteq> write_authority a" by (rule not_sym)
qed

lemma encode_snapshot_defined: "encode_snapshot s \<noteq> None \<longleftrightarrow> snapshot_strings s \<subseteq> short_strings"
proof -
  have recs: "put_seq (map write_record (sn_records s)) \<noteq> None \<longleftrightarrow>
      (\<Union>d\<in>set (sn_records s). record_strings d) \<subseteq> short_strings"
    unfolding put_seq_defined list.set_map in_put_images write_record_defined by blast
  have "encode_snapshot s \<noteq> None \<longleftrightarrow> put_seq (map write_record (sn_records s)) \<noteq> None
      \<and> put_list put_status (Mapping.ordered_entries (sn_status s)) \<noteq> None"
    unfolding encode_snapshot_def put_seq_defined [of "put_u64 kPayloadMagic # _"]
    by (simp del: not_None_eq add: eq_commute [of None])
  then show ?thesis unfolding recs put_list_defined in_put_images snapshot_strings_def by blast
qed

section \<open>What the decoder checks\<close>

lemma read_record_ok:
  assumes "read_record d0 r = (Inr d, r')"
  shows "record_ok d"
proof -
  have "record_steps = butlast record_steps @ [validate_step]"
    by (simp add: record_steps_def)
  then obtain d1 r1 where "validate_step d1 r1 = (Inr d, r')"
    using assms run_steps_append [of "butlast record_steps" "[validate_step]" d0 r]
    by (auto simp: read_record_def split: prod.splits sum.splits)
  then show ?thesis
    by (auto simp: validate_step_def validate_record_None_iff [symmetric] split: option.splits)
qed

lemma repeat_push_records:
  "repeat_step n push_record_step s r = (Inr s', r') \<Longrightarrow>
    length (sn_records s') = length (sn_records s) + n
    \<and> (list_all record_ok (sn_records s) \<and> distinct (map provenance_id (sn_records s)) \<longrightarrow>
       list_all record_ok (sn_records s') \<and> distinct (map provenance_id (sn_records s')))"
proof (induction n arbitrary: s r)
  case (Suc n)
  then obtain s1 r1 where s1: "push_record_step s r = (Inr s1, r1)"
    "repeat_step n push_record_step s1 r1 = (Inr s', r')"
    by (auto split: prod.splits sum.splits)
  from s1(1) obtain d where d: "read_record empty_record r = (Inr d, r1)"
    "\<not> list_ex (\<lambda>x. provenance_id x = provenance_id d) (sn_records s)"
    "s1 = s\<lparr>sn_records := sn_records s @ [d]\<rparr>"
    by (auto simp: push_record_step_def split: prod.splits sum.splits if_splits)
  have "record_ok d" using read_record_ok [OF d(1)] .
  with d(2) Suc.IH [OF s1(2)] show ?case by (auto simp: d(3) list_ex_iff image_iff)
qed simp

end
