(* ===== verification/Persist_Files.thy ===== *)
theory Persist_Files
  imports Persist_Codec
begin

text \<open>
  Snapshot files and the properties of the binary format: what the decoder checks, the file
  header, saving, loading, and the refusal of damaged files.
\<close>

text \<open>Only the record loop touches the records.\<close>

lemma repeat_nested_keeps:
  assumes "\<And>v s. f (upd v s) = f s"
  shows "repeat_step n (nested_step steps e upd) s r = (Inr s', r') \<Longrightarrow> f s' = f s"
  by (induction n arbitrary: s r) (auto simp: nested_step_def assms split: prod.splits sum.splits)

lemma list_nested_keeps:
  assumes "list_step msg (nested_step steps e upd) s r = (Inr s', r')" "\<And>v s. f (upd v s) = f s"
  shows "f s' = f s"
proof -
  from assms(1) obtain n r1 where "repeat_step n (nested_step steps e upd) s r1 = (Inr s', r')"
    by (auto simp: list_step_def split: prod.splits option.splits if_splits)
  with assms(2) show ?thesis by (rule repeat_nested_keeps)
qed

lemma decode_records:
  assumes "decode_snapshot bs = Inr s"
  shows "length (sn_records s) \<le> kMaxRecords \<and> list_all record_ok (sn_records s)
    \<and> distinct (map provenance_id (sn_records s))"
proof -
  let ?upd = "\<lambda>p s. s\<lparr>sn_status := Mapping.update (fst p) (snd p) (sn_status s)\<rparr> :: StoreSnapshot"
  let ?st = "list_step ''invalid status count'' (nested_step status_steps (null_id, default_status) ?upd)"
  obtain r1 s1 r2 s2 r3 r4 where steps: "records_step empty_snapshot r1 = (Inr s1, r2)"
    "?st s1 r2 = (Inr s2, r3)"
    "nested_step authority_steps empty_authority (\<lambda>a s. s\<lparr>sn_authority := a\<rparr>) s2 r3 = (Inr s, r4)"
    using assms
    by (auto simp: decode_snapshot_def snapshot_steps_def expect_step_def end_step_def
        split: prod.splits sum.splits option.splits if_splits)
  have "sn_records s = sn_records s2" using steps(3)
    by (auto simp: nested_step_def split: prod.splits sum.splits)
  also have "\<dots> = sn_records s1" by (rule list_nested_keeps [OF steps(2)]) simp
  finally have eq: "sn_records s = sn_records s1" .
  from steps(1) obtain n where n: "unat n \<le> kMaxRecords"
    "repeat_step (unat (n :: u64)) push_record_step empty_snapshot (snd (get_u64 r1)) = (Inr s1, r2)"
    by (auto simp: records_step_def not_less split: prod.splits option.splits if_splits)
  from repeat_push_records [OF n(2)] n(1) show ?thesis
    by (simp add: eq empty_snapshot_def)
qed

section \<open>Files\<close>

definition file_header :: "byte list \<Rightarrow> byte list" where
  "file_header payload = kFileMagic @ bytes_u32 kFormatVersion @ bytes_u32 0
     @ bytes_u64 (of_nat (length payload)) @ bytes_u32 (crc32 payload)"

lemma file_bytes_header: "file_bytes payload = file_header payload @ payload"
  by (simp add: file_bytes_def file_header_def)

lemma length_kFileMagic: "length kFileMagic = 8"
  by (simp add: kFileMagic_def bytes_of_string_def)

lemma length_file_header: "length (file_header payload) = 28"
  by (simp add: file_header_def length_kFileMagic)

lemma check_magic_reads:
  "reader_good r \<Longrightarrow> rest_of r = ms @ rest \<Longrightarrow> check_magic ms r = (True, advance (length ms) r)"
proof (induction ms arbitrary: r)
  case (Cons m ms)
  from Cons.prems(2) have r1: "rest_of r = [m] @ (ms @ rest)" by simp
  have g: "get_u8 r = (Some m, advance 1 r)"
    using u8_codec.get_put [OF _ Cons.prems(1) r1] by (simp add: put_u8_def)
  note adv = advance_good [OF Cons.prems(1) r1]
  show ?case using Cons.IH [OF adv] by (simp add: g)
qed simp

text \<open>Reading the header a writer produced, followed by any bytes.\<close>

lemma load_bytes_header:
  assumes "length payload < 2 ^ 64"
  shows "load_bytes (file_header payload @ q) =
    (let res = (load_failed [])\<lparr>lr_stored_crc := crc32 payload\<rparr>
     in if kMaxPayloadLen < length payload then res\<lparr>lr_error := ''payload length exceeds bound''\<rparr>
        else if length q < length payload then res\<lparr>lr_error := ''truncated payload''\<rparr>
        else if length payload < length q then res\<lparr>lr_error := ''trailing garbage after payload''\<rparr>
        else
          let res = res\<lparr>lr_computed_crc := crc32 q\<rparr>
          in if crc32 q \<noteq> crc32 payload then res\<lparr>lr_error := ''crc32 mismatch (corruption detected)''\<rparr>
             else case decode_snapshot q of
                 Inr s \<Rightarrow> res\<lparr>lr_snapshot := Some s\<rparr>
               | Inl e \<Rightarrow> res\<lparr>lr_error := e\<rparr>)"
proof -
  let ?r0 = "new_reader (file_header payload)"
  have t: "take 28 (file_header payload @ q) = file_header payload"
    "drop 28 (file_header payload @ q) = q" by (simp_all add: length_file_header)
  have r0: "reader_good ?r0" "rest_of ?r0 = kFileMagic @ (bytes_u32 kFormatVersion @ bytes_u32 0
     @ bytes_u64 (of_nat (length payload)) @ bytes_u32 (crc32 payload))"
    by (simp_all add: file_header_def)
  let ?r1 = "advance 8 ?r0" and ?r2 = "advance 4 (advance 8 ?r0)"
    and ?r3 = "advance 4 (advance 4 (advance 8 ?r0))"
    and ?r4 = "advance 8 (advance 4 (advance 4 (advance 8 ?r0)))"
  have m: "check_magic kFileMagic ?r0 = (True, ?r1)"
    using check_magic_reads [OF r0] by (simp add: length_kFileMagic)
  note r1 = advance_good [OF r0, unfolded length_kFileMagic]
  have v: "get_u32 ?r1 = (Some kFormatVersion, ?r2)"
    using u32_codec.get_put [OF _ r1] by (simp add: put_u32_def)
  note r2 = advance_good [OF r1, unfolded u32_bytes]
  have f: "get_u32 ?r2 = (Some 0, ?r3)"
    using u32_codec.get_put [OF _ r2] by (simp add: put_u32_def)
  note r3 = advance_good [OF r2, unfolded u32_bytes]
  have l: "get_u64 ?r3 = (Some (of_nat (length payload)), ?r4)"
    using u64_codec.get_put [OF _ r3] by (simp add: put_u64_def)
  note r4 = advance_good [OF r3, unfolded u64_bytes]
  have r4': "rest_of ?r4 = bytes_u32 (crc32 payload) @ []" using r4(2) by simp
  have c: "get_u32 ?r4 = (Some (crc32 payload), advance 4 ?r4)"
    using u32_codec.get_put [OF _ r4(1) r4'] by (simp add: put_u32_def)
  have len: "unat (of_nat (length payload) :: u64) = length payload"
    using assms by (simp add: unat_of_nat take_bit_nat_eq_self)
  have lens: "length (file_header payload @ q) = 28 + length q" by (simp add: length_file_header)
  show ?thesis
    unfolding load_bytes_def t m v f l c lens Let_def prod.case header_value_def option.case len
    by simp
qed

lemma load_bytes_saved:
  assumes "encode_snapshot s = Some payload" "snapshot_fits s" "length payload \<le> kMaxPayloadLen"
  shows "load_bytes (file_bytes payload) = \<lparr>lr_snapshot = Some s, lr_error = [],
    lr_stored_crc = crc32 payload, lr_computed_crc = crc32 payload\<rparr>"
proof -
  have "decode_snapshot (payload @ []) = Inr s"
    unfolding decode_reads [OF reads_body [OF assms(1,2)]] by simp
  moreover have "length payload < 2 ^ 64"
    using assms(3) unfolding kMaxPayloadLen_def by (rule le_less_trans) simp
  ultimately show ?thesis
    using assms(3) by (simp add: file_bytes_header load_bytes_header load_failed_def)
qed

lemma save_file_saved:
  assumes "save_file s path io fs = (Saved, fs')"
  obtains payload where "encode_snapshot s = Some payload" "fs' path = Some (file_bytes payload)"
  using assms unfolding save_file_def rename_file_def Let_def
  by (auto split: option.splits if_splits)

section \<open>Properties\<close>

definition demo_snapshot :: StoreSnapshot where
  "demo_snapshot = \<lparr>sn_records = [sample_record 1 11 []],
     sn_status = Mapping.update (ScalarIdentifier 1) default_status Mapping.empty,
     sn_authority = empty_authority\<lparr>as_boots := Mapping.update (ScalarIdentifier 3) (ScalarIdentifier 4) Mapping.empty\<rparr>\<rparr>"

lemma demo_snapshot_fits: "snapshot_fits demo_snapshot"
  by (simp add: snapshot_fits_def demo_snapshot_def kMaxRecords_def kMaxVecLen_def record_fits_def
      sample_record_def empty_record_def record_ok_def empty_authority_def)

definition ok_io :: IoFaults where
  "ok_io = \<lparr>platform = Posix, open_ok = True, written = None, rename1_ok = True, rename2_ok = True\<rparr>"

lemma demo_encoded: "\<exists>bs. encode_snapshot demo_snapshot = Some bs \<and> length bs < 1000"
  unfolding encode_snapshot_def demo_snapshot_def
  by (simp add: put_list_def put_u32_def put_u64_def put_u8_def write_record_def put_str_def put_status_def
      write_authority_def empty_authority_def sample_record_def empty_record_def default_status_def
      kMaxStringLen_def insort_insert_key_def bytes_of_string_def)

text \<open>
  C8: a snapshot within the format's bounds, with valid records and no repeated provenance
  identity, is decoded from its encoding exactly as it was: every field of every record, the
  status table and the authority.
\<close>

theorem decode_encode:
  assumes "encode_snapshot s = Some bs" "snapshot_fits s"
  shows "decode_snapshot bs = Inr s"
  using decode_reads [OF reads_body [OF assms], of "[]"] by simp

theorem decode_encode_witness:
  "\<exists>bs. encode_snapshot demo_snapshot = Some bs \<and> decode_snapshot bs = Inr demo_snapshot"
  using demo_encoded decode_encode [OF _ demo_snapshot_fits] by blast

text \<open>
  Encoding throws exactly when a string of a record or of a status is longer than 64 MiB;
  nothing else is refused when writing.
\<close>

theorem encode_throws_iff:
  "encode_snapshot s = None \<longleftrightarrow> \<not> snapshot_strings s \<subseteq> short_strings"
  using encode_snapshot_defined [of s] by blast

text \<open>
  The payload format is self-delimiting.  A byte string the decoder accepts is accepted in no
  longer form (the error is the trailing-data one) and no proper prefix of it is accepted.
\<close>

theorem decode_exact_length:
  assumes "decode_snapshot bs = Inr s"
  shows "decode_snapshot (bs @ b # rest) = Inl ''trailing data after snapshot''
    \<and> isl (decode_snapshot (take (length bs - Suc n) bs)) = (bs \<noteq> [])"
proof
  note r = decode_reads [OF decode_Inr_reads [OF assms]]
  show "decode_snapshot (bs @ b # rest) = Inl ''trailing data after snapshot''" by (simp add: r)
  show "isl (decode_snapshot (take (length bs - Suc n) bs)) = (bs \<noteq> [])"
  proof (cases "bs = []")
    case False
    let ?m = "length bs - Suc n"
    have "\<exists>e. decode_snapshot (take ?m bs) = Inl e"
    proof (rule ccontr)
      assume "\<nexists>e. decode_snapshot (take ?m bs) = Inl e"
      then obtain s' where "decode_snapshot (take ?m bs) = Inr s'" by (metis sum.exhaust)
      moreover have "drop ?m bs \<noteq> []" using False by (simp add: not_le)
      ultimately show False
        using decode_reads [OF decode_Inr_reads, of "take ?m bs" s' "drop ?m bs"] assms by auto
    qed
    with False show ?thesis by auto
  qed (use assms in \<open>simp add: decode_snapshot_def\<close>)
qed

theorem decode_exact_length_witness:
  "\<exists>bs. decode_snapshot bs = Inr demo_snapshot
    \<and> decode_snapshot (bs @ [0]) = Inl ''trailing data after snapshot''"
proof -
  obtain bs where "encode_snapshot demo_snapshot = Some bs" using demo_encoded by blast
  from decode_reads [OF reads_body [OF this demo_snapshot_fits], of "[]"]
  have "decode_snapshot bs = Inr demo_snapshot" by simp
  with decode_exact_length [OF this, of 0 "[]" 0] show ?thesis by blast
qed

text \<open>
  C18: Whatever bytes it is given, a snapshot the decoder returns has at most \<open>2 ^ 24\<close> records,
  all of them valid and with pairwise different provenance identities.
\<close>

theorem decode_checks_records:
  assumes "decode_snapshot bs = Inr s"
  shows "length (sn_records s) \<le> 2 ^ 24 \<and> list_all record_ok (sn_records s)
    \<and> distinct (map provenance_id (sn_records s))"
  using decode_records [OF assms] by (simp add: kMaxRecords_def)

theorem decode_checks_records_witness:
  "list_all record_ok (sn_records demo_snapshot)"
proof -
  obtain bs where "encode_snapshot demo_snapshot = Some bs" using demo_encoded by blast
  from decode_reads [OF reads_body [OF this demo_snapshot_fits], of "[]"]
  have "decode_snapshot bs = Inr demo_snapshot" by simp
  from decode_checks_records [OF this] show ?thesis by blast
qed

text \<open>
  What \<^verbatim>\<open>save_file\<close> saved, \<^verbatim>\<open>load_file\<close> returns, with equal stored and computed CRC and
  no error, as long as the snapshot and its encoding are within the bounds of the format.
\<close>

theorem load_saved:
  assumes "save_file s path io fs = (Saved, fs')" "snapshot_fits s"
    and "length (the (encode_snapshot s)) \<le> kMaxPayloadLen"
  shows "lr_snapshot (load_file path No_fault fs') = Some s \<and> lr_error (load_file path No_fault fs') = []
    \<and> lr_stored_crc (load_file path No_fault fs') = lr_computed_crc (load_file path No_fault fs')"
proof -
  obtain payload where p: "encode_snapshot s = Some payload" "fs' path = Some (file_bytes payload)"
    using assms(1) by (rule save_file_saved)
  with load_bytes_saved [OF p(1) assms(2)] assms(3) show ?thesis by (simp add: load_file_def)
qed

theorem load_saved_witness:
  "lr_snapshot (load_file ''a.bin'' No_fault (snd (save_file demo_snapshot ''a.bin'' ok_io (\<lambda>p. None))))
    = Some demo_snapshot"
proof -
  obtain bs where bs: "encode_snapshot demo_snapshot = Some bs" "length bs < 1000"
    using demo_encoded by blast
  have "fst (save_file demo_snapshot ''a.bin'' ok_io (\<lambda>p. None)) = Saved"
    by (simp add: save_file_def bs(1) ok_io_def Let_def)
  then have "save_file demo_snapshot ''a.bin'' ok_io (\<lambda>p. None)
      = (Saved, snd (save_file demo_snapshot ''a.bin'' ok_io (\<lambda>p. None)))" by (simp add: prod_eq_iff)
  from load_saved [OF this demo_snapshot_fits] bs show ?thesis by (simp add: kMaxPayloadLen_def)
qed



text \<open>
  C11: a damaged file is refused: cut short anywhere, extended by anything, or changed within four
  consecutive bytes of the payload, a saved file gives no snapshot and a non-empty error.
\<close>

theorem damaged_file_refused:
  assumes "length payload < 2 ^ 64" "payload = pre @ mid @ post"
    and "length mid' = length mid" "length mid \<le> 4" "mid' \<noteq> mid"
    and "damaged \<in> {take n (file_bytes payload), file_bytes payload @ b # extra,
        file_header payload @ pre @ mid' @ post}" "n < length (file_bytes payload)"
  shows "lr_snapshot (load_bytes damaged) = None \<and> lr_error (load_bytes damaged) \<noteq> []"
proof -
  have cut: "lr_snapshot (load_bytes (take n (file_bytes payload))) = None
      \<and> lr_error (load_bytes (take n (file_bytes payload))) \<noteq> []"
  proof (cases "n < 28")
    case True
    then have "length (take n (file_bytes payload)) < 28" by simp
    then show ?thesis by (simp add: load_bytes_def load_failed_def)
  next
    case False
    then have "take n (file_bytes payload) = file_header payload @ take (n - 28) payload"
      by (simp add: file_bytes_header length_file_header)
    moreover have "n - 28 < length payload"
      using assms(7) False by (simp add: file_bytes_header length_file_header)
    ultimately show ?thesis by (simp add: load_bytes_header [OF assms(1)] load_failed_def Let_def)
  qed
  have long: "file_bytes payload @ b # extra = file_header payload @ payload @ b # extra"
    by (simp add: file_bytes_header)
  have crc: "crc32 (pre @ mid' @ post) \<noteq> crc32 payload"
    unfolding assms(2) by (rule crc32_burst) (use assms in auto)
  have len: "length (pre @ mid' @ post) = length payload" using assms(2,3) by simp
  have burst: "lr_snapshot (load_bytes (file_header payload @ pre @ mid' @ post)) = None
      \<and> lr_error (load_bytes (file_header payload @ pre @ mid' @ post)) \<noteq> []"
    unfolding load_bytes_header [OF assms(1)] len using crc by (simp add: load_failed_def Let_def)
  from assms(6) consider "damaged = take n (file_bytes payload)"
    | "damaged = file_bytes payload @ b # extra" | "damaged = file_header payload @ pre @ mid' @ post" by blast
  then show ?thesis
  proof cases
    case 1
    show ?thesis unfolding 1 by (rule cut)
  next
    case 2
    show ?thesis unfolding 2 long by (simp add: load_bytes_header [OF assms(1)] load_failed_def Let_def)
  next
    case 3
    show ?thesis unfolding 3 by (rule burst)
  qed
qed

theorem damaged_file_refused_witness:
  "lr_snapshot (load_bytes (file_header [1, 2, 3] @ [1] @ [9] @ [3])) = None"
proof -
  have "(0::nat) < length (file_bytes [1, 2, 3])" by (simp add: file_bytes_header)
  then have "lr_snapshot (load_bytes (file_header [1, 2, 3] @ [1] @ [9] @ [3])) = None
      \<and> lr_error (load_bytes (file_header [1, 2, 3] @ [1] @ [9] @ [3])) \<noteq> []"
    by (intro damaged_file_refused [of _ "[1]" "[2]" "[3]" "[9]" _ 0 0 "[]"]) simp_all
  then show ?thesis by blast
qed

end
