(* ===== verification/Store_Queries.thy ===== *)
theory Store_Queries
  imports Store_Restore
begin

text \<open>
  The query interface of \<^verbatim>\<open>ProvenanceStore\<close>: the functions that take the shared lock, read one
  field and return.  The theory shows that on every reachable store the graph queries answer from
  the records, and that the topological order of a store always exists.
\<close>

section \<open>Queries\<close>

definition get_runtime_generation :: "ProvenanceStore \<Rightarrow> RuntimeGeneration" where
  "get_runtime_generation s = st_runtime_generation s"

text \<open>\<^verbatim>\<open>authority()\<close> copies the authority field by field, like the locked helper of \<^verbatim>\<open>snapshot\<close>.\<close>

definition store_authority :: "ProvenanceStore \<Rightarrow> AuthoritySnapshot" where
  "store_authority s =
     (let a = st_authority s
      in \<lparr>as_epoch = a_epoch a,
          as_boots = fold (\<lambda>w m. case boot_of a w of None \<Rightarrow> m | Some b \<Rightarrow> Mapping.update w b m)
            (sorted_list_of_set (st_workers s)) Mapping.empty,
          as_attempt_id = a_attempt_id a, as_attempt_generation = a_attempt_generation a,
          as_state_generation = a_state_generation a,
          as_provenance_generation = a_provenance_generation a,
          as_artifact_generation = a_artifact_generation a,
          as_model_generation = a_model_generation a,
          as_adapter_generation = a_adapter_generation a,
          as_composition_generation = a_composition_generation a,
          as_policy_generation = a_policy_generation a,
          as_dependency_generation = a_dependency_generation a\<rparr>)"

definition store_empty :: "ProvenanceStore \<Rightarrow> bool" where
  "store_empty s \<longleftrightarrow> store_size s = 0"

definition ids_by_model :: "ProvenanceStore \<Rightarrow> ModelId \<Rightarrow> StateId list" where
  "ids_by_model s i = index_query (by_model s) i"

definition ids_by_adapter :: "ProvenanceStore \<Rightarrow> AdapterId \<Rightarrow> StateId list" where
  "ids_by_adapter s i = index_query (by_adapter s) i"

definition ids_by_producer :: "ProvenanceStore \<Rightarrow> ProducerId \<Rightarrow> StateId list" where
  "ids_by_producer s i = index_query (by_producer s) i"

definition ids_by_execution :: "ProvenanceStore \<Rightarrow> ExecutionId \<Rightarrow> StateId list" where
  "ids_by_execution s i = index_query (by_execution s) i"

definition ids_by_attempt :: "ProvenanceStore \<Rightarrow> AttemptId \<Rightarrow> StateId list" where
  "ids_by_attempt s i = index_query (by_attempt s) i"

definition ids_by_dependency :: "ProvenanceStore \<Rightarrow> DependencyId \<Rightarrow> StateId list" where
  "ids_by_dependency s i = index_query (by_dependency s) i"

definition ids_by_artifact_generation :: "ProvenanceStore \<Rightarrow> ArtifactGeneration \<Rightarrow> StateId list" where
  "ids_by_artifact_generation s g = index_query (by_artifact s) g"

definition ids_by_validity :: "ProvenanceStore \<Rightarrow> ValidityState \<Rightarrow> StateId list" where
  "ids_by_validity s v = index_query (by_validity s) v"

definition ids_by_evidence :: "ProvenanceStore \<Rightarrow> EvidenceClass \<Rightarrow> StateId list" where
  "ids_by_evidence s v = index_query (by_evidence s) v"

definition store_ancestors :: "ProvenanceStore \<Rightarrow> StateId \<Rightarrow> StateId list" where
  "store_ancestors s i = ancestors (st_graph s) i"

definition store_descendants :: "ProvenanceStore \<Rightarrow> StateId \<Rightarrow> StateId list" where
  "store_descendants s i = descendants (st_graph s) i"

definition store_parents :: "ProvenanceStore \<Rightarrow> StateId \<Rightarrow> StateId list" where
  "store_parents s i = parents (st_graph s) i"

definition store_children :: "ProvenanceStore \<Rightarrow> StateId \<Rightarrow> StateId list" where
  "store_children s i = children (st_graph s) i"

definition store_shared_ancestors :: "ProvenanceStore \<Rightarrow> StateId \<Rightarrow> StateId \<Rightarrow> StateId list" where
  "store_shared_ancestors s a b = shared_ancestors (st_graph s) a b"

definition store_roots :: "ProvenanceStore \<Rightarrow> graph_error + StateId list" where
  "store_roots s = roots (st_graph s)"

definition store_topological_order :: "ProvenanceStore \<Rightarrow> (graph_error + StateId list) option" where
  "store_topological_order s = topological_order (st_graph s)"

definition is_acyclic_dag :: "ProvenanceStore \<Rightarrow> (graph_error + bool) option" where
  "is_acyclic_dag s = is_acyclic (st_graph s)"

section \<open>Lemmas\<close>

lemma collect_boots_fold:
  "collect_boots a ws m = fold (\<lambda>w m. case boot_of a w of None \<Rightarrow> m | Some b \<Rightarrow> Mapping.update w b m) ws m"
  by (induction ws arbitrary: m) (auto split: option.splits)

lemma store_authority_snapshot: "store_authority s = authority_snapshot s"
  by (simp add: store_authority_def authority_snapshot_def collect_boots_fold)

lemma store_inv_graph:
  assumes "store_inv s"
  shows "graph_wf (st_graph s)" "acyclic (edges (st_graph s))"
    and "edges (st_graph s) = derivation_edges (st_records s) (prov_to_state s)"
    and "g_nodes (st_graph s) = Mapping.keys (st_records s)"
  using assms by (auto simp: store_inv_def graph_agrees_def graph_inv_def)

lemma sorted_children [simp]: "sorted (children g i)" "distinct (children g i)"
  by (auto simp: children_def split: option.splits)

lemma sorted_parents [simp]: "sorted (parents g i)" "distinct (parents g i)"
  by (auto simp: parents_def split: option.splits)

lemma set_store_parents: "set (parents g i) = set_at (g_parents g) i"
  by (simp add: parents_def set_at_def split: option.split)

lemma parents_exact:
  assumes "graph_wf g"
  shows "parents g i = sorted_list_of_set {p. (p, i) \<in> edges g}"
  by (rule sorted_distinct_eq_set) (auto simp: set_store_parents graph_wf_parents [OF assms])

text \<open>In an enumeration that has parents first, no later element is an ancestor of an earlier one.\<close>

lemma parents_first_append: "parents_first P seen (xs @ ys) \<Longrightarrow> parents_first P seen xs"
  by (induction xs arbitrary: seen) auto

lemma parents_first_ancestor:
  assumes pf: "parents_first P {} xs" and k: "k < length xs"
    and a: "(a, xs ! k) \<in> {(p, n). p \<in> P n}\<^sup>+"
  shows "a \<in> set (take k xs)"
proof -
  have "take (Suc k) xs @ drop (Suc k) xs = xs" by simp
  with pf have "parents_first P {} (take (Suc k) xs)" by (metis parents_first_append)
  then have split: "parents_first P {} (take k xs)" "P (xs ! k) \<subseteq> set (take k xs)"
    using k by (simp_all add: take_Suc_conv_app_nth parents_first_snoc)
  have closed: "P x \<subseteq> set (take k xs)" if "x \<in> set (take k xs)" for x
    using parents_first_closed [OF split(1) that] by simp
  from a show ?thesis
    by (induction rule: converse_trancl_induct) (use split(2) closed in auto)
qed

section \<open>Properties\<close>

text \<open>
  C35: on every reachable store the graph queries answer from the records.  The parents of a
  subject are the input states of its record and the subjects of its parent provenance, in
  ascending order; its ancestors are everything it was derived from, directly or through other
  records; and the roots are the subjects whose record names no parent.
\<close>

theorem graph_queries_follow_records:
  assumes "store_reachable s"
  shows "(case find_record s i of None \<Rightarrow> store_parents s i = []
      | Some r \<Rightarrow> store_parents s i = sorted_list_of_set (record_parents (prov_to_state s) r))
    \<and> store_ancestors s i =
        sorted_list_of_set {a. (a, i) \<in> (derivation_edges (st_records s) (prov_to_state s))\<^sup>+}
    \<and> store_roots s = Inr (sorted_list_of_set
        {i. \<exists>r. find_record s i = Some r \<and> record_parents (prov_to_state s) r = {}})"
proof -
  note inv = reachable_store_inv [OF assms] and g = store_inv_graph [OF reachable_store_inv [OF assms]]
  have edge: "(p, i) \<in> edges (st_graph s) \<longleftrightarrow>
      (\<exists>r. find_record s i = Some r \<and> p \<in> record_parents (prov_to_state s) r)" for p i
    by (simp add: g(3) derivation_edges_def find_record_def)
  have par: "store_parents s i = sorted_list_of_set {p. (p, i) \<in> edges (st_graph s)}"
    unfolding store_parents_def by (rule parents_exact [OF g(1)])
  have "set (store_ancestors s i) = {a. (a, i) \<in> (edges (st_graph s))\<^sup>+}"
    unfolding store_ancestors_def using set_ancestors [OF g(1)] by (auto simp: trancl_converse)
  then have anc: "store_ancestors s i = sorted_list_of_set {a. (a, i) \<in> (edges (st_graph s))\<^sup>+}"
    by (intro sorted_distinct_eq_set) (simp_all add: store_ancestors_def)
  have known: "i \<in> Mapping.keys (st_records s) \<longleftrightarrow> (\<exists>r. find_record s i = Some r)" for i
    by (simp add: find_record_def lookup_Some_iff)
  have "{i \<in> g_nodes (st_graph s). set_at (g_parents (st_graph s)) i = {}}
      = {i. \<exists>r. find_record s i = Some r \<and> record_parents (prov_to_state s) r = {}}"
    using graph_wf_parents [OF g(1)] by (auto simp: g(4) known edge)
  then have "store_roots s = Inr (sorted_list_of_set
      {i. \<exists>r. find_record s i = Some r \<and> record_parents (prov_to_state s) r = {}})"
    by (simp add: store_roots_def roots_result [OF g(1)])
  moreover have "case find_record s i of None \<Rightarrow> store_parents s i = []
      | Some r \<Rightarrow> store_parents s i = sorted_list_of_set (record_parents (prov_to_state s) r)"
    by (simp add: par edge split: option.split)
  ultimately show ?thesis using anc by (simp add: g(3))
qed

theorem graph_queries_follow_records_witness:
  "store_parents two_store (ScalarIdentifier 2) = [ScalarIdentifier 1]"
proof -
  have "find_record two_store (ScalarIdentifier 2) = Some (sample_record 2 12 [ScalarIdentifier 1])"
    by (simp add: find_record_def two_store_facts)
  with graph_queries_follow_records [OF two_store_reachable, of "ScalarIdentifier 2"]
  show ?thesis by (simp add: record_parents_def sample_record_def empty_record_def)
qed

text \<open>
  On every reachable store \<^verbatim>\<open>topological_order\<close> returns without an error: every recorded
  subject exactly once, each after everything it was derived from.
\<close>

theorem store_order_exists:
  assumes "store_reachable s"
  shows "\<exists>order. store_topological_order s = Some (Inr order)
    \<and> mset order = mset (store_ids s)
    \<and> (\<nexists>k l. k < l \<and> l < length order \<and> order ! l \<in> set (store_ancestors s (order ! k)))"
proof -
  note inv = reachable_store_inv [OF assms] and g = store_inv_graph [OF reachable_store_inv [OF assms]]
  obtain order where o: "topological_order (st_graph s) = Some (Inr order)"
    "set order = g_nodes (st_graph s)" "distinct order"
    "parents_first (set_at (g_parents (st_graph s))) {} order"
    using topological_order_result [OF g(1)] g(2) by auto
  have "mset order = mset (store_ids s)"
    using o(2,3) by (intro set_eq_iff_mset_eq_distinct [THEN iffD1])
      (simp_all add: store_ids_def g(4))
  moreover have "\<nexists>k l. k < l \<and> l < length order \<and> order ! l \<in> set (store_ancestors s (order ! k))"
  proof (intro notI, elim exE conjE)
    fix k l assume kl: "k < l" "l < length order" "order ! l \<in> set (store_ancestors s (order ! k))"
    have "{(p, n). p \<in> set_at (g_parents (st_graph s)) n} = edges (st_graph s)"
      using graph_wf_parents [OF g(1)] by auto
    moreover have "(order ! l, order ! k) \<in> (edges (st_graph s))\<^sup>+"
      using kl(3) set_ancestors [OF g(1)] by (simp add: store_ancestors_def trancl_converse)
    ultimately have "order ! l \<in> set (take k order)"
      using parents_first_ancestor [OF o(4), of k "order ! l"] kl by simp
    then obtain j where j: "j < k" "order ! j = order ! l"
      by (auto simp: in_set_conv_nth)
    with kl o(3) show False by (simp add: nth_eq_iff_index_eq)
  qed
  ultimately show ?thesis using o(1) by (auto simp: store_topological_order_def)
qed

theorem store_order_exists_witness:
  "\<exists>order. store_topological_order two_store = Some (Inr order)
    \<and> mset order = mset (store_ids two_store)"
  using store_order_exists [OF two_store_reachable] by blast

end
