(* ===== verification/Protocol.thy ===== *)
theory Protocol
  imports Persist_Files Store_Queries
begin

text \<open>
  \<^verbatim>\<open>protocol.hpp\<close>: opcodes, frames over a byte-stream socket and the wire form of claims and
  publications.  The operating system's \<^verbatim>\<open>recv\<close> and \<^verbatim>\<open>send\<close> are parameters of the loops that call
  them; what the code relies on is the locale \<open>stream_socket\<close>.  The loops themselves
  (\<^verbatim>\<open>recv_all\<close>, \<^verbatim>\<open>send_all\<close>) and everything above them are the code's.
\<close>

section \<open>Opcodes\<close>

datatype Op = Op_Hello | Op_Publish | Op_Respond | Op_RollEpoch | Op_SetAuthority | Op_Save
  | Op_Load | Op_Query | Op_Shutdown | Op_PublishStale | Op_Stats

fun Op_val :: "Op \<Rightarrow> byte" where
  "Op_val Op_Hello = 1"
| "Op_val Op_Publish = 2"
| "Op_val Op_Respond = 3"
| "Op_val Op_RollEpoch = 4"
| "Op_val Op_SetAuthority = 5"
| "Op_val Op_Save = 6"
| "Op_val Op_Load = 7"
| "Op_val Op_Query = 8"
| "Op_val Op_Shutdown = 9"
| "Op_val Op_PublishStale = 10"
| "Op_val Op_Stats = 11"

definition kMaxFrame :: u32 where "kMaxFrame = 32 * 1024 * 1024"

section \<open>Socket loops\<close>

text \<open>
  \<open>recv n s\<close> is one call of \<^verbatim>\<open>recv\<close> asking for at most \<open>n\<close> bytes; no bytes is a closed connection
  or an error.  \<open>send bs s\<close> is one call of \<^verbatim>\<open>send\<close> and returns how many bytes were taken, 0 for an
  error.
\<close>

function recv_all :: "(nat \<Rightarrow> 's \<Rightarrow> byte list \<times> 's) \<Rightarrow> nat \<Rightarrow> 's \<Rightarrow> byte list option \<times> 's" where
  "recv_all recv n s =
     (if n = 0 then (Some [], s)
      else
        let (got, s) = recv n s
        in if got = [] then (None, s)
           else case recv_all recv (n - length got) s of
               (None, s) \<Rightarrow> (None, s)
             | (Some bs, s) \<Rightarrow> (Some (got @ bs), s))"
  by pat_completeness auto
termination
  by (relation "measure (\<lambda>(recv, n, s). n)") (auto simp: neq_Nil_conv)

declare recv_all.simps [simp del]

function send_all :: "(byte list \<Rightarrow> 's \<Rightarrow> nat \<times> 's) \<Rightarrow> byte list \<Rightarrow> 's \<Rightarrow> bool \<times> 's" where
  "send_all send bs s =
     (if bs = [] then (True, s)
      else
        let (sent, s) = send bs s
        in if sent = 0 then (False, s) else send_all send (drop sent bs) s)"
  by pat_completeness auto
termination
  by (relation "measure (\<lambda>(send, bs, s). length bs)") auto

declare send_all.simps [simp del]

section \<open>Framing\<close>

definition frame_length :: "byte list \<Rightarrow> u32" where
  "frame_length payload = of_nat (length payload) + 1"

definition send_frame :: "(byte list \<Rightarrow> 's \<Rightarrow> nat \<times> 's) \<Rightarrow> byte \<Rightarrow> byte list \<Rightarrow> 's \<Rightarrow> bool \<times> 's" where
  "send_frame send op payload s =
     (let len = frame_length payload
      in if kMaxFrame < len then (False, s)
         else case send_all send (bytes_u32 len) s of
             (False, s) \<Rightarrow> (False, s)
           | (True, s) \<Rightarrow>
             (case send_all send [op] s of
                (False, s) \<Rightarrow> (False, s)
              | (True, s) \<Rightarrow> if payload = [] then (True, s) else send_all send payload s))"

definition recv_frame :: "(nat \<Rightarrow> 's \<Rightarrow> byte list \<times> 's) \<Rightarrow> 's \<Rightarrow> (byte \<times> byte list) option \<times> 's" where
  "recv_frame recv s =
     (case recv_all recv 4 s of
        (None, s) \<Rightarrow> (None, s)
      | (Some head, s) \<Rightarrow>
          let len = or_bytes 0 head :: u32
          in if len = 0 \<or> kMaxFrame < len then (None, s)
             else case recv_all recv 1 s of
                 (None, s) \<Rightarrow> (None, s)
               | (Some op, s) \<Rightarrow>
                   let plen = len - 1
                   in if 0 < plen
                      then case recv_all recv (unat plen) s of
                          (None, s) \<Rightarrow> (None, s)
                        | (Some payload, s) \<Rightarrow> (Some (hd op, payload), s)
                      else (Some (hd op, []), s))"

section \<open>Claims on the wire\<close>

definition opt_value :: "'tag ScalarIdentifier option \<Rightarrow> u64" where
  "opt_value g = (case g of None \<Rightarrow> 0 | Some i \<Rightarrow> get i)"

definition encode_claim :: "AuthorityClaim \<Rightarrow> byte list" where
  "encode_claim c = concat (map bytes_u64 [
     claim_coordinator_epoch c,
     get (claim_worker_id c),
     get (claim_worker_boot c),
     get (claim_attempt_id c),
     get (claim_attempt_generation c),
     get (claim_state_generation c),
     get (claim_provenance_generation c),
     opt_value (claim_artifact_generation c),
     opt_value (claim_model_generation c),
     opt_value (claim_adapter_generation c),
     opt_value (claim_composition_generation c),
     opt_value (claim_policy_generation c),
     opt_value (claim_dependency_generation c)])"

text \<open>
  \<^verbatim>\<open>decode_claim\<close> ignores the results of the reader: a failed read leaves the variable \<^verbatim>\<open>u\<close> as it
  was (the first one would leave it uninitialised; the only caller passes at least 104 bytes).
\<close>

definition next_u64 :: "u64 \<times> BinaryReader \<Rightarrow> u64 \<times> BinaryReader" where
  "next_u64 p = (case get_u64 (snd p) of (None, r) \<Rightarrow> (fst p, r) | (Some v, r) \<Rightarrow> (v, r))"

definition decoded_opt :: "u64 \<Rightarrow> 'tag ScalarIdentifier option \<Rightarrow> 'tag ScalarIdentifier option" where
  "decoded_opt u old = (if u \<noteq> 0 then Some (ScalarIdentifier u) else old)"

definition decode_claim :: "byte list \<Rightarrow> nat \<Rightarrow> AuthorityClaim \<Rightarrow> nat \<times> AuthorityClaim" where
  "decode_claim payload off c0 =
     (let r0 = new_reader (drop off payload);
          p1 = next_u64 (0, r0); p2 = next_u64 p1; p3 = next_u64 p2; p4 = next_u64 p3;
          p5 = next_u64 p4; p6 = next_u64 p5; p7 = next_u64 p6; p8 = next_u64 p7;
          p9 = next_u64 p8; p10 = next_u64 p9; p11 = next_u64 p10; p12 = next_u64 p11;
          p13 = next_u64 p12
      in (off + (length payload - reader_remaining (snd p13)),
          \<lparr>claim_worker_id = ScalarIdentifier (fst p2),
           claim_worker_boot = ScalarIdentifier (fst p3),
           claim_attempt_id = ScalarIdentifier (fst p4),
           claim_attempt_generation = ScalarIdentifier (fst p5),
           claim_state_generation = ScalarIdentifier (fst p6),
           claim_provenance_generation = ScalarIdentifier (fst p7),
           claim_coordinator_epoch = fst p1,
           claim_artifact_generation = decoded_opt (fst p8) (claim_artifact_generation c0),
           claim_model_generation = decoded_opt (fst p9) (claim_model_generation c0),
           claim_adapter_generation = decoded_opt (fst p10) (claim_adapter_generation c0),
           claim_composition_generation = decoded_opt (fst p11) (claim_composition_generation c0),
           claim_policy_generation = decoded_opt (fst p12) (claim_policy_generation c0),
           claim_dependency_generation = decoded_opt (fst p13) (claim_dependency_generation c0)\<rparr>))"

definition encode_publish_payload :: "RecordData \<Rightarrow> AuthorityClaim \<Rightarrow> byte list option" where
  "encode_publish_payload d c = map_option (\<lambda>rec. encode_claim c @ rec) (write_record d)"

definition decode_publish_payload :: "byte list \<Rightarrow> (RecordData \<times> AuthorityClaim) option" where
  "decode_publish_payload payload =
     (if length payload < 104 then None
      else
        let (off, c) = decode_claim payload 0 empty_claim
        in case read_record empty_record (new_reader (drop off payload)) of
            (Inl e, r) \<Rightarrow> None
          | (Inr d, r) \<Rightarrow> Some (d, c))"

section \<open>The stream contract\<close>

text \<open>The frame at the front of a contiguous buffer, as the format defines it.\<close>

definition parse_frame :: "byte list \<Rightarrow> (byte \<times> byte list) option" where
  "parse_frame p =
     (let len = or_bytes 0 (take 4 p) :: u32
      in if length p < 4 \<or> len = 0 \<or> kMaxFrame < len \<or> length p < 4 + unat len then None
         else Some (p ! 4, take (unat len - 1) (drop 5 p)))"

text \<open>
  What the loops rely on: a receive call returns a non-empty piece of at most the requested size
  from the front of what is still to come, and nothing only when nothing is left; a send call takes
  at most what it was offered, and what it takes goes out in order.
\<close>

locale stream_socket =
  fixes recv :: "nat \<Rightarrow> 's \<Rightarrow> byte list \<times> 's" and send :: "byte list \<Rightarrow> 's \<Rightarrow> nat \<times> 's"
    and pending :: "'s \<Rightarrow> byte list" and sent :: "'s \<Rightarrow> byte list"
  assumes recv_front: "recv n s = (got, s') \<Longrightarrow> pending s = got @ pending s' \<and> length got \<le> n"
    and recv_progress: "0 < n \<Longrightarrow> recv n s = ([], s') \<Longrightarrow> pending s = []"
    and send_front: "send bs s = (k, s') \<Longrightarrow> k \<le> length bs \<and> sent s' = sent s @ take k bs"
begin

lemma recv_all_result:
  assumes "recv_all recv n s = (got, s')"
  shows "if n \<le> length (pending s) then got = Some (take n (pending s)) \<and> pending s' = drop n (pending s)
     else got = None"
  using assms
proof (induction n arbitrary: s got s' rule: less_induct)
  case (less n)
  show ?case
  proof (cases "n = 0")
    case True
    with less.prems show ?thesis by (simp add: recv_all.simps)
  next
    case False
    obtain bs s1 where r: "recv n s = (bs, s1)" by (cases "recv n s")
    note front = recv_front [OF r]
    show ?thesis
    proof (cases "bs = []")
      case True
      with False r recv_progress [of n s s1] less.prems show ?thesis by (simp add: recv_all.simps)
    next
      case more: False
      then have "n - length bs < n" using False by simp
      from less.IH [OF this, of s1] obtain got1 s2 where
        ih: "recv_all recv (n - length bs) s1 = (got1, s2)"
        "if n - length bs \<le> length (pending s1)
         then got1 = Some (take (n - length bs) (pending s1)) \<and> pending s2 = drop (n - length bs) (pending s1)
         else got1 = None" by (metis surj_pair)
      have "got = map_option ((@) bs) got1" "s' = s2"
        using less.prems False r more ih(1)
        by (auto simp: recv_all.simps [of recv n s] split: option.splits)
      moreover have "n \<le> length (pending s) \<longleftrightarrow> n - length bs \<le> length (pending s1)" using front by auto
      ultimately show ?thesis using ih(2) front by (simp split: if_splits)
    qed
  qed
qed

lemma recv_all_exact:
  assumes "pending s = bs @ rest" "n = length bs"
  shows "\<exists>s'. recv_all recv n s = (Some bs, s') \<and> pending s' = rest"
proof -
  obtain got s' where r: "recv_all recv n s = (got, s')" by (cases "recv_all recv n s")
  from recv_all_result [OF r] assms r show ?thesis by simp
qed

lemma send_all_result:
  assumes "send_all send bs s = (ok, s')"
  shows "\<exists>k. sent s' = sent s @ take k bs \<and> (ok \<longrightarrow> length bs \<le> k)"
  using assms
proof (induction bs arbitrary: s rule: length_induct)
  case (1 bs)
  show ?case
  proof (cases "bs = []")
    case True
    with "1.prems" show ?thesis by (auto simp: send_all.simps)
  next
    case False
    obtain k s1 where k: "send bs s = (k, s1)" by (cases "send bs s")
    note front = send_front [OF k]
    show ?thesis
    proof (cases "k = 0")
      case True
      with "1.prems" False k front show ?thesis by (auto simp: send_all.simps intro!: exI [of _ 0])
    next
      case more: False
      with "1.prems" False k have "send_all send (drop k bs) s1 = (ok, s')" by (simp add: send_all.simps [of send bs])
      with "1.IH" more False obtain j where
        j: "sent s' = sent s1 @ take j (drop k bs)" "ok \<longrightarrow> length (drop k bs) \<le> j"
        by (metis length_drop diff_less length_greater_0_conv neq0_conv)
      then have "sent s' = sent s @ take (k + j) bs" using front by (simp add: take_add)
      with j(2) front show ?thesis by (intro exI [of _ "k + j"]) auto
    qed
  qed
qed

text \<open>What a successful \<^verbatim>\<open>send_frame\<close> adds to the stream, and that it is what \<^verbatim>\<open>recv_frame\<close> reads.\<close>

lemma send_all_sent: "send_all send bs s = (True, s') \<Longrightarrow> sent s' = sent s @ bs"
  using send_all_result [of bs s True s'] by auto

lemma send_frame_sent:
  assumes "send_frame send op payload s = (True, s')"
  shows "sent s' = sent s @ bytes_u32 (frame_length payload) @ [op] @ payload \<and> frame_length payload \<le> kMaxFrame"
proof -
  obtain ok1 s1 where r1: "send_all send (bytes_u32 (frame_length payload)) s = (ok1, s1)" by (rule prod.exhaust)
  obtain ok2 s2 where r2: "send_all send [op] s1 = (ok2, s2)" by (rule prod.exhaust)
  note frame = assms [unfolded send_frame_def Let_def r1 prod.case]
  have le: "\<not> kMaxFrame < frame_length payload" and ok1 using frame by (auto split: if_splits bool.splits)
  then have ok2 using frame r2 by (auto split: if_splits bool.splits)
  have s: "send_all send (bytes_u32 (frame_length payload)) s = (True, s1)" "send_all send [op] s1 = (True, s2)"
    using r1 r2 \<open>ok1\<close> \<open>ok2\<close> by simp_all
  have last: "payload \<noteq> [] \<Longrightarrow> send_all send payload s2 = (True, s')" "payload = [] \<Longrightarrow> s' = s2"
    using frame le s(2) \<open>ok1\<close> by (simp_all split: if_splits)
  have "sent s2 = sent s @ bytes_u32 (frame_length payload) @ [op]"
    using send_all_sent [OF s(1)] send_all_sent [OF s(2)] by simp
  with last le send_all_sent [of payload s2 s'] show ?thesis by (cases "payload = []") (auto simp: not_less)
qed

lemma recv_frame_parse:
  assumes "recv_frame recv s = (got, s')"
  shows "got = parse_frame (pending s) \<and>
    (got \<noteq> None \<longrightarrow> pending s' = drop (4 + unat (or_bytes 0 (take 4 (pending s)) :: u32)) (pending s))"
proof -
  let ?p = "pending s"
  obtain h s1 where h: "recv_all recv 4 s = (h, s1)" by (rule prod.exhaust)
  note h' = recv_all_result [OF h]
  show ?thesis
  proof (cases "length ?p < 4")
    case True
    with h h' assms show ?thesis by (simp add: recv_frame_def parse_frame_def)
  next
    case head: False
    let ?len = "or_bytes 0 (take 4 ?p) :: u32"
    from head h' have h1: "h = Some (take 4 ?p)" "pending s1 = drop 4 ?p" by simp_all
    show ?thesis
    proof (cases "?len = 0 \<or> kMaxFrame < ?len")
      case True
      with h h1 head assms show ?thesis by (auto simp: recv_frame_def parse_frame_def Let_def)
    next
      case len: False
      then have pos: "1 \<le> unat ?len" by (simp add: unat_gt_0 [symmetric] Suc_le_eq del: unat_gt_0)
      obtain o1 s2 where o1: "recv_all recv 1 s1 = (o1, s2)" by (rule prod.exhaust)
      note o' = recv_all_result [OF o1, unfolded h1(2)]
      have body: "recv_frame recv s = (case o1 of None \<Rightarrow> (None, s2) | Some op \<Rightarrow>
          if 0 < ?len - 1 then
            (case recv_all recv (unat (?len - 1)) s2 of
               (None, s) \<Rightarrow> (None, s) | (Some payload, s) \<Rightarrow> (Some (hd op, payload), s))
          else (Some (hd op, []), s2))"
        by (cases o1) (use len in \<open>simp_all add: recv_frame_def h h1(1) o1 Let_def del: One_nat_def\<close>)
      have minus: "unat (?len - 1) = unat ?len - 1" using len by (simp add: unat_minus_one)
      obtain g3 s3 where g3: "recv_all recv (unat (?len - 1)) s2 = (g3, s3)" by (rule prod.exhaust)
      show ?thesis
      proof (cases "length ?p < 5")
        case True
        with o' have "o1 = None" by simp
        with body assms True pos len show ?thesis by (simp add: parse_frame_def Let_def)
      next
        case op: False
        with o' have o2: "o1 = Some (take 1 (drop 4 ?p))" "pending s2 = drop 5 ?p" by (simp_all split: if_splits)
        have hd: "hd (take 1 (drop 4 ?p)) = ?p ! 4" using op by (simp add: hd_drop_conv_nth)
        note g' = recv_all_result [OF g3, unfolded minus o2(2)]
        have more: "0 < ?len - 1 \<longleftrightarrow> unat ?len \<noteq> 1"
          using minus pos by (simp add: word_less_nat_alt) linarith
        show ?thesis
        proof (cases "unat ?len = 1")
          case True
          with body more o2 op len assms hd show ?thesis
            by (auto simp: parse_frame_def Let_def)
        next
          case False
          with body more g3 o2(1) hd have r: "recv_frame recv s =
              (case g3 of None \<Rightarrow> (None, s3) | Some payload \<Rightarrow> (Some (?p ! 4, payload), s3))"
            by (cases g3) simp_all
          from g' pos op have g4: "if 4 + unat ?len \<le> length ?p
              then g3 = Some (take (unat ?len - 1) (drop 5 ?p)) \<and> pending s3 = drop (4 + unat ?len) ?p
              else g3 = None"
            by (auto split: if_splits simp: add.commute)
          with r len head assms show ?thesis
            by (auto simp: parse_frame_def Let_def split: if_splits)
        qed
      qed
    qed
  qed
qed

end

section \<open>A concrete socket\<close>

text \<open>
  What arrives is a list of segments, in the order and with the boundaries the network chose; an
  empty segment is an error or the end of the stream.  What is sent is taken in pieces whose sizes
  the environment chooses.
\<close>

record Socket =
  so_in :: "byte list list"
  so_quota :: "nat list"
  so_out :: "byte list"

definition sock_recv :: "nat \<Rightarrow> Socket \<Rightarrow> byte list \<times> Socket" where
  "sock_recv n s = (case so_in s of
     [] \<Rightarrow> ([], s)
   | c # cs \<Rightarrow>
       if length c \<le> n then (if c = [] then ([], s) else (c, s\<lparr>so_in := cs\<rparr>))
       else (take n c, s\<lparr>so_in := drop n c # cs\<rparr>))"

definition sock_send :: "byte list \<Rightarrow> Socket \<Rightarrow> nat \<times> Socket" where
  "sock_send bs s = (case so_quota s of
     [] \<Rightarrow> (0, s)
   | q # qs \<Rightarrow> (min q (length bs), s\<lparr>so_quota := qs, so_out := so_out s @ take q bs\<rparr>))"

definition so_pending :: "Socket \<Rightarrow> byte list" where
  "so_pending s = concat (takeWhile (\<lambda>c. c \<noteq> []) (so_in s))"

interpretation segments: stream_socket sock_recv sock_send so_pending so_out
proof
  show "sock_recv n s = (got, s') \<Longrightarrow> so_pending s = got @ so_pending s' \<and> length got \<le> n" for n s got s'
    by (auto simp: sock_recv_def so_pending_def split: list.splits if_splits)
  show "0 < n \<Longrightarrow> sock_recv n s = ([], s') \<Longrightarrow> so_pending s = []" for n s s'
    by (auto simp: sock_recv_def so_pending_def split: list.splits if_splits)
  show "sock_send bs s = (k, s') \<Longrightarrow> k \<le> length bs \<and> so_out s' = so_out s @ take k bs" for bs s k s'
    by (auto simp: sock_send_def min_def split: list.splits)
qed

lemma recv_frame_cut:
  "fst (recv_frame sock_recv s) = parse_frame (so_pending s)
    \<and> (case recv_frame sock_recv s of
        (None, s') \<Rightarrow> True
      | (Some (op, payload), s') \<Rightarrow> so_pending s' = drop (5 + length payload) (so_pending s))"
proof -
  obtain got s' where r: "recv_frame sock_recv s = (got, s')" by (rule prod.exhaust)
  let ?p = "so_pending s" and ?n = "unat (or_bytes 0 (take 4 (so_pending s)) :: u32)"
  note parsed = segments.recv_frame_parse [OF r]
  show ?thesis
  proof (cases got)
    case None
    with r parsed show ?thesis by simp
  next
    case (Some f)
    then have "parse_frame ?p = Some f" using parsed by simp
    then have f: "4 + ?n \<le> length ?p" "?n \<noteq> 0" "snd f = take (?n - 1) (drop 5 ?p)"
      by (auto simp: parse_frame_def Let_def unat_gt_0 split: if_splits)
    then have n: "4 + ?n = 5 + length (snd f)" by simp
    obtain op payload where "f = (op, payload)" by (rule prod.exhaust)
    with Some r parsed [unfolded n] show ?thesis by simp
  qed
qed

section \<open>Claims round trip\<close>

text \<open>What the wire makes of a claim: a constraint to the null generation is no constraint.\<close>

definition wire_opt :: "'tag ScalarIdentifier option \<Rightarrow> 'tag ScalarIdentifier option" where
  "wire_opt g = (if g = Some null_id then None else g)"

definition wire_claim :: "AuthorityClaim \<Rightarrow> AuthorityClaim" where
  "wire_claim c = c\<lparr>
     claim_artifact_generation := wire_opt (claim_artifact_generation c),
     claim_model_generation := wire_opt (claim_model_generation c),
     claim_adapter_generation := wire_opt (claim_adapter_generation c),
     claim_composition_generation := wire_opt (claim_composition_generation c),
     claim_policy_generation := wire_opt (claim_policy_generation c),
     claim_dependency_generation := wire_opt (claim_dependency_generation c)\<rparr>"

lemma decoded_opt_value [simp]: "decoded_opt (opt_value g) None = wire_opt g"
proof (cases g)
  case (Some i)
  then show ?thesis by (cases i) (auto simp: decoded_opt_def opt_value_def wire_opt_def null_id_def)
qed (simp add: decoded_opt_def opt_value_def wire_opt_def)

definition reader_at :: "u64 \<times> BinaryReader \<Rightarrow> u64 \<Rightarrow> byte list \<Rightarrow> bool" where
  "reader_at p v rest \<longleftrightarrow> fst p = v \<and> reader_good (snd p) \<and> rest_of (snd p) = rest"

lemma next_u64_reads:
  assumes "reader_at p v0 (bytes_u64 v @ rest)"
  shows "reader_at (next_u64 p) v rest"
  using u64_codec.get_put [of v "bytes_u64 v" "snd p" rest] advance_good [of "snd p" "bytes_u64 v" rest] assms
  by (simp add: put_u64_def next_u64_def reader_at_def)

lemma length_encode_claim [simp]: "length (encode_claim c) = 104"
  by (simp add: encode_claim_def)

lemma reader_remaining_rest: "reader_good r \<Longrightarrow> reader_remaining r = length (rest_of r)"
  by (simp add: reader_good_def reader_remaining_def rest_of_def)

lemma decode_encode_claim:
  "decode_claim (encode_claim c @ rest) 0 empty_claim = (104, wire_claim c)"
proof -
  define r0 where "r0 = new_reader (encode_claim c @ rest)"
  have "reader_at (0, r0) 0 (encode_claim c @ rest)" by (simp add: reader_at_def r0_def)
  note n1 = next_u64_reads [OF this [unfolded encode_claim_def list.map concat.simps append_assoc append_Nil]]
  note n2 = next_u64_reads [OF n1] note n3 = next_u64_reads [OF n2] note n4 = next_u64_reads [OF n3]
  note n5 = next_u64_reads [OF n4] note n6 = next_u64_reads [OF n5] note n7 = next_u64_reads [OF n6]
  note n8 = next_u64_reads [OF n7] note n9 = next_u64_reads [OF n8] note n10 = next_u64_reads [OF n9]
  note n11 = next_u64_reads [OF n10] note n12 = next_u64_reads [OF n11] note n13 = next_u64_reads [OF n12]
  note vals = n1 n2 n3 n4 n5 n6 n7 n8 n9 n10 n11 n12 n13
  have remain: "reader_remaining (snd (next_u64 (next_u64 (next_u64 (next_u64 (next_u64 (next_u64 (next_u64
      (next_u64 (next_u64 (next_u64 (next_u64 (next_u64 (next_u64 (0, r0))))))))))))))) = length rest"
    using n13 by (simp add: reader_at_def reader_remaining_rest)
  show ?thesis
    unfolding decode_claim_def Let_def drop0 r0_def [symmetric] vals [unfolded reader_at_def, THEN conjunct1] remain
    by (simp add: wire_claim_def empty_claim_def)
qed

lemma decode_publish_encoded:
  assumes "encode_publish_payload d c = Some bs" "record_ok d" "record_fits d"
  shows "decode_publish_payload (bs @ extra) = Some (d, wire_claim c)"
proof -
  obtain rec where rec: "write_record d = Some rec" "bs = encode_claim c @ rec"
    using assms(1) by (auto simp: encode_publish_payload_def)
  have "rest_of (new_reader (rec @ extra)) = rec @ extra" by simp
  from readsD [OF reads_record [OF rec(1) assms(2,3)] _ this]
  have "read_record empty_record (new_reader (rec @ extra))
      = (Inr d, advance (length rec) (new_reader (rec @ extra)))" by simp
  then show ?thesis by (simp add: decode_publish_payload_def rec(2) decode_encode_claim)
qed

section \<open>Properties\<close>

text \<open>
  C29: framing is independent of how the network cuts the stream.  However the incoming bytes are
  split into segments, \<^verbatim>\<open>recv_frame\<close> returns the frame the contiguous bytes begin with and leaves
  the rest of the stream for the next call; it refuses exactly a missing or cut frame, a length of
  zero and a length over 32 MiB.
\<close>

theorem recv_frame_segmentation:
  "fst (recv_frame sock_recv s) = parse_frame (so_pending s)
    \<and> (case recv_frame sock_recv s of
        (None, s') \<Rightarrow> True
      | (Some (op, payload), s') \<Rightarrow> so_pending s' = drop (5 + length payload) (so_pending s))"
  by (rule recv_frame_cut)

text \<open>
  C28: what \<^verbatim>\<open>send_frame\<close> sent, \<^verbatim>\<open>recv_frame\<close> receives: if the call reports success, the other
  side, whatever the segments it gets the stream in, receives the same opcode and payload and is
  left with what was sent afterwards.  (The payload must be shorter than \<open>2 ^ 32 - 1\<close> bytes, where
  the 32-bit length field would wrap.)
\<close>

theorem frame_roundtrip:
  assumes "send_frame sock_send op payload a = (True, a')" "length payload + 1 < 2 ^ 32"
    and "so_pending b = drop (length (so_out a)) (so_out a') @ rest"
  shows "\<exists>b'. recv_frame sock_recv b = (Some (op, payload), b') \<and> so_pending b' = rest"
proof -
  note sent = segments.send_frame_sent [OF assms(1)]
  have len: "unat (frame_length payload) = length payload + 1"
  proof -
    have "frame_length payload = of_nat (length payload + 1)" by (simp add: frame_length_def)
    moreover have "unat (of_nat (length payload + 1) :: u32) = length payload + 1"
      using assms(2) by (simp only: unat_of_nat) (simp add: take_bit_nat_eq_self)
    ultimately show ?thesis by simp
  qed
  have p: "so_pending b = bytes_u32 (frame_length payload) @ op # payload @ rest"
    using assms(3) sent by simp
  obtain got b' where r: "recv_frame sock_recv b = (got, b')" by (rule prod.exhaust)
  have "frame_length payload \<noteq> 0" using len by auto
  then have "parse_frame (so_pending b) = Some (op, payload)"
    using sent len by (simp add: p parse_frame_def Let_def nth_append not_less [symmetric])
  with segments.recv_frame_parse [OF r] len show ?thesis
    by (simp add: r p)
qed

definition demo_sender :: Socket where
  "demo_sender = \<lparr>so_in = [], so_quota = [3, 9, 1, 2, 2], so_out = []\<rparr>"

theorem frame_roundtrip_witness:
  "\<exists>b'. recv_frame sock_recv \<lparr>so_in = [[3, 0], [0, 0, 2, 8], [7, 1]], so_quota = [], so_out = []\<rparr>
      = (Some (2, [8, 7]), b') \<and> so_pending b' = [1]"
proof (rule frame_roundtrip)
  show "send_frame sock_send 2 [8, 7] demo_sender
    = (True, \<lparr>so_in = [], so_quota = [2], so_out = [3, 0, 0, 0, 2, 8, 7]\<rparr>)"
    by (simp add: demo_sender_def send_frame_def frame_length_def send_all.simps sock_send_def
        bytes_u32_def kMaxFrame_def upt_rec)
qed (simp_all add: so_pending_def demo_sender_def)



end
