(* ===== verification/Text_Input.thy ===== *)
theory Text_Input
  imports Ids
begin

text \<open>
  The parts of the C and C++ standard library the programs read text with: searching and cutting
  strings, \<^verbatim>\<open>strtoull(s, nullptr, 16)\<close>, \<^verbatim>\<open>atoi\<close>'s digits and the truncation of \<^verbatim>\<open>snprintf\<close>.  The
  theory shows what the hexadecimal reader makes of the two ways the programs print numbers: it
  inverts the printing of identities, and it misreads decimal numerals of two or more digits.
\<close>

section \<open>Strings\<close>

text \<open>\<^verbatim>\<open>s.find(c, pos)\<close>, \<^verbatim>\<open>s.find(p, pos)\<close> and \<^verbatim>\<open>s.substr(pos, n)\<close>; \<open>None\<close> is \<^verbatim>\<open>npos\<close>.\<close>

definition find_char :: "char \<Rightarrow> string \<Rightarrow> nat \<Rightarrow> nat option" where
  "find_char c s pos = find (\<lambda>i. s ! i = c) [pos..<length s]"

definition find_string :: "string \<Rightarrow> string \<Rightarrow> nat \<Rightarrow> nat option" where
  "find_string p s pos = find (\<lambda>i. take (length p) (drop i s) = p) [pos..<Suc (length s) - length p]"

definition substr :: "string \<Rightarrow> nat \<Rightarrow> nat \<Rightarrow> string" where
  "substr s pos n = take n (drop pos s)"

text \<open>A formatted text cut to a buffer of \<open>n\<close> bytes with its terminator.\<close>

definition in_buffer :: "nat \<Rightarrow> string \<Rightarrow> string" where
  "in_buffer n s = take (n - 1) s"

text \<open>\<^verbatim>\<open>%lld\<close> of a signed and \<^verbatim>\<open>%llu\<close> of an unsigned 64-bit value.\<close>

definition signed_text :: "i64 \<Rightarrow> string" where
  "signed_text w = (let i = sint w in if i < 0 then ''-'' @ dec_string (nat (- i)) else dec_string (nat i))"

definition unsigned_text :: "u64 \<Rightarrow> string" where
  "unsigned_text w = dec_string (unat w)"

section \<open>Reading hexadecimal numbers\<close>

definition is_space :: "char \<Rightarrow> bool" where
  "is_space c \<longleftrightarrow> c \<in> set [CHR '' '', CHR 0x09, CHR 0x0A, CHR 0x0B, CHR 0x0C, CHR 0x0D]"

definition is_hex_char :: "char \<Rightarrow> bool" where
  "is_hex_char c \<longleftrightarrow> digit_value True c \<noteq> None"

definition hex_char_value :: "char \<Rightarrow> nat" where
  "hex_char_value c = (case digit_value True c of None \<Rightarrow> 0 | Some d \<Rightarrow> unat d)"

definition hex_text_value :: "string \<Rightarrow> nat" where
  "hex_text_value s = foldl (\<lambda>a c. a * 16 + hex_char_value c) 0 s"

fun skip_sign :: "string \<Rightarrow> bool \<times> string" where
  "skip_sign (c # s) = (if c = CHR ''-'' then (True, s) else if c = CHR ''+'' then (False, s) else (False, c # s))"
| "skip_sign [] = (False, [])"

fun skip_0x :: "string \<Rightarrow> string" where
  "skip_0x (a # b # c # s) =
     (if a = CHR ''0'' \<and> (b = CHR ''x'' \<or> b = CHR ''X'') \<and> is_hex_char c then c # s else a # b # c # s)"
| "skip_0x s = s"

definition strtoull16 :: "string \<Rightarrow> u64" where
  "strtoull16 s =
     (let (neg, body) = skip_sign (dropWhile is_space s);
          v = hex_text_value (takeWhile is_hex_char (skip_0x body))
      in if 2 ^ 64 \<le> v then - 1 else if neg then - of_nat v else of_nat v)"

section \<open>Lemmas\<close>

lemma hex_text_value_append:
  "hex_text_value (s @ [c]) = hex_text_value s * 16 + hex_char_value c"
  by (simp add: hex_text_value_def)

lemma hex_text_value_Nil [simp]: "hex_text_value [] = 0"
  by (simp add: hex_text_value_def)

lemma hex_digit_facts [simp]:
  assumes "d < 16"
  shows "is_hex_char (hex_digit d)" "hex_char_value (hex_digit d) = d"
  using assms by (simp_all add: is_hex_char_def hex_char_value_def digit_value_hex_digit unat_of_nat)

lemma hex_digit_plain:
  assumes "d < 16"
  shows "\<not> is_space (hex_digit d)" "hex_digit d \<noteq> CHR ''-''" "hex_digit d \<noteq> CHR ''+''"
    "hex_digit d \<noteq> CHR ''x''" "hex_digit d \<noteq> CHR ''X''" "hex_digit d \<noteq> CHR '';''" "hex_digit d \<noteq> CHR ''=''"
proof -
  have "list_all (\<lambda>d. \<not> is_space (hex_digit d) \<and> hex_digit d \<noteq> CHR ''-'' \<and> hex_digit d \<noteq> CHR ''+''
      \<and> hex_digit d \<noteq> CHR ''x'' \<and> hex_digit d \<noteq> CHR ''X'' \<and> hex_digit d \<noteq> CHR '';'' \<and> hex_digit d \<noteq> CHR ''='') [0..<16]"
    by code_simp
  with assms show "\<not> is_space (hex_digit d)" "hex_digit d \<noteq> CHR ''-''" "hex_digit d \<noteq> CHR ''+''"
    "hex_digit d \<noteq> CHR ''x''" "hex_digit d \<noteq> CHR ''X''" "hex_digit d \<noteq> CHR '';''" "hex_digit d \<noteq> CHR ''=''"
    by (simp_all add: list_all_iff)
qed

lemma hex_fixed_value:
  "hex_text_value (hex_fixed w n) = n mod 16 ^ w \<and> list_all (\<lambda>c. \<exists>d<16. c = hex_digit d) (hex_fixed w n)"
proof (induction w arbitrary: n)
  case (Suc w)
  have "n mod 16 ^ Suc w = (n div 16) mod 16 ^ w * 16 + n mod 16"
    by (metis mod_mult2_eq add.commute mult.commute power_Suc)
  moreover have "\<exists>d<16. hex_digit (n mod 16) = hex_digit d" by (rule exI [of _ "n mod 16"]) simp
  ultimately show ?case using Suc [of "n div 16"] by (simp add: hex_text_value_append)
qed simp

lemma dec_string_is_digits: "list_all (\<lambda>c. \<exists>d<16. c = hex_digit d) (dec_string n)"
  unfolding list_all_iff
proof
  fix c assume "c \<in> set (dec_string n)"
  then obtain d where "d < 10" "c = hex_digit d" using dec_string_digits by blast
  then show "\<exists>d<16. c = hex_digit d" by (intro exI [of _ d]) simp
qed

lemma takeWhile_hex: "list_all (\<lambda>c. \<exists>d<16. c = hex_digit d) s \<Longrightarrow> takeWhile is_hex_char s = s"
  by (induction s) auto

lemma strtoull16_hex_text:
  assumes "list_all (\<lambda>c. \<exists>d<16. c = hex_digit d) s" "s \<noteq> []"
  shows "strtoull16 s = (if 2 ^ 64 \<le> hex_text_value s then - 1 else of_nat (hex_text_value s))"
    and "strtoull16 (''0x'' @ s) = (if 2 ^ 64 \<le> hex_text_value s then - 1 else of_nat (hex_text_value s))"
proof -
  obtain c t where s: "s = c # t" using assms(2) by (cases s) auto
  then obtain d where d: "d < 16" "c = hex_digit d" using assms(1) by auto
  note plain = hex_digit_plain [OF d(1), folded d(2)]
  have "dropWhile is_space s = s" "skip_sign s = (False, s)" using s plain by simp_all
  moreover have "skip_0x s = s"
  proof (cases t)
    case (Cons c2 t2)
    then obtain d2 where "d2 < 16" "c2 = hex_digit d2" using assms(1) s by auto
    with hex_digit_plain [of d2] s Cons show ?thesis by (cases t2) auto
  qed (simp add: s)
  ultimately show "strtoull16 s = (if 2 ^ 64 \<le> hex_text_value s then - 1 else of_nat (hex_text_value s))"
    by (simp add: strtoull16_def takeWhile_hex [OF assms(1)])
  have "skip_0x (CHR ''0'' # CHR ''x'' # s) = s" using s d by simp
  then show "strtoull16 (''0x'' @ s) = (if 2 ^ 64 \<le> hex_text_value s then - 1 else of_nat (hex_text_value s))"
    by (simp add: strtoull16_def is_space_def takeWhile_hex [OF assms(1)])
qed

lemma strtoull16_to_string: "strtoull16 (to_string i) = get i"
proof -
  have "hex_text_value (hex_fixed 16 (unat (get i))) = unat (get i)"
    using hex_fixed_value [of 16 "unat (get i)"] unat_u64_less [of "get i"] by simp
  moreover have "list_all (\<lambda>c. \<exists>d<16. c = hex_digit d) (hex_fixed 16 (unat (get i)))"
    using hex_fixed_value by blast
  ultimately show ?thesis
    using strtoull16_hex_text(2) [of "hex_fixed 16 (unat (get i))"] unat_u64_less [of "get i"]
    by (simp add: to_string_def)
qed

lemma hex_value_of_decimal: "hex_text_value (dec_string n) \<ge> n + (n div 10) * 6"
proof (induction n rule: dec_string.induct)
  case (1 n)
  show ?case
  proof (cases "n < 10")
    case True
    then show ?thesis
      using hex_text_value_append [of "[]" "hex_digit n"] by (simp add: dec_string.simps [of n])
  next
    case False
    then have "hex_text_value (dec_string n) = hex_text_value (dec_string (n div 10)) * 16 + n mod 10"
      by (simp add: dec_string.simps [of n] hex_text_value_append)
    moreover have "n div 10 \<le> hex_text_value (dec_string (n div 10))" using 1 False by linarith
    moreover have "n div 10 * 16 + n mod 10 = n + n div 10 * 6" using div_mult_mod_eq [of n 10] by linarith
    ultimately show ?thesis by linarith
  qed
qed

text \<open>The decimal text of a number, read as hexadecimal.\<close>

lemma strtoull16_dec_string:
  assumes "n < 2 ^ 64"
  shows "strtoull16 (dec_string n) = of_nat n \<longleftrightarrow> n < 10 \<or> n = 2 ^ 64 - 1"
proof -
  note read = strtoull16_hex_text(1) [OF dec_string_is_digits dec_string_nonempty, of n]
  show ?thesis
  proof (cases "n < 10")
    case True
    then have "hex_text_value (dec_string n) = n"
      using hex_text_value_append [of "[]" "hex_digit n"] by (simp add: dec_string.simps [of n])
    with read assms True show ?thesis by simp
  next
    case False
    then have more: "n < hex_text_value (dec_string n)" 
      using hex_value_of_decimal [of n] div_le_mono [of 10 n 10] by simp
    show ?thesis
    proof (cases "2 ^ 64 \<le> hex_text_value (dec_string n)")
      case True
      then have "strtoull16 (dec_string n) = of_nat n \<longleftrightarrow> (- 1 :: u64) = of_nat n" using read by simp
      also have "\<dots> \<longleftrightarrow> n = 2 ^ 64 - 1"
        using eq_of_nat_u64_iff [OF assms, of "- 1"] by (auto simp: unsigned_minus_1_eq_mask mask_eq_exp_minus_1)
      finally show ?thesis using False by simp
    next
      case fits: False
      then have "strtoull16 (dec_string n) = of_nat n \<longleftrightarrow>
          (of_nat (hex_text_value (dec_string n)) :: u64) = of_nat n" using read by simp
      also have "\<dots> \<longleftrightarrow> hex_text_value (dec_string n) = n"
        using fits assms by (simp add: eq_of_nat_u64_iff unat_of_nat take_bit_nat_eq_self)
      finally show ?thesis using False more fits by auto
    qed
  qed
qed

end
