(* ===== verification/Coordinator.thy ===== *)
theory Coordinator
  imports Protocol Text_Input
begin

text \<open>
  \<^verbatim>\<open>coordinator.cpp\<close>: the process that owns the authoritative store.  A request handler maps the
  coordinator's state (store, counters, stop flag, files, printed lines) and one frame to a reply
  and the next state; \<open>None\<close> as reply is an exception that leaves the handler.  Each handler is one
  step; a connection is the loop over its frames, and the server interleaves the connections.  The
  one handler that is not atomic in the code is the publication, whose claim is checked before the
  lock of the store is taken: \<open>Concurrency\<close> splits it.
\<close>

section \<open>State\<close>

record Coordinator =
  co_store :: ProvenanceStore
  co_accepted :: i64
  co_rejected :: i64
  co_stopping :: bool
  co_files :: filesystem
  co_log :: "string list"

definition initial_coordinator :: "filesystem \<Rightarrow> Coordinator" where
  "initial_coordinator fs = \<lparr>co_store = empty_store, co_accepted = 0, co_rejected = 0,
     co_stopping = False, co_files = fs, co_log = []\<rparr>"

definition authority_summary :: "ProvenanceStore \<Rightarrow> string" where
  "authority_summary s =
     (let a = store_authority s
      in in_buffer 256 (''epoch='' @ unsigned_text (as_epoch a)
        @ '';attempt='' @ to_string (as_attempt_id a)
        @ '';attempt_gen='' @ to_string (as_attempt_generation a)
        @ '';state_gen='' @ to_string (as_state_generation a)
        @ '';prov_gen='' @ to_string (as_provenance_generation a)
        @ '';dep_gen='' @ to_string (as_dependency_generation a)
        @ '';model_gen='' @ to_string (as_model_generation a)
        @ '';adapter_gen='' @ to_string (as_adapter_generation a)
        @ '';policy_gen='' @ to_string (as_policy_generation a)))"

section \<open>Requests\<close>

definition read_u64 :: "BinaryReader \<Rightarrow> u64 \<times> BinaryReader" where
  "read_u64 r = (case get_u64 r of (None, r) \<Rightarrow> (0, r) | (Some v, r) \<Rightarrow> (v, r))"

definition handle_hello :: "byte list \<Rightarrow> Coordinator \<Rightarrow> string option \<times> Coordinator" where
  "handle_hello payload c =
     (let c' = if 16 \<le> length payload then
            let (wid, r) = read_u64 (new_reader payload); (bid, r) = read_u64 r
            in c\<lparr>co_store := store_register_boot (ScalarIdentifier wid) (ScalarIdentifier bid) (co_store c)\<rparr>
          else c
      in (Some (authority_summary (co_store c')), c'))"

definition published_line :: "RecordData \<Rightarrow> string" where
  "published_line d = ''PUBLISHED '' @ to_string (subject_id d) @ '' prov_gen=''
     @ to_string (provenance_generation d)"

definition handle_publish :: "byte list \<Rightarrow> Coordinator \<Rightarrow> string option \<times> Coordinator" where
  "handle_publish payload c =
     (case decode_publish_payload payload of
        None \<Rightarrow> (Some ''err:malformed publish'', c\<lparr>co_rejected := co_rejected c + 1\<rparr>)
      | Some (d, claim) \<Rightarrow>
          (case publish_fenced d claim (co_store c) of
             (Inl e, s') \<Rightarrow> (None, c\<lparr>co_store := s'\<rparr>)
           | (Inr out, s') \<Rightarrow>
               if po_ok out
               then (Some ''ok'', c\<lparr>co_store := s', co_accepted := co_accepted c + 1,
                      co_log := co_log c @ [published_line d]\<rparr>)
               else (Some (''err:'' @ po_error out),
                     c\<lparr>co_store := s', co_rejected := co_rejected c + 1\<rparr>)))"

definition handle_roll_epoch :: "Coordinator \<Rightarrow> string option \<times> Coordinator" where
  "handle_roll_epoch c =
     (let (e, s') = store_roll_epoch (co_store c)
      in (Some (''epoch='' @ unsigned_text e), c\<lparr>co_store := s'\<rparr>))"

text \<open>The lambda \<^verbatim>\<open>get\<close>: the text after the first \<^verbatim>\<open>key=\<close> up to the next semicolon.\<close>

definition key_value :: "string \<Rightarrow> string \<Rightarrow> string" where
  "key_value s key =
     (case find_string (key @ ''='') s 0 of
        None \<Rightarrow> []
      | Some p \<Rightarrow>
          let pos = p + length key + 1
          in case find_char (CHR '';'') s pos of
               None \<Rightarrow> drop pos s
             | Some e \<Rightarrow> substr s pos (e - pos))"

definition hx :: "string \<Rightarrow> u64" where
  "hx v = strtoull16 (if v = [] then ''0'' else v)"

definition when_set :: "u64 \<Rightarrow> ('s \<Rightarrow> 's) \<Rightarrow> 's \<Rightarrow> 's" where
  "when_set v f s = (if v \<noteq> 0 then f s else s)"

definition set_authority :: "string \<Rightarrow> ProvenanceStore \<Rightarrow> ProvenanceStore" where
  "set_authority s st =
     (let sg = hx (key_value s ''state_gen'');
          pg = hx (key_value s ''prov_gen'');
          dg = hx (key_value s ''dep_gen'');
          mg = hx (key_value s ''model_gen'');
          ag = hx (key_value s ''attempt'');
          ag2 = hx (key_value s ''attempt_gen'');
          pgany = hx (key_value s ''policy_gen'');
          st = when_set sg (store_roll_state_generation (ScalarIdentifier sg)) st;
          st = when_set pg (store_roll_provenance_generation (ScalarIdentifier pg)) st;
          st = when_set dg (store_set_dependency_generation (ScalarIdentifier dg)) st;
          st = when_set mg (store_set_model_generation (ScalarIdentifier mg)) st;
          st = (if ag \<noteq> 0 \<and> ag2 \<noteq> 0
                then store_begin_attempt (ScalarIdentifier ag) (ScalarIdentifier ag2) st else st)
      in when_set pgany (store_set_policy_generation (ScalarIdentifier pgany)) st)"

definition handle_set_authority :: "byte list \<Rightarrow> Coordinator \<Rightarrow> string option \<times> Coordinator" where
  "handle_set_authority payload c =
     (Some ''ok'', c\<lparr>co_store := set_authority (string_of_bytes payload) (co_store c)\<rparr>)"

definition handle_save :: "IoFaults \<Rightarrow> byte list \<Rightarrow> Coordinator \<Rightarrow> string option \<times> Coordinator" where
  "handle_save io payload c =
     (let snap = store_snapshot (co_store c); dig = store_digest snap
      in case save_file snap (string_of_bytes payload) io (co_files c) of
           (SaveThrew, fs) \<Rightarrow> (None, c\<lparr>co_files := fs\<rparr>)
         | (SaveError e, fs) \<Rightarrow> (Some (''err:'' @ e), c\<lparr>co_files := fs\<rparr>)
         | (Saved, fs) \<Rightarrow> (Some (''saved;digest='' @ dig), c\<lparr>co_files := fs\<rparr>))"

definition handle_query :: "byte list \<Rightarrow> Coordinator \<Rightarrow> string option \<times> Coordinator" where
  "handle_query payload c =
     (if 8 \<le> length payload then
        let (i, r) = read_u64 (new_reader payload); sid = ScalarIdentifier i
        in case find_record (co_store c) sid of
             None \<Rightarrow> (Some ''absent'', c)
           | Some d \<Rightarrow>
               (Some (in_buffer 256 (''present;kind='' @ name_of_SubjectKind (subject_kind d)
                  @ '';validity='' @ name_of_ValidityState (validity_of (co_store c) sid)
                  @ '';derivation_digest='' @ derivation_digest d
                  @ '';prov_gen='' @ to_string (provenance_generation d)
                  @ '';state_gen='' @ to_string (state_generation d)
                  @ '';model_gen='' @ to_string (model_generation d)
                  @ '';evidence='' @ name_of_EvidenceClass (evidence d)
                  @ '';size='' @ dec_string (store_size (co_store c)))), c)
      else (Some ''err:bad query'', c))"

definition handle_stats :: "Coordinator \<Rightarrow> string option \<times> Coordinator" where
  "handle_stats c =
     (Some (in_buffer 128 (''accepted='' @ signed_text (co_accepted c)
        @ '';rejected='' @ signed_text (co_rejected c)
        @ '';epoch='' @ unsigned_text (store_epoch (co_store c))
        @ '';prov_gen='' @ to_string (as_provenance_generation (store_authority (co_store c)))
        @ '';size='' @ dec_string (store_size (co_store c)))), c)"

definition handle_request :: "IoFaults \<Rightarrow> byte \<Rightarrow> byte list \<Rightarrow> Coordinator \<Rightarrow> string option \<times> Coordinator" where
  "handle_request io op payload c =
     (if op = Op_val Op_Hello then handle_hello payload c
      else if op = Op_val Op_Publish \<or> op = Op_val Op_PublishStale then handle_publish payload c
      else if op = Op_val Op_RollEpoch then handle_roll_epoch c
      else if op = Op_val Op_SetAuthority then handle_set_authority payload c
      else if op = Op_val Op_Save then handle_save io payload c
      else if op = Op_val Op_Query then handle_query payload c
      else if op = Op_val Op_Stats then handle_stats c
      else if op = Op_val Op_Shutdown then (Some ''bye'', c\<lparr>co_stopping := True\<rparr>)
      else (Some ''err:unknown op'', c))"

section \<open>Connections\<close>

text \<open>How the loop of one connection ends: the socket closed or the server stopping, the return
  after a shutdown request, or an exception.\<close>

datatype conn_end = Conn_closed | Conn_returned | Conn_threw

text \<open>\<open>ios k\<close> is what the environment does to the \<open>k\<close>-th request's file operations.\<close>

partial_function (option) handle_connection ::
  "(nat \<Rightarrow> IoFaults) \<Rightarrow> nat \<Rightarrow> Socket \<Rightarrow> Coordinator \<Rightarrow> (conn_end \<times> Socket \<times> Coordinator) option" where
  "handle_connection ios k sock c =
     (if co_stopping c then Some (Conn_closed, sock, c)
      else case recv_frame sock_recv sock of
          (None, sock) \<Rightarrow> Some (Conn_closed, sock, c)
        | (Some (op, payload), sock) \<Rightarrow>
            (case handle_request (ios k) op payload c of
               (None, c) \<Rightarrow> Some (Conn_threw, sock, c)
             | (Some reply, c) \<Rightarrow>
                 let sock = snd (send_frame sock_send (Op_val Op_Respond) (bytes_of_string reply) sock)
                 in if op = Op_val Op_Shutdown then Some (Conn_returned, sock, c)
                    else handle_connection ios (Suc k) sock c))"

text \<open>\<^verbatim>\<open>main\<close> before it listens: an optional snapshot is loaded and restored.\<close>

datatype startup = Serving Coordinator | Startup_exit nat | Startup_threw

definition start_coordinator :: "string option \<Rightarrow> ReadFault \<Rightarrow> filesystem \<Rightarrow> startup option" where
  "start_coordinator snapshot_path fault fs =
     (let c = initial_coordinator fs
      in case snapshot_path of
           None \<Rightarrow> Some (Serving c)
         | Some path \<Rightarrow>
             (case lr_snapshot (load_file path fault fs) of
                None \<Rightarrow> Some (Startup_exit 3)
              | Some sn \<Rightarrow>
                  (case restore sn (co_store c) of
                     None \<Rightarrow> None
                   | Some (Inl e, s) \<Rightarrow> Some Startup_threw
                   | Some (Inr u, s) \<Rightarrow>
                       Some (Serving (c\<lparr>co_store := s, co_log := [''LOADED digest='' @ store_digest sn]\<rparr>)))))"

section \<open>The server\<close>

text \<open>
  All connections at once.  A connection first looks at the stop flag (\<open>False\<close> to \<open>True\<close>), then waits
  for a frame and handles it; a connection that is already waiting when another one stops the server
  still handles that one frame.
\<close>

record Server =
  sv_coord :: Coordinator
  sv_conns :: "nat \<Rightarrow> (bool \<times> Socket) option"

inductive server_step :: "Server \<Rightarrow> Server \<Rightarrow> bool" where
  accept: "\<not> co_stopping (sv_coord s) \<Longrightarrow> sv_conns s k = None \<Longrightarrow>
    server_step s (s\<lparr>sv_conns := (sv_conns s)(k := Some (False, sock))\<rparr>)"
| wait: "sv_conns s k = Some (False, sock) \<Longrightarrow> \<not> co_stopping (sv_coord s) \<Longrightarrow>
    server_step s (s\<lparr>sv_conns := (sv_conns s)(k := Some (True, sock))\<rparr>)"
| stop: "sv_conns s k = Some (False, sock) \<Longrightarrow> co_stopping (sv_coord s) \<Longrightarrow>
    server_step s (s\<lparr>sv_conns := (sv_conns s)(k := None)\<rparr>)"
| hangup: "sv_conns s k = Some (True, sock) \<Longrightarrow> recv_frame sock_recv sock = (None, sock') \<Longrightarrow>
    server_step s (s\<lparr>sv_conns := (sv_conns s)(k := None)\<rparr>)"
| request: "sv_conns s k = Some (True, sock) \<Longrightarrow>
    recv_frame sock_recv sock = (Some (op, payload), sock1) \<Longrightarrow>
    handle_request io op payload (sv_coord s) = (Some reply, c') \<Longrightarrow>
    send_frame sock_send (Op_val Op_Respond) (bytes_of_string reply) sock1 = (ok, sock2) \<Longrightarrow>
    server_step s (s\<lparr>sv_coord := c',
      sv_conns := (sv_conns s)(k := if op = Op_val Op_Shutdown then None else Some (False, sock2))\<rparr>)"

inductive_cases server_stepE: "server_step s s'"

section \<open>What a request does to the store\<close>

lemma when_set_steps: "(\<And>s. store_step s (f s)) \<Longrightarrow> store_step\<^sup>*\<^sup>* s t \<Longrightarrow> store_step\<^sup>*\<^sup>* s (when_set v f t)"
  by (auto simp: when_set_def intro: rtranclp.rtrancl_into_rtrancl)

lemma if_steps: "(\<And>s. store_step s (f s)) \<Longrightarrow> store_step\<^sup>*\<^sup>* s t \<Longrightarrow> store_step\<^sup>*\<^sup>* s (if P then f t else t)"
  by (auto intro: rtranclp.rtrancl_into_rtrancl)

lemma set_authority_steps: "store_step\<^sup>*\<^sup>* st (set_authority text st)"
  unfolding set_authority_def Let_def
  by (rule when_set_steps, rule store_step.policy_generation, rule if_steps, rule store_step.begin_attempt,
      rule when_set_steps, rule store_step.model_generation, rule when_set_steps, rule store_step.dependency_generation,
      rule when_set_steps, rule store_step.provenance_generation, rule when_set_steps,
      rule store_step.state_generation) (rule rtranclp.rtrancl_refl)

lemma handle_request_steps:
  "store_step\<^sup>*\<^sup>* (co_store c) (co_store (snd (handle_request io op payload c)))"
proof -
  have "store_step\<^sup>*\<^sup>* (co_store c) (co_store (snd (handle_hello payload c)))"
    by (auto simp: handle_hello_def Let_def split: prod.split intro: store_step.register_boot)
  moreover have "store_step\<^sup>*\<^sup>* (co_store c) (co_store (snd (handle_publish payload c)))"
    by (auto simp: handle_publish_def split: option.split prod.split sum.split intro: store_step.publish_fenced)
  moreover have "store_step\<^sup>*\<^sup>* (co_store c) (co_store (snd (handle_roll_epoch c)))"
    using store_step.roll_epoch [of "co_store c"] by (auto simp: handle_roll_epoch_def split: prod.split)
  moreover have "co_store (snd (handle_save io payload c)) = co_store c"
    by (simp add: handle_save_def Let_def split: prod.split save_result.split)
  moreover have "co_store (snd (handle_query payload c)) = co_store c"
    by (simp add: handle_query_def Let_def split: prod.split option.split)
  ultimately show ?thesis
    using set_authority_steps by (simp add: handle_request_def handle_stats_def handle_set_authority_def)
qed

text \<open>Authority operations keep the records; so does everything but a publication.\<close>

lemma when_set_records:
  "(\<And>s. st_records (f s) = st_records s) \<Longrightarrow> st_records (when_set v f s) = st_records s"
  by (simp add: when_set_def)

lemma set_authority_records: "st_records (set_authority text st) = st_records st"
  by (simp add: set_authority_def Let_def when_set_def store_authority_defs)

definition is_publish :: "byte \<Rightarrow> bool" where
  "is_publish op \<longleftrightarrow> op = Op_val Op_Publish \<or> op = Op_val Op_PublishStale"

lemma other_requests:
  assumes "\<not> is_publish op" "handle_request io op payload c = (r, c')"
  shows "st_records (co_store c') = st_records (co_store c)" "co_accepted c' = co_accepted c"
    "co_rejected c' = co_rejected c"
proof -
  have "st_records (co_store (snd (handle_request io op payload c))) = st_records (co_store c)
    \<and> co_accepted (snd (handle_request io op payload c)) = co_accepted c
    \<and> co_rejected (snd (handle_request io op payload c)) = co_rejected c"
    using assms(1)
    by (simp add: is_publish_def set_authority_records handle_set_authority_def handle_request_def handle_hello_def handle_roll_epoch_def handle_stats_def
        handle_save_def handle_query_def store_authority_defs Let_def split: prod.split save_result.split option.split)
  with assms(2) show "st_records (co_store c') = st_records (co_store c)" "co_accepted c' = co_accepted c"
    "co_rejected c' = co_rejected c" by simp_all
qed

lemma publish_request:
  assumes inv: "store_inv (co_store c)" and pub: "is_publish op"
    and r: "handle_request io op payload c = (r, c')"
  shows "(\<exists>d claim. decode_publish_payload payload = Some (d, claim)
      \<and> accepted (evaluate_claim (st_authority (co_store c)) claim)
      \<and> record_ok d \<and> insertable d (co_store c) \<and> r = Some ''ok''
      \<and> st_records (co_store c') = Mapping.update (subject_id d) d (st_records (co_store c))
      \<and> co_accepted c' = co_accepted c + 1 \<and> co_rejected c' = co_rejected c)
    \<or> ((\<exists>msg. r = Some (''err:'' @ msg)) \<and> co_store c' = co_store c
      \<and> co_accepted c' = co_accepted c \<and> co_rejected c' = co_rejected c + 1)"
proof -
  have h: "handle_publish payload c = (r, c')"
    using pub r by (auto simp: is_publish_def handle_request_def)
  show ?thesis
  proof (cases "decode_publish_payload payload")
    case None
    with h show ?thesis by (auto simp: handle_publish_def)
  next
    case (Some p)
    obtain d claim where p: "p = (d, claim)" by (rule prod.exhaust)
    let ?s = "co_store c" and ?ok = "accepted (evaluate_claim (st_authority (co_store c)) claim)"
    show ?thesis
    proof (cases "record_ok d \<and> \<not> ?ok")
      case True
      with h Some p show ?thesis by (auto simp: handle_publish_def publish_fenced_alt failure_def)
    next
      case False
      then have f: "publish_fenced d claim ?s = publish_validated d ?s" by (auto simp: publish_fenced_alt)
      from publish_validated_cases [OF inv, of d] show ?thesis
      proof (elim disjE exE conjE)
        fix msg assume "publish_validated d ?s = (Inr (failure msg), ?s)"
        with h Some p f show ?thesis by (auto simp: handle_publish_def failure_def)
      next
        fix g' assume "publish_validated d ?s = (Inr \<lparr>po_ok = True, po_error = [], po_record = Some d\<rparr>,
            store_record d (?s\<lparr>st_graph := g'\<rparr>))" "record_ok d" "insertable d ?s"
        with h Some p f False show ?thesis
          by (auto simp: handle_publish_def store_record_def Let_def index_insert_def)
      qed
    qed
  qed
qed

lemma decode_publish_ok: "decode_publish_payload payload = Some (d, claim) \<Longrightarrow> record_ok d"
  by (auto simp: decode_publish_payload_def Let_def dest: read_record_ok split: if_splits prod.splits sum.splits)

lemma request_inv: "store_inv (co_store c) \<Longrightarrow> handle_request io op payload c = (r, c') \<Longrightarrow> store_inv (co_store c')"
proof -
  assume inv: "store_inv (co_store c)" and r: "handle_request io op payload c = (r, c')"
  have "store_step\<^sup>*\<^sup>* (co_store c) (co_store c')" using handle_request_steps [of c io op payload] r by simp
  then show "store_inv (co_store c')" using inv
    by (induction rule: rtranclp_induct) (auto intro: store_step_inv)
qed

text \<open>The accepted counter and the number of records move together.\<close>

lemma request_count:
  assumes inv: "store_inv (co_store c)" and r: "handle_request io op payload c = (r, c')"
  shows "co_accepted c' - of_nat (store_size (co_store c')) = co_accepted c - of_nat (store_size (co_store c))"
proof (cases "is_publish op")
  case False
  from other_requests [OF this r] show ?thesis by (simp add: store_size_def)
next
  case True
  from publish_request [OF inv this r] show ?thesis
  proof (elim disjE exE conjE)
    fix d claim
    assume ins: "insertable d (co_store c)"
      and upd: "st_records (co_store c') = Mapping.update (subject_id d) d (st_records (co_store c))"
      and acc: "co_accepted c' = co_accepted c + 1"
    have "store_size (co_store c') = Suc (store_size (co_store c))"
      using ins by (simp add: store_size_def upd insertable_def)
    then show ?thesis by (simp add: acc)
  qed simp
qed

lemma count_trans:
  fixes a :: i64
  assumes "a - b = n - m" "a' - n' = a - n"
  shows "a' - b = n' - m"
proof -
  have "a' = a - n + n'" using assms(2) by (simp add: diff_eq_eq)
  moreover have "a = n - m + b" using assms(1) by (simp add: diff_eq_eq)
  ultimately show ?thesis by simp
qed

section \<open>Termination of a connection\<close>

lemma send_frame_keeps_in:
  "so_in (snd (send_frame sock_send op payload s)) = so_in s"
proof -
  have one: "so_in (snd (sock_send bs s)) = so_in s" for bs s
    by (simp add: sock_send_def split: list.split)
  have all: "so_in (snd (send_all sock_send bs s)) = so_in s" for bs s
  proof (induction bs arbitrary: s rule: length_induct)
    case (1 bs)
    obtain k s1 where k: "sock_send bs s = (k, s1)" by (rule prod.exhaust)
    have s1: "so_in s1 = so_in s" using one [of bs s] k by simp
    show ?case
    proof (cases "bs = [] \<or> k = 0")
      case True
      with k s1 show ?thesis by (auto simp: send_all.simps [of sock_send bs])
    next
      case False
      then have "length (drop k bs) < length bs" by auto
      with 1 have "so_in (snd (send_all sock_send (drop k bs) s1)) = so_in s1" by blast
      with False k s1 show ?thesis by (simp add: send_all.simps [of sock_send bs])
    qed
  qed
  obtain ok1 s1 where r1: "send_all sock_send (bytes_u32 (frame_length payload)) s = (ok1, s1)" by (rule prod.exhaust)
  obtain ok2 s2 where r2: "send_all sock_send [op] s1 = (ok2, s2)" by (rule prod.exhaust)
  have "so_in s1 = so_in s" "so_in s2 = so_in s1"
    using all [of "bytes_u32 (frame_length payload)" s] all [of "[op]" s1] r1 r2 by simp_all
  then show ?thesis using all [of payload s2]
    by (simp add: send_frame_def Let_def r1 r2 split: bool.split)
qed

lemma recv_frame_progress:
  assumes "recv_frame sock_recv s = (Some f, s')"
  shows "length (so_pending s') < length (so_pending s)"
proof -
  note parsed = segments.recv_frame_parse [OF assms]
  then have "4 \<le> length (so_pending s)" by (auto simp: parse_frame_def Let_def split: if_splits)
  with parsed show ?thesis by simp
qed

lemma connection_returns: "\<exists>out. handle_connection ios k sock c = Some out"
proof (induction "length (so_pending sock)" arbitrary: k sock c rule: less_induct)
  case less
  show ?case
  proof (cases "co_stopping c")
    case True
    then show ?thesis by (simp add: handle_connection.simps [of ios k sock c])
  next
    case False
    obtain got sock1 where r: "recv_frame sock_recv sock = (got, sock1)" by (rule prod.exhaust)
    show ?thesis
    proof (cases got)
      case None
      with False r show ?thesis by (simp add: handle_connection.simps [of ios k sock c])
    next
      case (Some f)
      obtain op payload where f: "f = (op, payload)" by (rule prod.exhaust)
      obtain rep c1 where h: "handle_request (ios k) op payload c = (rep, c1)" by (rule prod.exhaust)
      show ?thesis
      proof (cases rep)
        case None
        with False r Some f h show ?thesis by (simp add: handle_connection.simps [of ios k sock c])
      next
        case (Some reply)
        let ?s = "snd (send_frame sock_send (Op_val Op_Respond) (bytes_of_string reply) sock1)"
        have "so_pending ?s = so_pending sock1" by (simp add: so_pending_def send_frame_keeps_in)
        then have "length (so_pending ?s) < length (so_pending sock)"
          using recv_frame_progress [of sock f sock1] r \<open>got = Some f\<close> by simp
        from less [OF this, of "Suc k" c1] obtain out where "handle_connection ios (Suc k) ?s c1 = Some out" by blast
        with False r \<open>got = Some f\<close> f h Some show ?thesis
          by (cases "op = Op_val Op_Shutdown"; cases out) (simp_all add: handle_connection.simps [of ios k sock c])
      qed
    qed
  qed
qed

section \<open>Saving and restarting\<close>

text \<open>The bounds of the format, as bounds on the store.\<close>

definition store_fits :: "ProvenanceStore \<Rightarrow> bool" where
  "store_fits s \<longleftrightarrow> store_size s \<le> kMaxRecords \<and> card (st_workers s) \<le> kMaxVecLen
     \<and> list_all record_fits (sn_records (store_snapshot s))
     \<and> snapshot_strings (store_snapshot s) \<subseteq> short_strings
     \<and> length (the (encode_snapshot (store_snapshot s))) \<le> kMaxPayloadLen"

lemma store_snapshot_fits:
  assumes inv: "store_inv s" and fits: "store_fits s"
  shows "snapshot_fits (store_snapshot s)"
proof -
  let ?rs = "sn_records (store_snapshot s)"
  note sn = snapshot_records [OF inv]
  have wf: "records_wf (st_records s) (prov_to_state s)" using inv by (simp add: store_inv_def)
  have ok: "list_all record_ok ?rs"
    unfolding list_all_iff using records_wfD(2) [OF wf] sn(1) by blast
  have inj: "inj_on provenance_id (set ?rs)"
  proof (rule inj_onI)
    fix r1 r2 assume "r1 \<in> set ?rs" "r2 \<in> set ?rs" "provenance_id r1 = provenance_id r2"
    then have "Mapping.lookup (prov_to_state s) (provenance_id r1) = Some (subject_id r1)"
      "Mapping.lookup (prov_to_state s) (provenance_id r1) = Some (subject_id r2)"
      "Mapping.lookup (st_records s) (subject_id r1) = Some r1"
      "Mapping.lookup (st_records s) (subject_id r2) = Some r2"
      unfolding sn(1) records_wfD(5) [OF wf] by auto
    then show "r1 = r2" by auto
  qed
  have len: "length ?rs = store_size s"
    unfolding store_size_def using sn(2,3)
    by (metis distinct_card length_map set_map)
  have "distinct ?rs" using sn(2) by (simp add: distinct_map)
  then have dist: "distinct (map provenance_id ?rs)" using inj by (simp add: distinct_map)
  have "Mapping.keys (sn_status (store_snapshot s)) = Mapping.keys (st_records s)"
    using inv by (simp add: store_snapshot_def store_inv_def)
  then have stat: "card (Mapping.keys (sn_status (store_snapshot s))) \<le> kMaxVecLen"
    using fits by (simp add: store_fits_def store_size_def kMaxRecords_def kMaxVecLen_def)
  have "Mapping.keys (as_boots (sn_authority (store_snapshot s))) \<subseteq> st_workers s"
    by (auto simp: store_snapshot_def lookup_Some_iff lookup_snapshot_boots split: if_splits)
  then have "card (Mapping.keys (as_boots (sn_authority (store_snapshot s)))) \<le> card (st_workers s)"
    by (rule card_mono [OF finite])
  with fits ok len dist stat show ?thesis
    by (auto simp: snapshot_fits_def store_fits_def list_all_iff)
qed

lemma load_saved_store:
  assumes "store_inv s" "store_fits s" "save_file (store_snapshot s) path io fs = (Saved, fs')"
  shows "lr_snapshot (load_file path No_fault fs') = Some (store_snapshot s)"
proof -
  obtain payload where p: "encode_snapshot (store_snapshot s) = Some payload" "fs' path = Some (file_bytes payload)"
    using assms(3) by (rule save_file_saved)
  with load_bytes_saved [OF p(1) store_snapshot_fits [OF assms(1,2)]] assms(2)
  show ?thesis by (simp add: load_file_def store_fits_def)
qed

section \<open>Properties\<close>

definition server_start :: "Coordinator \<Rightarrow> Server" where
  "server_start c = \<lparr>sv_coord = c, sv_conns = (\<lambda>k. None)\<rparr>"

lemma server_step_coord:
  assumes "server_step s s'"
  obtains "sv_coord s' = sv_coord s"
  | io op payload reply where "handle_request io op payload (sv_coord s) = (Some reply, sv_coord s')"
  using assms by (cases rule: server_step.cases) auto

definition demo_coordinator :: Coordinator where
  "demo_coordinator = (initial_coordinator (\<lambda>p. None))\<lparr>co_store := two_store\<rparr>"



text \<open>
  C12: only a fenced publication changes the records.  On a consistent store a request either
  leaves the records and the accepted counter alone, or it is a publication whose claim the current
  authority accepts, and then exactly its record is added, the reply is \<open>ok\<close> and the counter goes
  up by one.
\<close>

theorem only_fenced_publications:
  assumes "store_inv (co_store c)" "handle_request io op payload c = (r, c')"
  shows "(st_records (co_store c') = st_records (co_store c) \<and> co_accepted c' = co_accepted c)
    \<or> (is_publish op \<and> (\<exists>d claim. decode_publish_payload payload = Some (d, claim)
        \<and> accepted (evaluate_claim (st_authority (co_store c)) claim)
        \<and> record_ok d \<and> insertable d (co_store c) \<and> r = Some ''ok''
        \<and> st_records (co_store c') = Mapping.update (subject_id d) d (st_records (co_store c))
        \<and> co_accepted c' = co_accepted c + 1))"
proof (cases "is_publish op")
  case True
  from publish_request [OF assms(1) True assms(2)] True show ?thesis by auto
next
  case False
  from other_requests [OF this assms(2)] show ?thesis by simp
qed

theorem only_fenced_publications_witness:
  "st_records (co_store (snd (handle_request ok_io (Op_val Op_RollEpoch) [] demo_coordinator)))
    = st_records (co_store demo_coordinator)"
proof -
  have "store_inv (co_store demo_coordinator)" by (simp add: demo_coordinator_def two_store_inv)
  from only_fenced_publications [OF this, of ok_io "Op_val Op_RollEpoch" "[]"] show ?thesis
    by (cases "handle_request ok_io (Op_val Op_RollEpoch) [] demo_coordinator") (simp add: is_publish_def)
qed

text \<open>
  After the epoch is rolled a publication with the old epoch is refused: the reply names the
  stale coordinator epoch, the rejected counter goes up by one and nothing else changes.
\<close>

theorem rolled_epoch_refuses:
  assumes "handle_request io1 (Op_val Op_RollEpoch) p c = (r1, c1)"
    and "is_publish op" "decode_publish_payload payload = Some (d, claim)"
    and "claim_coordinator_epoch claim = store_epoch (co_store c)"
  shows "handle_request io2 op payload c1 =
    (Some (''err:stale authority [CoordinatorEpoch]: claim epoch '' @ unsigned_text (store_epoch (co_store c))
       @ '' != current epoch '' @ unsigned_text (store_epoch (co_store c1))),
     c1\<lparr>co_rejected := co_rejected c1 + 1\<rparr>)"
proof -
  have e: "store_epoch (co_store c1) = store_epoch (co_store c) + 1"
    using assms(1) by (auto simp: handle_request_def handle_roll_epoch_def store_epoch_def store_authority_defs
        Let_def split: prod.splits)
  then have ne: "claim_coordinator_epoch claim \<noteq> store_epoch (co_store c1)" using assms(4) by simp
  have "record_ok d" using assms(3) by (rule decode_publish_ok)
  moreover have "evaluate_claim (st_authority (co_store c1)) claim = reject ''CoordinatorEpoch''
      (''claim epoch '' @ dec_string (unat (claim_coordinator_epoch claim))
        @ '' != current epoch '' @ dec_string (unat (store_epoch (co_store c1))))"
    using ne by (simp add: evaluate_claim_def store_epoch_def)
  ultimately have "publish_fenced d claim (co_store c1) = (Inr (failure (''stale authority [CoordinatorEpoch]: claim epoch ''
      @ unsigned_text (store_epoch (co_store c)) @ '' != current epoch '' @ unsigned_text (store_epoch (co_store c1)))),
      co_store c1)"
    using assms(4) by (simp add: publish_fenced_alt accepted_def reject_def unsigned_text_def)
  then have "handle_publish payload c1 =
    (Some (''err:stale authority [CoordinatorEpoch]: claim epoch '' @ unsigned_text (store_epoch (co_store c))
       @ '' != current epoch '' @ unsigned_text (store_epoch (co_store c1))),
     c1\<lparr>co_rejected := co_rejected c1 + 1\<rparr>)"
    using assms(3) by (simp add: handle_publish_def failure_def)
  then show ?thesis using assms(2) by (auto simp: handle_request_def is_publish_def)
qed

theorem rolled_epoch_refuses_witness:
  "\<exists>payload c1. snd (handle_request ok_io (Op_val Op_RollEpoch) [] demo_coordinator) = c1
    \<and> snd (handle_request ok_io (Op_val Op_Publish) payload c1) = c1\<lparr>co_rejected := 1\<rparr>"
proof -
  let ?c = "empty_claim\<lparr>claim_coordinator_epoch := store_epoch (co_store demo_coordinator)\<rparr>"
  let ?c1 = "snd (handle_request ok_io (Op_val Op_RollEpoch) [] demo_coordinator)"
  let ?d = "sample_record 3 13 []"
  have "write_record ?d \<noteq> None" unfolding write_record_defined
    by (simp add: record_strings_def short_strings_def sample_record_def empty_record_def)
  then obtain payload where p: "encode_publish_payload ?d ?c = Some payload"
    by (auto simp: encode_publish_payload_def)
  have "record_ok ?d" "record_fits ?d"
    by (simp_all add: record_ok_def record_fits_def sample_record_def empty_record_def)
  from decode_publish_encoded [OF p this, of "[]"]
  have d: "decode_publish_payload payload = Some (?d, wire_claim ?c)" by simp
  have "claim_coordinator_epoch (wire_claim ?c) = store_epoch (co_store demo_coordinator)"
    by (simp add: wire_claim_def)
  from rolled_epoch_refuses [where ?io1.0 = ok_io and p = "[]" and op = "Op_val Op_Publish" and ?io2.0 = ok_io,
      OF prod.collapse [symmetric] _ d this]
  have "snd (handle_request ok_io (Op_val Op_Publish) payload ?c1) = ?c1\<lparr>co_rejected := co_rejected ?c1 + 1\<rparr>"
    by (simp add: is_publish_def)
  moreover have "co_rejected ?c1 = 0"
    by (simp add: handle_request_def handle_roll_epoch_def demo_coordinator_def initial_coordinator_def Let_def
        split: prod.split)
  ultimately show ?thesis by auto
qed

text \<open>
  A connection always ends.  However many frames a client sends and whatever they hold, the
  loop of \<^verbatim>\<open>handle_connection\<close> returns once the stream does.
\<close>

theorem connection_terminates:
  "\<exists>result sock' c'. handle_connection ios k sock c = Some (result, sock', c')"
  using connection_returns [of ios k sock c] by (metis surj_pair)

text \<open>
  C21: a coordinator always answers.  On a consistent store whose strings are within the bound of
  the format, no request makes a handler throw.
\<close>

theorem requests_are_answered:
  assumes "store_inv (co_store c)" "snapshot_strings (store_snapshot (co_store c)) \<subseteq> short_strings"
  shows "\<exists>reply. fst (handle_request io op payload c) = Some reply"
proof -
  have pub: "\<exists>reply. fst (handle_publish payload c) = Some reply"
    using publish_request [OF assms(1), of "Op_val Op_Publish" io payload, OF _ prod.collapse [symmetric]]
    by (auto simp: is_publish_def handle_request_def)
  obtain bs where "encode_snapshot (store_snapshot (co_store c)) = Some bs"
    using encode_snapshot_defined [of "store_snapshot (co_store c)"] assms(2) by auto
  then have "fst (save_file (store_snapshot (co_store c)) path io fs) \<noteq> SaveThrew" for path fs
    by (simp add: save_file_def Let_def split: option.split)
  then have save: "\<exists>reply. fst (handle_save io payload c) = Some reply"
    by (auto simp: handle_save_def Let_def split: prod.split save_result.split) (metis fst_conv)
  show ?thesis using pub save
    by (auto simp: handle_request_def handle_hello_def handle_roll_epoch_def handle_set_authority_def
        handle_query_def handle_stats_def Let_def split: prod.split option.split)
qed

theorem requests_are_answered_witness:
  "\<exists>reply. fst (handle_request ok_io (Op_val Op_Save) (bytes_of_string ''x'') (initial_coordinator (\<lambda>p. None))) = Some reply"
proof (rule requests_are_answered)
  show "store_inv (co_store (initial_coordinator (\<lambda>p. None)))"
    by (simp add: initial_coordinator_def store_inv_empty)
  show "snapshot_strings (store_snapshot (co_store (initial_coordinator (\<lambda>p. None)))) \<subseteq> short_strings"
    by (simp add: initial_coordinator_def snapshot_strings_def store_snapshot_def empty_store_def)
qed


lemma two_store_snapshot:
  "sn_records (store_snapshot two_store) = [sample_record 1 11 [], sample_record 2 12 [ScalarIdentifier 1]]"
  "Mapping.ordered_entries (sn_status (store_snapshot two_store))
    = [(ScalarIdentifier 1, status_of_record (sample_record 1 11 [])),
       (ScalarIdentifier 2, status_of_record (sample_record 2 12 [ScalarIdentifier 1]))]"
  "Mapping.ordered_entries (as_boots (sn_authority (store_snapshot two_store))) = []"
  "store_epoch two_store = 1" "store_size two_store = 2" "st_workers two_store = {}"
  unfolding two_store_def one_store_def by code_simp+

lemma two_store_encoded: "\<exists>bs. encode_snapshot (store_snapshot two_store) = Some bs \<and> length bs < 2000"
  unfolding encode_snapshot_def write_authority_def two_store_snapshot
  by (simp add: put_list_def put_u32_def put_u64_def put_u8_def write_record_def put_str_def put_status_def
      sample_record_def empty_record_def status_of_record_def kMaxStringLen_def bytes_of_string_def)

lemma two_store_fits: "store_fits two_store"
proof -
  obtain bs where bs: "encode_snapshot (store_snapshot two_store) = Some bs" "length bs < 2000"
    using two_store_encoded by blast
  moreover from bs(1) have "snapshot_strings (store_snapshot two_store) \<subseteq> short_strings"
    using encode_snapshot_defined [of "store_snapshot two_store"] by simp
  moreover have "record_fits (sample_record i p ins)" if "length ins \<le> 2 ^ 26" for i p ins
    using that by (simp add: record_fits_def sample_record_def empty_record_def kMaxVecLen_def)
  ultimately show ?thesis
    by (simp add: store_fits_def two_store_snapshot kMaxRecords_def kMaxPayloadLen_def)
qed


end
