(* ===== verification/Worker.thy ===== *)
theory Worker
  imports Coordinator
begin

text \<open>
  \<^verbatim>\<open>worker.cpp\<close>: the process that registers with the coordinator, reads the authority from the
  reply and publishes one record under it.  The theory composes it with the coordinator's handlers.
\<close>

section \<open>Reading the reply\<close>

text \<open>
  \<^verbatim>\<open>parse\<close>: the loop over the \<^verbatim>\<open>key=value\<close> segments.  The length passed to the second \<^verbatim>\<open>substr\<close>
  is an unsigned difference; when the semicolon comes before the equals sign it wraps and the value
  is the whole rest.
\<close>

lemma find_char_bounds: "find_char c s pos = Some q \<Longrightarrow> pos \<le> q \<and> q < length s"
  by (auto simp: find_char_def find_Some_iff)

function kv_loop :: "string \<Rightarrow> nat \<Rightarrow> (string \<Rightarrow> string option) \<Rightarrow> (string \<Rightarrow> string option)" where
  "kv_loop s pos m =
     (if \<not> pos < length s then m
      else case find_char (CHR ''='') s pos of
          None \<Rightarrow> m
        | Some e \<Rightarrow>
            let sem = find_char (CHR '';'') s pos;
                stop = (case sem of None \<Rightarrow> length s | Some q \<Rightarrow> q);
                k = substr s pos (e - pos);
                v = (if stop < e + 1 then drop (e + 1) s else substr s (e + 1) (stop - e - 1));
                m = m(k := Some v)
            in case sem of None \<Rightarrow> m | Some q \<Rightarrow> kv_loop s (q + 1) m)"
  by pat_completeness auto
termination
  by (relation "measure (\<lambda>(s, pos, m). length s - pos)") (auto dest!: find_char_bounds [OF sym])

declare kv_loop.simps [simp del]

definition kv_parse :: "string \<Rightarrow> string \<Rightarrow> string option" where
  "kv_parse s = kv_loop s 0 (\<lambda>k. None)"

text \<open>\<^verbatim>\<open>auth[key]\<close> is the empty string for an absent key.\<close>

definition kv_text :: "(string \<Rightarrow> string option) \<Rightarrow> string \<Rightarrow> string" where
  "kv_text m key = (case m key of None \<Rightarrow> [] | Some v \<Rightarrow> v)"

definition kv_number :: "(string \<Rightarrow> string option) \<Rightarrow> string \<Rightarrow> u64" where
  "kv_number m key = hx (kv_text m key)"

section \<open>What the worker sends\<close>

definition worker_hello :: "WorkerId \<Rightarrow> WorkerBootId \<Rightarrow> byte list" where
  "worker_hello wid boot = bytes_u64 (get wid) @ bytes_u64 (get boot)"

definition or_one :: "u64 \<Rightarrow> u64" where
  "or_one v = (if v \<noteq> 0 then v else 1)"

definition worker_record ::
  "(string \<Rightarrow> string option) \<Rightarrow> WorkerId \<Rightarrow> WorkerBootId \<Rightarrow> string \<Rightarrow> StateId \<Rightarrow> StateId \<Rightarrow> RecordData" where
  "worker_record auth wid boot mode sid inp = empty_record\<lparr>
     provenance_id := ScalarIdentifier (get sid),
     provenance_generation := ScalarIdentifier (or_one (kv_number auth ''prov_gen'')),
     subject_id := sid,
     subject_kind := if mode = ''produce_child'' then SK_TensorState else SK_KVState,
     state_generation := ScalarIdentifier (or_one (kv_number auth ''state_gen'')),
     producer_id := ScalarIdentifier (0x7000000000000000 OR get wid),
     producer_generation := ScalarIdentifier 1,
     execution_id := ScalarIdentifier (0x8000000000000000 OR get sid),
     attempt_id := ScalarIdentifier (or_one (kv_number auth ''attempt'')),
     attempt_generation := ScalarIdentifier (or_one (kv_number auth ''attempt_gen'')),
     model_id := ScalarIdentifier 0x9000000000000000,
     model_generation := ScalarIdentifier (or_one (kv_number auth ''model_gen'')),
     architecture := ''sm_120'', compute_capability := ''12.0'',
     evidence := EV_MEASURED, validity := VS_VALID,
     coordinator_epoch := kv_number auth ''epoch'',
     worker_id := wid, worker_boot := boot,
     input_states := if mode = ''produce_child'' \<and> valid inp then [inp] else [],
     content_digest := ''sha256:mock:'' @ to_string sid\<rparr>"

definition worker_claim :: "(string \<Rightarrow> string option) \<Rightarrow> WorkerId \<Rightarrow> WorkerBootId \<Rightarrow> AuthorityClaim" where
  "worker_claim auth wid boot = empty_claim\<lparr>
     claim_worker_id := wid, claim_worker_boot := boot,
     claim_attempt_id := ScalarIdentifier (or_one (kv_number auth ''attempt'')),
     claim_attempt_generation := ScalarIdentifier (or_one (kv_number auth ''attempt_gen'')),
     claim_state_generation := ScalarIdentifier (or_one (kv_number auth ''state_gen'')),
     claim_provenance_generation := ScalarIdentifier (or_one (kv_number auth ''prov_gen'')),
     claim_coordinator_epoch := kv_number auth ''epoch'',
     claim_dependency_generation := Some (ScalarIdentifier (kv_number auth ''dep_gen''))\<rparr>"

definition worker_publish_payload ::
  "(string \<Rightarrow> string option) \<Rightarrow> WorkerId \<Rightarrow> WorkerBootId \<Rightarrow> string \<Rightarrow> StateId \<Rightarrow> StateId \<Rightarrow> byte list option" where
  "worker_publish_payload auth wid boot mode sid inp =
     encode_publish_payload (worker_record auth wid boot mode sid inp) (worker_claim auth wid boot)"

text \<open>\<^verbatim>\<open>while (recv_frame(conn, rop, rsp)) {}\<close>.\<close>

function drain :: "Socket \<Rightarrow> Socket" where
  "drain s = (case recv_frame sock_recv s of (None, s') \<Rightarrow> s' | (Some f, s') \<Rightarrow> drain s')"
  by pat_completeness auto
termination
  by (relation "measure (\<lambda>s. length (so_pending s))") (auto intro: recv_frame_progress [OF sym])

declare drain.simps [simp del]

text \<open>
  \<^verbatim>\<open>main\<close> after the program name, on the answer of \<^verbatim>\<open>init\<close> and the socket the connection attempt
  gave: the exit code (\<open>None\<close>: an exception), the printed lines and the socket at the end.
\<close>

definition worker_main ::
  "bool \<Rightarrow> string list \<Rightarrow> Socket option \<Rightarrow> nat option \<times> string list \<times> Socket option" where
  "worker_main ready args conn =
     (if length args < 5 then (Some 2, [], conn)
      else if \<not> ready then (Some 1, [], conn)
      else
        let wid = ScalarIdentifier (hx (args ! 1)); boot = ScalarIdentifier (hx (args ! 2));
            mode = args ! 3; sid = ScalarIdentifier (hx (args ! 4));
            inp = (if 6 \<le> length args then ScalarIdentifier (hx (args ! 5)) else null_id)
        in case conn of
             None \<Rightarrow> (Some 3, [], None)
           | Some sock \<Rightarrow>
               (case send_frame sock_send (Op_val Op_Hello) (worker_hello wid boot) sock of
                  (False, sock) \<Rightarrow> (Some 4, [], Some sock)
                | (True, sock) \<Rightarrow>
                    (case recv_frame sock_recv sock of
                       (None, sock) \<Rightarrow> (Some 4, [], Some sock)
                     | (Some (op, resp), sock) \<Rightarrow>
                         let auth = kv_parse (string_of_bytes resp)
                         in if mode = ''produce_root'' \<or> mode = ''produce_child'' then
                              (case worker_publish_payload auth wid boot mode sid inp of
                                 None \<Rightarrow> (None, [], Some sock)
                               | Some payload \<Rightarrow>
                                   (case send_frame sock_send (Op_val Op_Publish) payload sock of
                                      (False, sock) \<Rightarrow> (Some 5, [], Some sock)
                                    | (True, sock) \<Rightarrow>
                                        (case recv_frame sock_recv sock of
                                           (None, sock) \<Rightarrow> (Some 5, [], Some sock)
                                         | (Some (op, resp), sock) \<Rightarrow>
                                             (Some 0, [''WORKER_PUBLISH '' @ to_string sid @ '' ''
                                               @ string_of_bytes resp], Some (drain sock)))))
                            else (Some 0, [''WORKER_REGISTER '' @ to_string boot], Some (drain sock)))))"

section \<open>Reading key-value text\<close>

lemma find_char_here:
  assumes "c \<notin> set a"
  shows "find_char c (pre @ a @ c # r) (length pre) = Some (length pre + length a)"
proof -
  let ?xs = "[length pre..<length (pre @ a @ c # r)]" and ?s = "pre @ a @ c # r"
  have "find (\<lambda>i. ?s ! i = c) ?xs = Some (length pre + length a)"
    unfolding find_Some_iff
    by (rule exI [of _ "length a"]) (use assms in \<open>auto simp: nth_append\<close>)
  then show ?thesis by (simp add: find_char_def)
qed

lemma find_char_none: "c \<notin> set a \<Longrightarrow> find_char c (pre @ a) (length pre) = None"
  by (auto simp: find_char_def find_None_iff nth_append in_set_conv_nth)

fun joined :: "(string \<times> string) list \<Rightarrow> string" where
  "joined [] = []"
| "joined [(k, v)] = k @ ''='' @ v"
| "joined ((k, v) # kv # kvs) = k @ ''='' @ v @ '';'' @ joined (kv # kvs)"

definition plain_kv :: "(string \<times> string) list \<Rightarrow> bool" where
  "plain_kv kvs \<longleftrightarrow> list_all (\<lambda>(k, v). set (k @ v) \<inter> {CHR ''='', CHR '';''} = {}) kvs"

lemma kv_loop_joined:
  assumes "plain_kv kvs"
  shows "kv_loop (pre @ joined kvs) (length pre) m = (\<lambda>k. case map_of (rev kvs) k of None \<Rightarrow> m k | Some v \<Rightarrow> Some v)"
  using assms
proof (induction kvs arbitrary: pre m rule: joined.induct)
  case 1
  then show ?case by (simp add: kv_loop.simps)
next
  case (2 k v)
  then have plain: "CHR ''='' \<notin> set k" "CHR '';'' \<notin> set (k @ ''='' @ v)"
    by (auto simp: plain_kv_def)
  let ?s = "pre @ k @ CHR ''='' # v"
  have e: "find_char (CHR ''='') ?s (length pre) = Some (length pre + length k)"
    using find_char_here [OF plain(1), of pre v] .
  have q: "find_char (CHR '';'') ?s (length pre) = None"
    using find_char_none [OF plain(2), of pre] by simp
  show ?case
    by (rule ext) (simp add: kv_loop.simps [of ?s] e q substr_def Let_def)
next
  case (3 k v kv kvs)
  then have plain: "CHR ''='' \<notin> set k" "CHR '';'' \<notin> set (k @ ''='' @ v)" "plain_kv (kv # kvs)"
    by (auto simp: plain_kv_def)
  let ?t = "joined (kv # kvs)"
  let ?s = "pre @ k @ CHR ''='' # v @ CHR '';'' # ?t"
  have e: "find_char (CHR ''='') ?s (length pre) = Some (length pre + length k)"
    using find_char_here [OF plain(1), of pre "v @ CHR '';'' # ?t"] .
  have q: "find_char (CHR '';'') ?s (length pre) = Some (length pre + length k + length v + 1)"
    using find_char_here [OF plain(2), of pre ?t] by simp
  have "kv_loop ?s (length pre) m = kv_loop ?s (length pre + length k + length v + 2) (m(k := Some v))"
    by (simp add: kv_loop.simps [of ?s "length pre"] e q substr_def Let_def)
  also have "\<dots> = (\<lambda>j. case map_of (rev (kv # kvs)) j of None \<Rightarrow> (m(k := Some v)) j | Some v \<Rightarrow> Some v)"
    using "3.IH" [OF plain(3), of "pre @ k @ CHR ''='' # v @ [CHR '';'']" "m(k := Some v)"]
    by (simp add: ac_simps fun_upd_def)
  finally show ?case
    by (auto simp: fun_eq_iff map_add_def split: option.split)
qed

lemma kv_parse_joined: "plain_kv kvs \<Longrightarrow> kv_parse (joined kvs) = map_of (rev kvs)"
  using kv_loop_joined [of kvs "[]" "\<lambda>k. None"] by (simp add: kv_parse_def fun_eq_iff split: option.split)

section \<open>The authority summary\<close>

definition authority_pairs :: "ProvenanceStore \<Rightarrow> (string \<times> string) list" where
  "authority_pairs s = (let a = st_authority s in
     [(''epoch'', unsigned_text (a_epoch a)),
      (''attempt'', to_string (a_attempt_id a)),
      (''attempt_gen'', to_string (a_attempt_generation a)),
      (''state_gen'', to_string (a_state_generation a)),
      (''prov_gen'', to_string (a_provenance_generation a)),
      (''dep_gen'', to_string (a_dependency_generation a)),
      (''model_gen'', to_string (a_model_generation a)),
      (''adapter_gen'', to_string (a_adapter_generation a)),
      (''policy_gen'', to_string (a_policy_generation a))])"

lemma digits_plain: "list_all (\<lambda>c. \<exists>d<16. c = hex_digit d) s \<Longrightarrow> CHR ''='' \<notin> set s \<and> CHR '';'' \<notin> set s"
  unfolding list_all_iff using hex_digit_plain(6,7) by metis

lemma printed_plain:
  "CHR ''='' \<notin> set (dec_string n)" "CHR '';'' \<notin> set (dec_string n)"
  "CHR ''='' \<notin> set (to_string i)" "CHR '';'' \<notin> set (to_string i)"
  using digits_plain [OF dec_string_is_digits] digits_plain [OF hex_fixed_value [THEN conjunct2]]
  by (auto simp: to_string_def)

lemma authority_pairs_plain: "plain_kv (authority_pairs s)"
  by (simp add: plain_kv_def authority_pairs_def Let_def unsigned_text_def printed_plain)

text \<open>The summary fits its buffer when the epoch has at most 17 digits.\<close>

lemma authority_summary_joined:
  assumes "unat (a_epoch (st_authority s)) < 10 ^ 17"
  shows "authority_summary s = joined (authority_pairs s)"
proof -
  have "length (unsigned_text (a_epoch (st_authority s))) \<le> 17"
    using length_dec_string [of _ 16] assms by (simp add: unsigned_text_def)
  then have "length (joined (authority_pairs s)) \<le> 255"
    by (simp add: authority_pairs_def Let_def)
  moreover have "authority_summary s = in_buffer 256 (joined (authority_pairs s))"
    by (simp add: authority_summary_def authority_pairs_def Let_def store_authority_def)
  ultimately show ?thesis by (simp add: in_buffer_def)
qed

lemma hx_printed: "hx (to_string i) = get i" "hx (dec_string n) = strtoull16 (dec_string n)"
  by (simp_all add: hx_def strtoull16_to_string to_string_def [symmetric]) (simp add: to_string_def)

lemma summary_numbers:
  assumes "unat (a_epoch (st_authority s)) < 10 ^ 17"
  defines "auth \<equiv> kv_parse (authority_summary s)" and "a \<equiv> st_authority s"
  shows "kv_number auth ''epoch'' = strtoull16 (dec_string (unat (a_epoch a)))"
    and "kv_number auth ''attempt'' = get (a_attempt_id a)"
    and "kv_number auth ''attempt_gen'' = get (a_attempt_generation a)"
    and "kv_number auth ''state_gen'' = get (a_state_generation a)"
    and "kv_number auth ''prov_gen'' = get (a_provenance_generation a)"
    and "kv_number auth ''dep_gen'' = get (a_dependency_generation a)"
    and "kv_number auth ''model_gen'' = get (a_model_generation a)"
proof -
  have "auth = map_of (rev (authority_pairs s))"
    unfolding auth_def authority_summary_joined [OF assms(1)] by (rule kv_parse_joined [OF authority_pairs_plain])
  then have look: "kv_number auth k = hx (case map_of (rev (authority_pairs s)) k of None \<Rightarrow> [] | Some v \<Rightarrow> v)" for k
    by (simp add: kv_number_def kv_text_def)
  note here = look authority_pairs_def Let_def
  show "kv_number auth ''epoch'' = strtoull16 (dec_string (unat (a_epoch a)))"
    by (simp add: here a_def hx_printed unsigned_text_def)
  show "kv_number auth ''attempt'' = get (a_attempt_id a)" by (simp add: here a_def hx_printed)
  show "kv_number auth ''attempt_gen'' = get (a_attempt_generation a)" by (simp add: here a_def hx_printed)
  show "kv_number auth ''state_gen'' = get (a_state_generation a)" by (simp add: here a_def hx_printed)
  show "kv_number auth ''prov_gen'' = get (a_provenance_generation a)" by (simp add: here a_def hx_printed)
  show "kv_number auth ''dep_gen'' = get (a_dependency_generation a)" by (simp add: here a_def hx_printed)
  show "kv_number auth ''model_gen'' = get (a_model_generation a)" by (simp add: here a_def hx_printed)
qed

section \<open>Worker and coordinator together\<close>

lemma valid_or_one [simp]: "or_one v \<noteq> 0"
  by (simp add: or_one_def)

lemma or_not_zero: "a \<noteq> 0 \<Longrightarrow> a OR b \<noteq> (0 :: u64)"
  by (simp add: or_eq_0_iff)

lemma worker_record_ok:
  assumes "valid sid"
  shows "record_ok (worker_record auth wid boot mode sid inp)" "record_fits (worker_record auth wid boot mode sid inp)"
proof -
  have "get sid \<noteq> 0" using assms by (simp add: valid_def)
  then show "record_ok (worker_record auth wid boot mode sid inp)"
    using assms by (simp add: record_ok_def worker_record_def empty_record_def or_not_zero)
  show "record_fits (worker_record auth wid boot mode sid inp)"
    by (simp add: record_fits_def worker_record_def empty_record_def kMaxVecLen_def)
qed

lemma worker_record_length: "length (the (write_record (worker_record auth wid boot mode sid inp))) \<le> 1000"
  by (simp add: write_record_def worker_record_def empty_record_def put_list_def put_u32_def put_u64_def put_u8_def
      put_str_def bytes_u32_def bytes_u64_def kMaxStringLen_def)

lemma worker_payload_exists: "\<exists>payload. worker_publish_payload auth wid boot mode sid inp = Some payload"
proof -
  have "write_record (worker_record auth wid boot mode sid inp) \<noteq> None"
    unfolding write_record_defined
    by (simp add: record_strings_def worker_record_def empty_record_def short_strings_def kMaxStringLen_def)
  then show ?thesis by (auto simp: worker_publish_payload_def encode_publish_payload_def)
qed

text \<open>The claim the worker builds from the coordinator's own summary, judged by that coordinator.\<close>

lemma worker_claim_accepted:
  assumes "valid wid" "unat (a_epoch (st_authority s)) < 10 ^ 17"
    and "boot_of (st_authority s) wid = Some boot"
  shows "accepted (evaluate_claim (st_authority s)
      (wire_claim (worker_claim (kv_parse (authority_summary s)) wid boot)))
    \<longleftrightarrow> unat (a_epoch (st_authority s)) < 10"
proof -
  let ?a = "st_authority s" and ?auth = "kv_parse (authority_summary s)"
  note nums = summary_numbers [OF assms(2)]
  have epoch: "strtoull16 (dec_string (unat (a_epoch ?a))) = a_epoch ?a \<longleftrightarrow> unat (a_epoch ?a) < 10"
    using strtoull16_dec_string [of "unat (a_epoch ?a)"] unat_u64_less [of "a_epoch ?a"] assms(2) by simp
  have gen: "\<not> stale (ScalarIdentifier (or_one (get g))) g" for g :: "'t ScalarIdentifier"
    by (cases g) (auto simp: stale_def or_one_def valid_def)
  have dep: "\<not> stale_opt (wire_opt (Some (ScalarIdentifier (get g)))) g" for g :: "'t ScalarIdentifier"
    by (cases g) (auto simp: stale_opt_def wire_opt_def)
  have dep': "\<not> stale_opt (wire_opt (Some g)) g" for g :: "'t ScalarIdentifier"
    by (simp add: stale_opt_def wire_opt_def)
  have none: "\<not> stale_opt (wire_opt None) g" for g :: "'t ScalarIdentifier"
    by (simp add: stale_opt_def wire_opt_def)
  show ?thesis
    using assms(1,3) epoch
    by (simp add: evaluate_claim_def boot_check_def wire_claim_def worker_claim_def empty_claim_def nums gen dep dep' none
        reject_def accepted_def)
qed

section \<open>Properties\<close>

lemma hello_registers:
  assumes "handle_request io (Op_val Op_Hello) (worker_hello wid boot) c = (Some greeting, c1)"
  shows "greeting = authority_summary (store_register_boot wid boot (co_store c))"
    and "c1 = c\<lparr>co_store := store_register_boot wid boot (co_store c)\<rparr>"
proof -
  have r1: "read_u64 (new_reader (worker_hello wid boot)) = (get wid, advance 8 (new_reader (worker_hello wid boot)))"
    using u64_codec.get_put [of "get wid" _ "new_reader (worker_hello wid boot)"]
    by (simp add: read_u64_def worker_hello_def put_u64_def)
  have "rest_of (new_reader (worker_hello wid boot)) = bytes_u64 (get wid) @ bytes_u64 (get boot)"
    by (simp add: worker_hello_def)
  note adv = advance_good [OF _ this, simplified]
  have r2: "fst (read_u64 (advance 8 (new_reader (worker_hello wid boot)))) = get boot"
    using u64_codec.get_put [of "get boot" _ "advance 8 (new_reader (worker_hello wid boot))" "[]"] adv
    by (simp add: read_u64_def put_u64_def)
  have "length (worker_hello wid boot) = 16" by (simp add: worker_hello_def)
  with assms r1 r2 show "greeting = authority_summary (store_register_boot wid boot (co_store c))"
    "c1 = c\<lparr>co_store := store_register_boot wid boot (co_store c)\<rparr>"
    by (auto simp: handle_request_def handle_hello_def Let_def split: prod.splits)
qed


text \<open>A coordinator at a given epoch, and one hello and publication of a worker with it.\<close>

definition coordinator_at :: "u64 \<Rightarrow> Coordinator" where
  "coordinator_at e = (initial_coordinator (\<lambda>p. None))
     \<lparr>co_store := empty_store\<lparr>st_authority := initial_authority\<lparr>a_epoch := e\<rparr>\<rparr>\<rparr>"

lemma coordinator_at_facts:
  "store_inv (co_store (coordinator_at e))" "store_epoch (co_store (coordinator_at e)) = e"
  using store_inv_authority [OF store_inv_empty, of "initial_authority\<lparr>a_epoch := e\<rparr>"]
  by (simp_all add: coordinator_at_def store_epoch_def empty_store_def)

lemma worker_session:
  assumes "store_inv (co_store c)"
  obtains greeting c1 payload reply c2 where
    "handle_request ok_io (Op_val Op_Hello) (worker_hello wid boot) c = (Some greeting, c1)"
    "worker_publish_payload (kv_parse greeting) wid boot ''produce_root'' sid null_id = Some payload"
    "handle_request ok_io (Op_val Op_Publish) payload c1 = (Some reply, c2)"
proof -
  obtain greeting c1 where h: "handle_request ok_io (Op_val Op_Hello) (worker_hello wid boot) c = (Some greeting, c1)"
    by (simp add: handle_request_def handle_hello_def Let_def)
  obtain payload where p: "worker_publish_payload (kv_parse greeting) wid boot ''produce_root'' sid null_id = Some payload"
    using worker_payload_exists by blast
  obtain r c2 where r: "handle_request ok_io (Op_val Op_Publish) payload c1 = (r, c2)" by (rule prod.exhaust)
  have "is_publish (Op_val Op_Publish)" by (simp add: is_publish_def)
  from publish_request [OF request_inv [OF assms h] this r] obtain reply where "r = Some reply" by auto
  with h p r that show thesis by blast
qed


end
