(* ===== verification/Explain.thy ===== *)
theory Explain
  imports Store_Queries Text_Input
begin

text \<open>
  \<^verbatim>\<open>explain.hpp\<close>: the JSON and text forms of records, decisions, derivation paths,
  invalidation results and stores.  An output stream is the string written to it.
\<close>

section \<open>JSON\<close>

definition quote_char :: char where "quote_char = CHR 0x22"

definition backslash :: char where "backslash = CHR 0x5C"

definition newline :: string where "newline = [CHR 0x0A]"

definition escape_char :: "char \<Rightarrow> string" where
  "escape_char c =
     (if c = quote_char then [backslash, quote_char]
      else if c = backslash then [backslash, backslash]
      else if c = CHR 0x0A then [backslash, CHR ''n'']
      else if c = CHR 0x0D then [backslash, CHR ''r'']
      else if c = CHR 0x09 then [backslash, CHR ''t'']
      else if of_char c < (0x20 :: nat) then [backslash, CHR ''u''] @ hex_fixed 4 (of_char c)
      else [c])"

definition json_escape :: "string \<Rightarrow> string" where
  "json_escape s = concat (map escape_char s)"

definition quoted :: "string \<Rightarrow> string" where
  "quoted s = [quote_char] @ s @ [quote_char]"

definition text_member :: "string \<Rightarrow> string \<Rightarrow> string" where
  "text_member k v = quoted k @ '':'' @ quoted v @ '',''"

definition number_member :: "string \<Rightarrow> string \<Rightarrow> string" where
  "number_member k v = quoted k @ '':'' @ v @ '',''"

text \<open>The loops that print a comma before every element but the first.\<close>

fun comma_joined :: "string list \<Rightarrow> string" where
  "comma_joined [] = []"
| "comma_joined [x] = x"
| "comma_joined (x # xs) = x @ '','' @ comma_joined xs"

definition array_member :: "string \<Rightarrow> string list \<Rightarrow> string" where
  "array_member k vs = quoted k @ '':['' @ comma_joined vs @ ''],''"

definition dependency_json :: "Dependency \<Rightarrow> string" where
  "dependency_json dep =
     ''{'' @ text_member ''id'' (to_string (dep_id dep))
       @ text_member ''generation'' (to_string (dep_generation dep))
       @ text_member ''kind'' (json_escape (dep_kind dep))
       @ quoted ''revision'' @ '':'' @ quoted (json_escape (dep_revision dep)) @ ''}''"

definition requirement_json :: "CompatibilityRequirement \<Rightarrow> string" where
  "requirement_json req =
     ''{'' @ text_member ''dimension'' (name_of_CompatibilityDimension (req_dimension req))
       @ text_member ''value'' (json_escape (req_required_value req))
       @ quoted ''note'' @ '':'' @ quoted (json_escape (req_note req)) @ ''}''"

definition record_json :: "RecordData \<Rightarrow> string" where
  "record_json d =
     ''{'' @ concat
       [text_member ''provenance_id'' (to_string (provenance_id d)),
        text_member ''provenance_generation'' (to_string (provenance_generation d)),
        text_member ''subject_id'' (to_string (subject_id d)),
        text_member ''subject_kind'' (name_of_SubjectKind (subject_kind d)),
        text_member ''state_generation'' (to_string (state_generation d)),
        text_member ''producer_id'' (to_string (producer_id d)),
        text_member ''producer_generation'' (to_string (producer_generation d)),
        text_member ''execution_id'' (to_string (execution_id d)),
        text_member ''attempt_id'' (to_string (attempt_id d)),
        number_member ''created_at'' (signed_text (created_at d)),
        text_member ''model_id'' (to_string (model_id d)),
        text_member ''model_generation'' (to_string (model_generation d)),
        text_member ''model_revision'' (json_escape (model_revision d)),
        text_member ''tokenizer'' (json_escape (tokenizer d)),
        text_member ''adapter_id'' (to_string (adapter_id d)),
        text_member ''adapter_generation'' (to_string (adapter_generation d)),
        text_member ''adapter_revision'' (json_escape (adapter_revision d)),
        text_member ''composition_id'' (to_string (composition_id d)),
        text_member ''composition_generation'' (to_string (composition_generation d)),
        text_member ''composition_fingerprint'' (json_escape (composition_fingerprint d)),
        text_member ''runtime_id'' (to_string (runtime_id d)),
        text_member ''runtime_generation'' (to_string (runtime_generation d)),
        text_member ''artifact_generation'' (to_string (artifact_generation d)),
        text_member ''backend_id'' (to_string (backend_id d)),
        text_member ''toolchain_id'' (to_string (toolchain_id d)),
        text_member ''device_id'' (to_string (device_id d)),
        text_member ''architecture'' (json_escape (architecture d)),
        text_member ''compute_capability'' (json_escape (compute_capability d)),
        text_member ''abi'' (json_escape (abi d)),
        text_member ''dtype'' (json_escape (dtype d)),
        text_member ''layout'' (json_escape (layout d)),
        text_member ''shape'' (json_escape (shape d)),
        text_member ''content_digest'' (json_escape (content_digest d)),
        text_member ''policy_id'' (to_string (policy_id d)),
        text_member ''policy_generation'' (to_string (policy_generation d)),
        number_member ''coordinator_epoch'' (unsigned_text (coordinator_epoch d)),
        text_member ''worker_id'' (to_string (worker_id d)),
        text_member ''worker_boot'' (to_string (worker_boot d)),
        text_member ''evidence'' (name_of_EvidenceClass (evidence d)),
        text_member ''validity'' (name_of_ValidityState (validity d)),
        text_member ''invalidation_reason'' (name_of_InvalidationReason (invalidation_reason d)),
        text_member ''reuse_eligibility'' (name_of_ReuseEligibility (reuse_eligibility d)),
        array_member ''input_states'' (map (\<lambda>i. quoted (to_string i)) (input_states d)),
        array_member ''parent_provenance'' (map (\<lambda>i. quoted (to_string i)) (parent_provenance d)),
        array_member ''dependencies'' (map dependency_json (dependencies d)),
        array_member ''requirements'' (map requirement_json (requirements d))]
     @ quoted ''note'' @ '':'' @ quoted (json_escape (record_note d)) @ ''}''"

text \<open>\<^verbatim>\<open>store_json\<close>: the comma is printed for every index but 0 whose record is found.\<close>

definition store_json :: "ProvenanceStore \<Rightarrow> string" where
  "store_json s =
     (let ids = store_ids s
      in ''{'' @ quoted ''records'' @ '':[''
         @ concat (map (\<lambda>i. case find_record s (ids ! i) of
               None \<Rightarrow> []
             | Some d \<Rightarrow> (if i \<noteq> 0 then '','' else []) @ record_json d) [0..<length ids])
         @ ''],'' @ quoted ''size'' @ '':'' @ dec_string (store_size s) @ ''}'')"

section \<open>Text\<close>

definition single_quoted :: "string \<Rightarrow> string" where
  "single_quoted s = [CHR 0x27] @ s @ [CHR 0x27]"

definition shown_if :: "bool \<Rightarrow> string list \<Rightarrow> string" where
  "shown_if b parts = (if b then concat parts else [])"

definition record_text :: "RecordData \<Rightarrow> string" where
  "record_text d =
     ''State '' @ to_string (subject_id d) @ '' ('' @ name_of_SubjectKind (subject_kind d)
     @ '') [state generation '' @ to_string (state_generation d) @ '']''
     @ shown_if (valid (model_id d))
         [newline, ''  model: '', to_string (model_id d), '' gen '', to_string (model_generation d),
          '' revision '', single_quoted (model_revision d)]
     @ shown_if (valid (adapter_id d))
         [newline, ''  adapter: '', to_string (adapter_id d), '' gen '', to_string (adapter_generation d),
          '' revision '', single_quoted (adapter_revision d)]
     @ shown_if (valid (composition_id d))
         [newline, ''  composition: '', to_string (composition_id d),
          '' fp '', single_quoted (composition_fingerprint d)]
     @ shown_if (valid (runtime_id d))
         [newline, ''  runtime: '', to_string (runtime_id d), '' backend '', to_string (backend_id d),
          '' toolchain '', to_string (toolchain_id d)]
     @ shown_if (architecture d \<noteq> [] \<or> compute_capability d \<noteq> [])
         [newline, ''  device: '', to_string (device_id d), '' arch '', single_quoted (architecture d),
          '' cc '', single_quoted (compute_capability d)]
     @ shown_if (dtype d \<noteq> [])
         [newline, ''  tensor: dtype '', single_quoted (dtype d), '' layout '', single_quoted (layout d),
          '' shape '', single_quoted (shape d)]
     @ newline @ ''  producer: '' @ to_string (producer_id d) @ '' gen '' @ to_string (producer_generation d)
     @ '' execution '' @ to_string (execution_id d)
     @ shown_if (input_states d \<noteq> [])
         ([newline, ''  inputs:''] @ map (\<lambda>i. '' '' @ to_string i) (input_states d))
     @ shown_if (parent_provenance d \<noteq> [])
         ([newline, ''  parents:''] @ map (\<lambda>i. '' '' @ to_string i) (parent_provenance d))
     @ shown_if (dependencies d \<noteq> [])
         ([newline, ''  dependencies:'']
          @ map (\<lambda>dep. '' '' @ to_string (dep_id dep) @ ''('' @ dep_kind dep @ '')'') (dependencies d))
     @ shown_if (requirements d \<noteq> [])
         ([newline, ''  requirements:'']
          @ map (\<lambda>req. '' '' @ name_of_CompatibilityDimension (req_dimension req) @ ''=''
                 @ req_required_value req) (requirements d))
     @ newline @ ''  evidence: '' @ name_of_EvidenceClass (evidence d)
     @ '' validity: '' @ name_of_ValidityState (validity d)
     @ '' provenance_id '' @ to_string (provenance_id d) @ '' gen '' @ to_string (provenance_generation d)"

definition reuse_text :: "ReuseDecision \<Rightarrow> string" where
  "reuse_text d = summary d"

definition chain_text :: "ProvenanceStore \<Rightarrow> StateId \<Rightarrow> string" where
  "chain_text s i =
     (let ancestors = store_ancestors s i
      in ''Derivation path to '' @ to_string i @ '':''
         @ (if ancestors = [] then '' (root)''
            else concat (map (\<lambda>a. newline @ ''  <- '' @ to_string a) ancestors)))"

text \<open>
  \<^verbatim>\<open>invalidation_text\<close>: one line per affected subject.  \<open>None\<close> is the indeterminate reason of a
  chain whose target was not affected.
\<close>

definition chain_line :: "InvalidationResult \<Rightarrow> StateId \<Rightarrow> string option" where
  "chain_line r t =
     (let ch = chain_for r t
      in map_option (\<lambda>reason. newline @ ''  '' @ to_string (chain_root ch)
           @ concat (map (\<lambda>s. '' -> '' @ to_string s) (chain_path ch))
           @ '' ('' @ name_of_InvalidationReason reason @ '')'') (chain_reason ch))"

definition invalidation_text :: "InvalidationResult \<Rightarrow> string option" where
  "invalidation_text r =
     map_option (\<lambda>ls. ''Invalidated '' @ dec_string (length (affected r)) @ '' subject(s).''
         @ newline @ ''Causal chains:'' @ concat ls)
       (those (map (chain_line r) (affected r)))"

section \<open>Properties\<close>

lemma those_map: "(\<And>x. x \<in> set xs \<Longrightarrow> f x = Some (g x)) \<Longrightarrow> those (map f xs) = Some (map g xs)"
  by (induction xs) simp_all

text \<open>
  The text of an invalidation is defined for every result of a propagation and has one line for
  each affected subject, in ascending order.  The line of a subject prints the root of its chain
  and then a derivation path from that root to the subject; as the path starts with the root, the
  root stands there twice.
\<close>

theorem invalidation_text_lines:
  assumes "propagate_invalidation g subjects = Some res"
  shows "\<exists>line. invalidation_text res = Some (''Invalidated '' @ dec_string (length (affected res))
      @ '' subject(s).'' @ newline @ ''Causal chains:'' @ concat (map line (affected res)))
    \<and> (\<forall>t \<in> set (affected res). \<exists>path reason.
        (hd path, reason) \<in> (\<lambda>s. (inv_subject s, inv_reason s)) ` set subjects
        \<and> path \<noteq> [] \<and> last path = t \<and> successively (\<lambda>a b. (a, b) \<in> edges g) path
        \<and> line t = newline @ ''  '' @ to_string (hd path) @ concat (map (\<lambda>s. '' -> '' @ to_string s) path)
            @ '' ('' @ name_of_InvalidationReason reason @ '')'')"
proof -
  define line where "line t = the (chain_line res t)" for t
  have chain: "\<exists>path reason. (hd path, reason) \<in> (\<lambda>s. (inv_subject s, inv_reason s)) ` set subjects
        \<and> path \<noteq> [] \<and> last path = t \<and> successively (\<lambda>a b. (a, b) \<in> edges g) path
        \<and> chain_line res t = Some (newline @ ''  '' @ to_string (hd path)
            @ concat (map (\<lambda>s. '' -> '' @ to_string s) path) @ '' ('' @ name_of_InvalidationReason reason @ '')'')"
    if t: "t \<in> set (affected res)" for t
  proof -
    from chain_for_affected [OF assms t] obtain r path where c: "chain_root (chain_for res t) = r"
      "chain_path (chain_for res t) = path" "r \<in> root_set subjects" "path \<noteq> []" "hd path = r" "last path = t"
      "successively (\<lambda>a b. (a, b) \<in> edges g) path"
      "chain_reason (chain_for res t) = map_of (map (\<lambda>s. (inv_subject s, inv_reason s)) subjects) r"
      by blast
    have "r \<in> fst ` set (map (\<lambda>s. (inv_subject s, inv_reason s)) subjects)"
      using c(3) by (force simp: root_set_def)
    then obtain reason where m: "map_of (map (\<lambda>s. (inv_subject s, inv_reason s)) subjects) r = Some reason"
      by (metis map_of_eq_None_iff not_None_eq)
    from map_of_SomeD [OF m] c m show ?thesis
      by (intro exI [of _ path] exI [of _ reason]) (simp add: chain_line_def Let_def)
  qed
  have "those (map (chain_line res) (affected res)) = Some (map line (affected res))"
    by (rule those_map) (use chain in \<open>force simp: line_def\<close>)
  moreover have "\<forall>t \<in> set (affected res). chain_line res t = Some (line t)"
    using chain by (force simp: line_def)
  ultimately show ?thesis
    using chain by (intro exI [of _ line]) (simp add: invalidation_text_def)
qed

theorem invalidation_text_lines_witness:
  "\<exists>res text. propagate_invalidation one_arc corrupt_one = Some res \<and> invalidation_text res = Some text"
proof -
  obtain res where res: "propagate_invalidation one_arc corrupt_one = Some res"
    using propagate_result [of one_arc corrupt_one] by blast
  from invalidation_text_lines [OF this] res show ?thesis by blast
qed

end
