(* ===== verification/Explain_Json.thy ===== *)
theory Explain_Json
  imports Explain
begin

text \<open>
  A reader for the JSON that \<^verbatim>\<open>explain.hpp\<close> prints (RFC 8259 without white space, fractions and
  literals), and the proof that what \<^verbatim>\<open>record_json\<close> and \<^verbatim>\<open>store_json\<close> print is read back as the
  value they print, whatever bytes the strings of the records hold.
\<close>

section \<open>A reader for JSON\<close>

datatype json =
    JString string
  | JNumber int
  | JArray "json list"
  | JObject "(string \<times> json) list"

primrec print_json :: "json \<Rightarrow> string" where
  "print_json (JString s) = quoted (json_escape s)"
| "print_json (JNumber i) = (if i < 0 then ''-'' @ dec_string (nat (- i)) else dec_string (nat i))"
| "print_json (JArray vs) = ''['' @ comma_joined (map print_json vs) @ '']''"
| "print_json (JObject ms) =
     ''{'' @ comma_joined (map (\<lambda>(k, v). quoted (json_escape k) @ '':'' @ v) (map (map_prod id print_json) ms)) @ ''}''"

text \<open>A character after a backslash: the short escapes, and \<^verbatim>\<open>u\<close> with four digits.\<close>

definition read_escape :: "string \<Rightarrow> (char \<times> string) option" where
  "read_escape s =
     (case s of
        [] \<Rightarrow> None
      | c # t \<Rightarrow>
          if c \<in> {quote_char, backslash, CHR ''/''} then Some (c, t)
          else if c = CHR ''n'' then Some (CHR 0x0A, t)
          else if c = CHR ''r'' then Some (CHR 0x0D, t)
          else if c = CHR ''t'' then Some (CHR 0x09, t)
          else if c = CHR ''u'' \<and> 4 \<le> length t \<and> list_all is_hex_char (take 4 t)
                  \<and> hex_text_value (take 4 t) < 128
          then Some (char_of (hex_text_value (take 4 t)), drop 4 t)
          else None)"

lemma read_escape_shorter: "read_escape s = Some (c, t) \<Longrightarrow> length t < length s"
  by (auto simp: read_escape_def split: list.splits if_splits)

text \<open>The characters of a string up to its closing quote.\<close>

function read_chars :: "string \<Rightarrow> (string \<times> string) option" where
  "read_chars [] = None"
| "read_chars (c # s) =
     (if c = quote_char then Some ([], s)
      else if c = backslash then
        (case read_escape s of
           None \<Rightarrow> None
         | Some (e, t) \<Rightarrow> map_option (apfst ((#) e)) (read_chars t))
      else if of_char c < (0x20 :: nat) then None
      else map_option (apfst ((#) c)) (read_chars s))"
  by pat_completeness auto

termination
  by (relation "measure length") (auto dest: read_escape_shorter)

definition is_digit_char :: "char \<Rightarrow> bool" where
  "is_digit_char c \<longleftrightarrow> CHR ''0'' \<le> c \<and> c \<le> CHR ''9''"

definition dec_text_value :: "string \<Rightarrow> nat" where
  "dec_text_value s = foldl (\<lambda>a c. a * 10 + (of_char c - of_char (CHR ''0''))) 0 s"

definition read_number :: "string \<Rightarrow> (json \<times> string) option" where
  "read_number s =
     (let neg = (take 1 s = ''-''); body = (if neg then drop 1 s else s);
          ds = takeWhile is_digit_char body
      in if ds = [] then None
         else Some (JNumber (if neg then - int (dec_text_value ds) else int (dec_text_value ds)),
           drop (length ds) body))"

text \<open>Values; the number bounds the nesting and the elements, and the length of the text is enough.\<close>

fun read_value :: "nat \<Rightarrow> string \<Rightarrow> (json \<times> string) option"
  and read_elements :: "nat \<Rightarrow> string \<Rightarrow> (json list \<times> string) option"
  and read_members :: "nat \<Rightarrow> string \<Rightarrow> ((string \<times> json) list \<times> string) option" where
  "read_value 0 s = None"
| "read_value (Suc n) s =
     (case s of
        [] \<Rightarrow> None
      | c # t \<Rightarrow>
          if c = quote_char then map_option (apfst JString) (read_chars t)
          else if c = CHR ''['' then
            (if take 1 t = '']'' then Some (JArray [], drop 1 t)
             else map_option (apfst JArray) (read_elements n t))
          else if c = CHR ''{'' then
            (if take 1 t = ''}'' then Some (JObject [], drop 1 t)
             else map_option (apfst JObject) (read_members n t))
          else read_number s)"
| "read_elements 0 s = None"
| "read_elements (Suc n) s =
     (case read_value n s of
        None \<Rightarrow> None
      | Some (v, t) \<Rightarrow>
          if take 1 t = '','' then map_option (apfst ((#) v)) (read_elements n (drop 1 t))
          else if take 1 t = '']'' then Some ([v], drop 1 t)
          else None)"
| "read_members 0 s = None"
| "read_members (Suc n) s =
     (if take 1 s \<noteq> [quote_char] then None
      else case read_chars (drop 1 s) of
        None \<Rightarrow> None
      | Some (k, t) \<Rightarrow>
          if take 1 t \<noteq> '':'' then None
          else case read_value n (drop 1 t) of
            None \<Rightarrow> None
          | Some (v, u) \<Rightarrow>
              if take 1 u = '','' then map_option (apfst ((#) (k, v))) (read_members n (drop 1 u))
              else if take 1 u = ''}'' then Some ([(k, v)], drop 1 u)
              else None)"

definition read_json :: "string \<Rightarrow> json option" where
  "read_json s = (case read_value (length s) s of Some (v, []) \<Rightarrow> Some v | _ \<Rightarrow> None)"

section \<open>Printing and reading are inverse\<close>

lemma read_escape_control:
  assumes "of_char c < (0x20 :: nat)"
  shows "read_escape (CHR ''u'' # hex_fixed 4 (of_char c) @ s) = Some (c, s)"
proof -
  note h = hex_fixed_value [of 4 "of_char c"]
  then have "list_all is_hex_char (hex_fixed 4 (of_char c))" by (auto simp: list_all_iff)
  moreover have "hex_text_value (hex_fixed 4 (of_char c)) = of_char c" using h assms by simp
  ultimately show ?thesis
    using assms by (simp add: read_escape_def quote_char_def backslash_def)
qed

lemma read_chars_escape_char: "read_chars (escape_char c @ s) = map_option (apfst ((#) c)) (read_chars s)"
proof (cases "of_char c < (0x20 :: nat) \<and> c \<notin> {CHR 0x0A, CHR 0x0D, CHR 0x09}")
  case True
  then have "c \<noteq> quote_char" "c \<noteq> backslash" by (auto simp: quote_char_def backslash_def)
  with True show ?thesis
    by (simp add: escape_char_def read_escape_control quote_char_def backslash_def)
next
  case False
  then show ?thesis
    by (auto simp: escape_char_def read_escape_def quote_char_def backslash_def)
qed

lemma read_chars_escaped: "read_chars (json_escape t @ quote_char # s) = Some (t, s)"
proof (induction t)
  case (Cons c t)
  then show ?case by (simp add: json_escape_def read_chars_escape_char del: read_chars.simps(2))
qed (simp add: json_escape_def)

lemma dec_text_value_snoc: "dec_text_value (s @ [c]) = dec_text_value s * 10 + (of_char c - of_char (CHR ''0''))"
  by (simp add: dec_text_value_def)

lemma hex_digit_decimal:
  assumes "d < 10"
  shows "is_digit_char (hex_digit d)" "of_char (hex_digit d) - of_char (CHR ''0'') = (d :: nat)"
proof -
  have "list_all (\<lambda>d. is_digit_char (hex_digit d) \<and> of_char (hex_digit d) - of_char (CHR ''0'') = (d :: nat)) [0..<10]"
    by code_simp
  with assms show "is_digit_char (hex_digit d)" "of_char (hex_digit d) - of_char (CHR ''0'') = (d :: nat)"
    by (simp_all add: list_all_iff)
qed

lemma dec_string_value: "dec_text_value (dec_string n) = n \<and> list_all is_digit_char (dec_string n)"
proof (induction n rule: dec_string.induct)
  case (1 n)
  show ?case
  proof (cases "n < 10")
    case True
    then show ?thesis
      using hex_digit_decimal [of n] by (simp add: dec_string.simps [of n] dec_text_value_def)
  next
    case False
    then show ?thesis using 1 hex_digit_decimal [of "n mod 10"]
      by (simp add: dec_string.simps [of n] dec_text_value_snoc)
  qed
qed

definition stops :: "string \<Rightarrow> bool" where
  "stops s \<longleftrightarrow> takeWhile is_digit_char s = []"

lemma read_number_printed:
  assumes "stops s"
  shows "read_number (print_json (JNumber i) @ s) = Some (JNumber i, s)"
proof -
  have t: "takeWhile is_digit_char (dec_string n @ s) = dec_string n" for n
    using dec_string_value [of n] assms by (simp add: takeWhile_append list_all_iff stops_def)
  have m: "take 1 (dec_string n @ s) \<noteq> ''-''" for n
  proof (cases "dec_string n")
    case (Cons c cs)
    then have "is_digit_char c" using dec_string_value [of n] by simp
    then have "c \<noteq> CHR ''-''" by (auto simp: is_digit_char_def less_eq_char_def)
    then show ?thesis using Cons by simp
  qed simp
  show ?thesis
    using t m dec_string_value by (simp add: read_number_def Let_def)
qed

text \<open>How much of the bound a value needs; the length of its text is at least that.\<close>

primrec need :: "json \<Rightarrow> nat" where
  "need (JString s) = 1"
| "need (JNumber i) = 1"
| "need (JArray vs) = Suc (sum_list (map Suc (map need vs)))"
| "need (JObject ms) = Suc (sum_list (map (\<lambda>(k, n). Suc n) (map (map_prod id need) ms)))"

definition reads_back :: "json \<Rightarrow> bool" where
  "reads_back v \<longleftrightarrow> (\<forall>n s. need v \<le> n \<longrightarrow> stops s \<longrightarrow> read_value n (print_json v @ s) = Some (v, s))"

lemma stops_simps [simp]: "stops ('','' @ s)" "stops (CHR '']'' # s)" "stops (CHR ''}'' # s)"
  "stops (CHR '','' # s)" "stops []"
  by (simp_all add: stops_def is_digit_char_def less_eq_char_def)

lemma read_elements_printed:
  assumes "\<forall>v \<in> set vs. reads_back v" "vs \<noteq> []" "sum_list (map (\<lambda>v. Suc (need v)) vs) \<le> n"
  shows "read_elements n (comma_joined (map print_json vs) @ CHR '']'' # s) = Some (vs, s)"
  using assms
proof (induction vs arbitrary: n)
  case (Cons v vs)
  obtain m where n: "n = Suc m" "need v \<le> m" using Cons.prems(3) by (cases n) auto
  have v: "stops t \<Longrightarrow> read_value m (print_json v @ t) = Some (v, t)" for t
    using Cons.prems(1) n(2) by (simp add: reads_back_def)
  show ?case
  proof (cases vs)
    case Nil
    then show ?thesis using v [of "CHR '']'' # s"] n by simp
  next
    case (Cons w ws)
    have "read_elements m (comma_joined (map print_json vs) @ CHR '']'' # s) = Some (vs, s)"
      using Cons.prems Cons n by (intro Cons.IH) auto
    then show ?thesis using v [of "CHR '','' # comma_joined (map print_json vs) @ CHR '']'' # s"] n Cons by simp
  qed
qed simp

definition member_text :: "string \<times> json \<Rightarrow> string" where
  "member_text m = quoted (json_escape (fst m)) @ '':'' @ print_json (snd m)"

lemma print_object: "print_json (JObject ms) = ''{'' @ comma_joined (map member_text ms) @ ''}''"
proof -
  have "map (\<lambda>(k, v). quoted (json_escape k) @ '':'' @ v) (map (map_prod id print_json) ms) = map member_text ms"
    by (simp add: member_text_def split_beta)
  then show ?thesis by (simp only: print_json.simps)
qed

lemma need_object: "need (JObject ms) = Suc (sum_list (map (\<lambda>m. Suc (need (snd m))) ms))"
proof -
  have "map (\<lambda>(k, n). Suc n) (map (map_prod id need) ms) = map (\<lambda>m. Suc (need (snd m))) ms"
    by (simp add: split_beta)
  then show ?thesis by (simp only: need.simps)
qed

lemma read_members_printed:
  assumes "\<forall>m \<in> set ms. reads_back (snd m)" "ms \<noteq> []" "sum_list (map (\<lambda>m. Suc (need (snd m))) ms) \<le> n"
  shows "read_members n (comma_joined (map member_text ms) @ CHR ''}'' # s) = Some (ms, s)"
  using assms
proof (induction ms arbitrary: n)
  case (Cons m ms)
  obtain k v where m: "m = (k, v)" by (rule prod.exhaust)
  obtain b where n: "n = Suc b" "need v \<le> b" using Cons.prems(3) m by (cases n) auto
  have v: "stops t \<Longrightarrow> read_value b (print_json v @ t) = Some (v, t)" for t
    using Cons.prems(1) n(2) m by (simp add: reads_back_def)
  have shown: "member_text m @ t = quote_char # json_escape k @ quote_char # CHR '':'' # print_json v @ t" for t
    by (simp add: m member_text_def quoted_def)
  show ?case
  proof (cases ms)
    case Nil
    then show ?thesis
      using v [of "CHR ''}'' # s"] n shown [of "CHR ''}'' # s"] m by (simp add: read_chars_escaped)
  next
    case (Cons w ws)
    let ?t = "CHR '','' # comma_joined (map member_text ms) @ CHR ''}'' # s"
    have "read_members b (comma_joined (map member_text ms) @ CHR ''}'' # s) = Some (ms, s)"
      using Cons.prems Cons n by (intro Cons.IH) auto
    moreover have "comma_joined (map member_text (m # ms)) @ CHR ''}'' # s = member_text m @ ?t"
      using Cons by simp
    ultimately show ?thesis using v [of ?t] n m shown [of ?t] by (simp add: read_chars_escaped)
  qed
qed simp

lemma starts_value:
  "\<exists>c t. print_json v = c # t \<and> c \<noteq> CHR '']'' \<and> c \<noteq> CHR ''}''"
proof (cases v)
  case (JNumber i)
  have "\<exists>c t. dec_string n = c # t \<and> c \<noteq> CHR '']'' \<and> c \<noteq> CHR ''}''" for n
  proof (cases "dec_string n")
    case (Cons c t)
    then have "is_digit_char c" using dec_string_value [of n] by simp
    then show ?thesis using Cons by (auto simp: is_digit_char_def less_eq_char_def)
  qed simp
  with JNumber show ?thesis by auto
qed (auto simp: quoted_def quote_char_def)

lemma comma_joined_Cons: "comma_joined (x # xs) = x @ (if xs = [] then [] else CHR '','' # comma_joined xs)"
  by (cases xs) simp_all

lemma reads_backI:
  assumes "\<And>n s. need v \<le> Suc n \<Longrightarrow> stops s \<Longrightarrow> read_value (Suc n) (print_json v @ s) = Some (v, s)"
  shows "reads_back v"
proof -
  have "1 \<le> need v" by (cases v) simp_all
  then have "read_value n (print_json v @ s) = Some (v, s)" if "need v \<le> n" "stops s" for n s
    using assms [of "n - 1" s] that by (cases n) simp_all
  then show ?thesis by (simp add: reads_back_def)
qed

lemma reads_back_number: "reads_back (JNumber i)"
proof (rule reads_backI)
  fix n s assume "stops s"
  obtain c t where c: "print_json (JNumber i) = c # t" using starts_value by blast
  have "c = CHR ''-'' \<or> is_digit_char c"
  proof (cases "i < 0")
    case False
    then show ?thesis using c dec_string_value [of "nat i"] by simp
  qed (use c in simp)
  then have "c \<noteq> quote_char" "c \<noteq> CHR ''[''" "c \<noteq> CHR ''{''"
    by (auto simp: quote_char_def is_digit_char_def less_eq_char_def)
  then show "read_value (Suc n) (print_json (JNumber i) @ s) = Some (JNumber i, s)"
    using read_number_printed [OF \<open>stops s\<close>, of i] unfolding c by simp
qed

lemma reads_back_array:
  assumes "\<forall>v \<in> set vs. reads_back v"
  shows "reads_back (JArray vs)"
proof (rule reads_backI)
  fix n s assume "need (JArray vs) \<le> Suc n"
  then have n: "sum_list (map (\<lambda>v. Suc (need v)) vs) \<le> n" by (simp add: comp_def)
  show "read_value (Suc n) (print_json (JArray vs) @ s) = Some (JArray vs, s)"
  proof (cases vs)
    case (Cons w ws)
    have "read_elements n (comma_joined (map print_json vs) @ CHR '']'' # s) = Some (vs, s)"
      using assms n Cons by (intro read_elements_printed) auto
    moreover obtain c t where "print_json w = c # t" "c \<noteq> CHR '']''" using starts_value by blast
    ultimately show ?thesis
      using Cons by (simp add: quote_char_def comma_joined_Cons)
  qed (simp add: quote_char_def)
qed

lemma reads_back_object:
  assumes "\<forall>m \<in> set ms. reads_back (snd m)"
  shows "reads_back (JObject ms)"
proof (rule reads_backI)
  fix n s assume "need (JObject ms) \<le> Suc n"
  then have n: "sum_list (map (\<lambda>m. Suc (need (snd m))) ms) \<le> n" unfolding need_object by simp
  show "read_value (Suc n) (print_json (JObject ms) @ s) = Some (JObject ms, s)"
  proof (cases ms)
    case (Cons w ws)
    have "read_members n (comma_joined (map member_text ms) @ CHR ''}'' # s) = Some (ms, s)"
      using assms n Cons by (intro read_members_printed) auto
    then show ?thesis
      using Cons unfolding print_object
      by (simp add: quote_char_def comma_joined_Cons member_text_def quoted_def)
  qed (simp add: quote_char_def)
qed

lemma printed_reads_back: "reads_back v"
proof (induction v)
  case (JString t)
  show ?case by (rule reads_backI) (simp add: quoted_def read_chars_escaped)
next
  case (JNumber i)
  show ?case by (rule reads_back_number)
next
  case (JArray vs)
  then show ?case by (intro reads_back_array) blast
next
  case (JObject ms)
  then show ?case by (intro reads_back_object) (auto simp: prod_set_simps snds.simps)
qed

lemma sum_le_joined:
  assumes "\<forall>x \<in> set xs. f x \<le> length (g x)"
  shows "sum_list (map (\<lambda>x. Suc (f x)) xs) \<le> Suc (length (comma_joined (map g xs)))"
  using assms
proof (induction xs)
  case (Cons x xs)
  then show ?case by (cases xs) auto
qed simp

lemma need_le: "need v \<le> length (print_json v)"
proof (induction v)
  case (JNumber i)
  obtain c t where "print_json (JNumber i) = c # t" using starts_value by blast
  then show ?case by simp
next
  case (JArray vs)
  then have "\<forall>v \<in> set vs. need v \<le> length (print_json v)" by blast
  from sum_le_joined [OF this] show ?case by (simp add: comp_def)
next
  case (JObject ms)
  have "\<forall>m \<in> set ms. need (snd m) \<le> length (member_text m)"
  proof
    fix m assume "m \<in> set ms"
    then have "need (snd m) \<le> length (print_json (snd m))" using JObject by (cases m) (auto simp: snds.simps)
    then show "need (snd m) \<le> length (member_text m)" by (simp add: member_text_def quoted_def)
  qed
  from sum_le_joined [OF this] show ?case unfolding need_object print_object by simp
qed (simp add: quoted_def)

lemma read_print_json: "read_json (print_json v) = Some v"
  using printed_reads_back [of v] need_le [of v] unfolding reads_back_def read_json_def
  by (metis (no_types, lifting) append_Nil2 list.simps(4) option.simps(5) prod.case stops_simps(5))

section \<open>The value of a record and of a store\<close>

text \<open>Texts that need no escape: identities and the names of the enumerators.\<close>

lemma escape_plain: "list_all (\<lambda>c. escape_char c = [c]) s \<Longrightarrow> json_escape s = s"
  by (induction s) (simp_all add: json_escape_def)

lemma escape_hex_digit: "d < 16 \<Longrightarrow> escape_char (hex_digit d) = [hex_digit d]"
proof -
  have "list_all (\<lambda>d. escape_char (hex_digit d) = [hex_digit d]) [0..<16]" by code_simp
  then show "d < 16 \<Longrightarrow> escape_char (hex_digit d) = [hex_digit d]" by (simp add: list_all_iff)
qed

lemma escape_to_string [simp]: "json_escape (to_string i) = to_string i"
proof (rule escape_plain)
  have "list_all (\<lambda>c. escape_char c = [c]) (hex_fixed 16 (unat (get i)))"
    using hex_fixed_value [of 16 "unat (get i)"] escape_hex_digit by (fastforce simp: list_all_iff)
  moreover have "list_all (\<lambda>c. escape_char c = [c]) ''0x''" by code_simp
  ultimately show "list_all (\<lambda>c. escape_char c = [c]) (to_string i)" by (simp add: to_string_def)
qed

lemma escape_name:
  "(v, n) \<in> set tbl \<Longrightarrow> list_all (\<lambda>(e, n). json_escape n = n) tbl \<Longrightarrow> json_escape n = n"
  by (auto simp: list_all_iff)

lemma escape_names [simp]:
  "json_escape (name_of_SubjectKind k) = name_of_SubjectKind k"
  "json_escape (name_of_EvidenceClass e) = name_of_EvidenceClass e"
  "json_escape (name_of_ValidityState v) = name_of_ValidityState v"
  "json_escape (name_of_ReuseEligibility u) = name_of_ReuseEligibility u"
  "json_escape (name_of_InvalidationReason i) = name_of_InvalidationReason i"
  "json_escape (name_of_CompatibilityDimension d) = name_of_CompatibilityDimension d"
  unfolding name_of_SubjectKind_def name_of_EvidenceClass_def name_of_ValidityState_def name_of_ReuseEligibility_def name_of_InvalidationReason_def name_of_CompatibilityDimension_def
  subgoal by (rule escape_name [OF subject_kind.in_table]) code_simp
  subgoal by (rule escape_name [OF evidence_class.in_table]) code_simp
  subgoal by (rule escape_name [OF validity_state.in_table]) code_simp
  subgoal by (rule escape_name [OF reuse_elig.in_table]) code_simp
  subgoal by (rule escape_name [OF inval_reason.in_table]) code_simp
  subgoal by (rule escape_name [OF compat_dim.in_table]) code_simp
  done

definition dependency_value :: "Dependency \<Rightarrow> json" where
  "dependency_value dep = JObject
     [(''id'', JString (to_string (dep_id dep))), (''generation'', JString (to_string (dep_generation dep))),
      (''kind'', JString (dep_kind dep)), (''revision'', JString (dep_revision dep))]"

definition requirement_value :: "CompatibilityRequirement \<Rightarrow> json" where
  "requirement_value req = JObject
     [(''dimension'', JString (name_of_CompatibilityDimension (req_dimension req))),
      (''value'', JString (req_required_value req)), (''note'', JString (req_note req))]"

definition record_members :: "RecordData \<Rightarrow> (string \<times> json) list" where
  "record_members d =
     [(''provenance_id'', JString (to_string (provenance_id d))),
      (''provenance_generation'', JString (to_string (provenance_generation d))),
      (''subject_id'', JString (to_string (subject_id d))),
      (''subject_kind'', JString (name_of_SubjectKind (subject_kind d))),
      (''state_generation'', JString (to_string (state_generation d))),
      (''producer_id'', JString (to_string (producer_id d))),
      (''producer_generation'', JString (to_string (producer_generation d))),
      (''execution_id'', JString (to_string (execution_id d))),
      (''attempt_id'', JString (to_string (attempt_id d))),
      (''created_at'', JNumber (sint (created_at d))),
      (''model_id'', JString (to_string (model_id d))),
      (''model_generation'', JString (to_string (model_generation d))),
      (''model_revision'', JString (model_revision d)),
      (''tokenizer'', JString (tokenizer d)),
      (''adapter_id'', JString (to_string (adapter_id d))),
      (''adapter_generation'', JString (to_string (adapter_generation d))),
      (''adapter_revision'', JString (adapter_revision d)),
      (''composition_id'', JString (to_string (composition_id d))),
      (''composition_generation'', JString (to_string (composition_generation d))),
      (''composition_fingerprint'', JString (composition_fingerprint d)),
      (''runtime_id'', JString (to_string (runtime_id d))),
      (''runtime_generation'', JString (to_string (runtime_generation d))),
      (''artifact_generation'', JString (to_string (artifact_generation d))),
      (''backend_id'', JString (to_string (backend_id d))),
      (''toolchain_id'', JString (to_string (toolchain_id d))),
      (''device_id'', JString (to_string (device_id d))),
      (''architecture'', JString (architecture d)),
      (''compute_capability'', JString (compute_capability d)),
      (''abi'', JString (abi d)),
      (''dtype'', JString (dtype d)),
      (''layout'', JString (layout d)),
      (''shape'', JString (shape d)),
      (''content_digest'', JString (content_digest d)),
      (''policy_id'', JString (to_string (policy_id d))),
      (''policy_generation'', JString (to_string (policy_generation d))),
      (''coordinator_epoch'', JNumber (uint (coordinator_epoch d))),
      (''worker_id'', JString (to_string (worker_id d))),
      (''worker_boot'', JString (to_string (worker_boot d))),
      (''evidence'', JString (name_of_EvidenceClass (evidence d))),
      (''validity'', JString (name_of_ValidityState (validity d))),
      (''invalidation_reason'', JString (name_of_InvalidationReason (invalidation_reason d))),
      (''reuse_eligibility'', JString (name_of_ReuseEligibility (reuse_eligibility d))),
      (''input_states'', JArray (map (\<lambda>i. JString (to_string i)) (input_states d))),
      (''parent_provenance'', JArray (map (\<lambda>i. JString (to_string i)) (parent_provenance d))),
      (''dependencies'', JArray (map dependency_value (dependencies d))),
      (''requirements'', JArray (map requirement_value (requirements d)))]"

definition record_value :: "RecordData \<Rightarrow> json" where
  "record_value d = JObject (record_members d @ [(''note'', JString (record_note d))])"

definition store_value :: "ProvenanceStore \<Rightarrow> json" where
  "store_value s = JObject
     [(''records'', JArray (map (\<lambda>i. record_value (the (find_record s i))) (store_ids s))),
      (''size'', JNumber (int (store_size s)))]"

lemma dependency_json_value: "dependency_json dep = print_json (dependency_value dep)"
proof -
  have "map json_escape [''id'', ''generation'', ''kind'', ''revision''] = [''id'', ''generation'', ''kind'', ''revision'']"
    by code_simp
  then show ?thesis
    by (simp add: dependency_json_def dependency_value_def text_member_def)
qed

lemma requirement_json_value: "requirement_json req = print_json (requirement_value req)"
proof -
  have "map json_escape [''dimension'', ''value'', ''note''] = [''dimension'', ''value'', ''note'']" by code_simp
  then show ?thesis
    by (simp add: requirement_json_def requirement_value_def text_member_def)
qed

lemma comma_joined_snoc: "comma_joined (xs @ [x]) = concat (map (\<lambda>s. s @ '','') xs) @ x"
  by (induction xs) (auto simp: comma_joined_Cons)

text \<open>A member with the comma that follows it, when its key needs no escape.\<close>

definition member_comma :: "string \<times> json \<Rightarrow> string" where
  "member_comma m = quoted (fst m) @ '':'' @ print_json (snd m) @ '',''"

lemma members_comma:
  "list_all (\<lambda>k. json_escape k = k) (map fst ms) \<Longrightarrow>
    concat (map (\<lambda>s. s @ '','') (map member_text ms)) = concat (map member_comma ms)"
  by (induction ms) (simp_all add: member_text_def member_comma_def)

lemma record_keys_plain: "list_all (\<lambda>k. json_escape k = k) (map fst (record_members d))"
  unfolding record_members_def list.map fst_conv by code_simp

lemma text_member_value: "json_escape v = w \<Longrightarrow> text_member k w = member_comma (k, JString v)"
  by (simp add: text_member_def member_comma_def)

lemma number_member_values:
  "number_member k (signed_text x) = member_comma (k, JNumber (sint x))"
  "number_member k (unsigned_text y) = member_comma (k, JNumber (uint y))"
  by (simp_all add: number_member_def member_comma_def signed_text_def unsigned_text_def Let_def)

lemma array_member_value:
  "map f xs = map print_json ys \<Longrightarrow> array_member k (map f xs) = member_comma (k, JArray ys)"
  by (simp add: array_member_def member_comma_def)

lemma array_members:
  "array_member k (map (\<lambda>i. quoted (to_string i)) xs) = member_comma (k, JArray (map (\<lambda>i. JString (to_string i)) xs))"
  "array_member k (map dependency_json deps) = member_comma (k, JArray (map dependency_value deps))"
  "array_member k (map requirement_json reqs) = member_comma (k, JArray (map requirement_value reqs))"
  by (rule array_member_value, simp add: dependency_json_value requirement_json_value)+

lemma record_json_value: "record_json d = print_json (record_value d)"
proof -
  have n: "json_escape ''note'' = ''note''" by code_simp
  have "record_json d = ''{'' @ concat (map member_comma (record_members d))
      @ quoted ''note'' @ '':'' @ quoted (json_escape (record_note d)) @ ''}''"
    unfolding record_json_def record_members_def list.map
    by (simp only: text_member_value [OF escape_to_string] text_member_value [OF refl]
        text_member_value [OF escape_names(1)] text_member_value [OF escape_names(2)]
        text_member_value [OF escape_names(3)] text_member_value [OF escape_names(4)]
        text_member_value [OF escape_names(5)] number_member_values array_members append_assoc)
  then show ?thesis
    unfolding record_value_def print_object map_append list.map comma_joined_snoc
      members_comma [OF record_keys_plain]
    by (simp add: member_text_def n)
qed

lemma comma_joined_snoc2: "xs \<noteq> [] \<Longrightarrow> comma_joined (xs @ [x]) = comma_joined xs @ CHR '','' # x"
  by (induction xs) (auto simp: comma_joined_Cons)

lemma map_nth_comp: "map (\<lambda>i. f (xs ! i)) [0..<length xs] = map f xs"
  by (rule nth_equalityI) simp_all

lemma store_json_value: "store_json s = print_json (store_value s)"
proof -
  have keys: "map json_escape [''records'', ''size''] = [''records'', ''size'']" by code_simp
  have found: "find_record s i = Some (the (find_record s i))" if "i \<in> set (store_ids s)" for i
    using that by (auto simp: store_ids_def find_record_def lookup_Some_iff)
  have joined: "concat (map (\<lambda>i. (if i \<noteq> 0 then '','' else []) @ g i) [0..<n]) = comma_joined (map g [0..<n])"
    for g and n :: nat
  proof (induction n)
    case (Suc n)
    have "comma_joined (map g [0..<Suc n]) = comma_joined (map g [0..<n]) @ (if n \<noteq> 0 then '','' else []) @ g n"
      by (cases "n = 0") (simp_all add: comma_joined_snoc2)
    with Suc show ?case by simp
  qed simp
  have recs: "map (\<lambda>i. case find_record s (store_ids s ! i) of None \<Rightarrow> []
        | Some d \<Rightarrow> (if i \<noteq> 0 then '','' else []) @ record_json d) [0..<length (store_ids s)]
      = map (\<lambda>i. (if i \<noteq> 0 then '','' else []) @ print_json (record_value (the (find_record s (store_ids s ! i)))))
          [0..<length (store_ids s)]"
  proof (rule map_cong [OF refl])
    fix i assume "i \<in> set [0..<length (store_ids s)]"
    then have "store_ids s ! i \<in> set (store_ids s)" by simp
    from found [OF this] obtain d where "find_record s (store_ids s ! i) = Some d" by blast
    then show "(case find_record s (store_ids s ! i) of None \<Rightarrow> []
          | Some d \<Rightarrow> (if i \<noteq> 0 then '','' else []) @ record_json d)
        = (if i \<noteq> 0 then '','' else []) @ print_json (record_value (the (find_record s (store_ids s ! i))))"
      by (simp add: record_json_value)
  qed
  show ?thesis
    unfolding store_json_def Let_def recs joined
      map_nth_comp [of "\<lambda>i. print_json (record_value (the (find_record s i)))" "store_ids s"]
    using keys by (simp add: store_value_def comp_def)
qed

section \<open>Properties\<close>

text \<open>
  C27: The JSON is well formed and complete.  Whatever bytes the strings of a record hold (quotes,
  backslashes, control characters), a JSON reader gets back from \<^verbatim>\<open>record_json\<close> exactly the
  object of the record's printed fields, and from \<^verbatim>\<open>store_json\<close> the records of the store in
  ascending order of their identities with their number.
\<close>

theorem printed_json_reads_back:
  "read_json (record_json d) = Some (record_value d) \<and> read_json (store_json s) = Some (store_value s)"
  by (simp only: record_json_value store_json_value read_print_json)

end
