(* ===== verification/Cli.thy ===== *)
theory Cli
  imports Explain_Json Coordinator
begin

text \<open>
  \<^verbatim>\<open>cli/main.cpp\<close>: the command line tool.  A run is a function of its arguments and of the file
  system: it gives the exit code with what it prints on the two streams, and the new file system.
  Every command loads at most one file and saves at most one; what the operating system does to
  these two accesses are the arguments \<open>fault\<close> and \<open>io\<close>.  \<open>None\<close> is a run that does not return.
\<close>

section \<open>Arguments\<close>

text \<open>\<^verbatim>\<open>parse_args\<close>, on the arguments from \<^verbatim>\<open>from\<close> on.\<close>

fun args_loop :: "string list \<Rightarrow> (string \<Rightarrow> string option) \<Rightarrow> string \<Rightarrow> string option" where
  "args_loop [] m = m"
| "args_loop (a # rest) m =
     (if take 2 a = ''--'' then
        (case rest of
           b # rest' \<Rightarrow>
             if b \<noteq> ''--json'' \<and> take 1 b \<noteq> ''-'' then args_loop rest' (m(drop 2 a := Some b))
             else args_loop rest (m(drop 2 a := Some ''1''))
         | [] \<Rightarrow> m(drop 2 a := Some ''1''))
      else args_loop rest m)"

definition parse_args :: "string list \<Rightarrow> nat \<Rightarrow> string \<Rightarrow> string option" where
  "parse_args argv from_arg = args_loop (drop from_arg argv) (\<lambda>k. None)"

definition has_arg :: "(string \<Rightarrow> string option) \<Rightarrow> string \<Rightarrow> bool" where
  "has_arg a k \<longleftrightarrow> a k \<noteq> None"

definition at_arg :: "(string \<Rightarrow> string option) \<Rightarrow> string \<Rightarrow> string" where
  "at_arg a k = (case a k of None \<Rightarrow> [] | Some v \<Rightarrow> v)"

text \<open>\<^verbatim>\<open>a.count(k) ? hx(a.at(k)) : v\<close>.\<close>

definition hex_arg :: "(string \<Rightarrow> string option) \<Rightarrow> string \<Rightarrow> u64 \<Rightarrow> u64" where
  "hex_arg a k v = (if has_arg a k then strtoull16 (at_arg a k) else v)"

definition usage_text :: string where
  "usage_text = concat (map (\<lambda>l. l @ newline)
     [''spc: State Provenance CLI'',
      ''  register <file> --subject <hex> [--kind KVState] [--model <hex>] [--parents <hex,..>] [--producer <hex>] [--execution <hex>] [--evidence MEASURED] [--arch sm_120] --provgen <hex> --stategen <hex>'',
      ''  inspect   <file> <subject_hex> [--json]'',
      ''  explain   <file> <subject_hex>'',
      ''  ancestry  <file> <subject_hex>'',
      ''  descend   <file> <subject_hex>'',
      ''  deps      <file> <subject_hex>'',
      ''  check-reuse <file> <subject_hex> [--model <hex>] [--arch <s>] [--dtype <s>]'',
      ''  invalidate <file> <subject_hex> [--reason ModelRevisionChange]'',
      ''  save      <file> <out>'',
      ''  recover   <in> <out>'',
      ''  replay    <file>'',
      ''  benchmark <file> [--n <count>]''])"

section \<open>register\<close>

function parents_loop :: "string \<Rightarrow> nat \<Rightarrow> StateId list" where
  "parents_loop p pos =
     (if pos < length p then
        (case find_char (CHR '','') p pos of
           None \<Rightarrow> [ScalarIdentifier (strtoull16 (drop pos p))]
         | Some comma \<Rightarrow> ScalarIdentifier (strtoull16 (substr p pos (comma - pos))) # parents_loop p (comma + 1))
      else [])"
  by pat_completeness auto

termination
  by (relation "measure (\<lambda>(p, pos). length p - pos)") (auto simp: find_char_def find_Some_iff)

declare parents_loop.simps [simp del]

definition args_record :: "(string \<Rightarrow> string option) \<Rightarrow> RecordData" where
  "args_record a =
     (let d = empty_record\<lparr>
            provenance_id := ScalarIdentifier (strtoull16 (at_arg a (if has_arg a ''pid'' then ''pid'' else ''subject'')) * 2),
            provenance_generation := ScalarIdentifier (hex_arg a ''provgen'' 1),
            subject_id := ScalarIdentifier (strtoull16 (at_arg a ''subject'')),
            subject_kind := (if has_arg a ''kind''
              then case parse_SubjectKind (at_arg a ''kind'') of None \<Rightarrow> SK_KVState | Some k \<Rightarrow> k else SK_KVState),
            state_generation := ScalarIdentifier (hex_arg a ''stategen'' 1),
            producer_id := ScalarIdentifier (hex_arg a ''producer'' 0xA),
            producer_generation := ScalarIdentifier 1,
            execution_id := ScalarIdentifier (hex_arg a ''execution'' 0xE1),
            attempt_id := ScalarIdentifier 1,
            attempt_generation := ScalarIdentifier 1\<rparr>;
          d = (if has_arg a ''model'' then d\<lparr>model_id := ScalarIdentifier (strtoull16 (at_arg a ''model'')),
                 model_generation := ScalarIdentifier 1\<rparr> else d);
          d = (if has_arg a ''arch'' then d\<lparr>architecture := at_arg a ''arch''\<rparr> else d);
          d = (if has_arg a ''dtype'' then d\<lparr>dtype := at_arg a ''dtype''\<rparr> else d);
          d = (if has_arg a ''shape'' then d\<lparr>shape := at_arg a ''shape''\<rparr> else d);
          d = d\<lparr>evidence := (if has_arg a ''evidence''
                 then case parse_EvidenceClass (at_arg a ''evidence'') of None \<Rightarrow> EV_MEASURED | Some e \<Rightarrow> e else EV_MEASURED),
                validity := VS_VALID\<rparr>
      in if has_arg a ''parents'' then d\<lparr>input_states := parents_loop (at_arg a ''parents'') 0\<rparr> else d)"

definition publish_from_args ::
  "(string \<Rightarrow> string option) \<Rightarrow> ProvenanceStore \<Rightarrow> (store_exn + string option) \<times> ProvenanceStore" where
  "publish_from_args a s =
     (if \<not> has_arg a ''subject'' then (Inr (Some ''register requires --subject''), s)
      else case publish (args_record a) s of
        (Inl e, s') \<Rightarrow> (Inl e, s')
      | (Inr out, s') \<Rightarrow> (Inr (if \<not> po_ok out then Some (po_error out) else None), s'))"

definition load_store ::
  "string \<Rightarrow> ReadFault \<Rightarrow> filesystem \<Rightarrow> ProvenanceStore \<Rightarrow> ((store_exn + unit) \<times> ProvenanceStore) option" where
  "load_store path fault fs s =
     (case lr_snapshot (load_file path fault fs) of
        Some sn \<Rightarrow> restore sn s
      | None \<Rightarrow> Some (Inr (), store_roll_state_generation (ScalarIdentifier 1)
          (store_roll_provenance_generation (ScalarIdentifier 1) s)))"

text \<open>How a run ends: an exit code with the text on the two streams, or an uncaught exception.\<close>

datatype cli_end = Exited int string string | Aborted

type_synonym cli_run = "(cli_end \<times> filesystem) option"

definition usage :: "filesystem \<Rightarrow> cli_run" where
  "usage fs = Some (Exited 1 usage_text [], fs)"

definition with_store ::
  "string \<Rightarrow> ReadFault \<Rightarrow> filesystem \<Rightarrow> (ProvenanceStore \<Rightarrow> cli_run) \<Rightarrow> cli_run" where
  "with_store path fault fs body =
     (case load_store path fault fs empty_store of
        None \<Rightarrow> None
      | Some (Inl e, s) \<Rightarrow> Some (Aborted, fs)
      | Some (Inr u, s) \<Rightarrow> body s)"

definition saving ::
  "ProvenanceStore \<Rightarrow> string \<Rightarrow> IoFaults \<Rightarrow> filesystem \<Rightarrow> (string \<Rightarrow> cli_end) \<Rightarrow> cli_end \<Rightarrow> cli_run" where
  "saving s path io fs failed finished =
     (case save_file (store_snapshot s) path io fs of
        (SaveThrew, fs') \<Rightarrow> Some (Aborted, fs')
      | (SaveError e, fs') \<Rightarrow> Some (failed e, fs')
      | (Saved, fs') \<Rightarrow> Some (finished, fs'))"

definition cmd_register :: "IoFaults \<Rightarrow> ReadFault \<Rightarrow> string list \<Rightarrow> filesystem \<Rightarrow> cli_run" where
  "cmd_register io fault argv fs =
     (if length argv < 3 then usage fs
      else with_store (argv ! 2) fault fs (\<lambda>s.
        let a = parse_args argv 3
        in case publish_from_args a s of
             (Inl e, s') \<Rightarrow> Some (Aborted, fs)
           | (Inr (Some err), s') \<Rightarrow> Some (Exited 2 [] (''register failed: '' @ err @ newline), fs)
           | (Inr None, s') \<Rightarrow>
               saving s' (argv ! 2) io fs (\<lambda>e. Exited 2 [] (''save failed: '' @ e @ newline))
                 (Exited 0 (''registered subject ''
                    @ to_string (ScalarIdentifier (strtoull16 (at_arg a ''subject'')) :: StateId)
                    @ '' (size='' @ dec_string (store_size s') @ '')'' @ newline) [])))"

section \<open>Queries\<close>

definition arg_id :: "string list \<Rightarrow> StateId" where
  "arg_id argv = ScalarIdentifier (strtoull16 (argv ! 3))"

definition query_command ::
  "ReadFault \<Rightarrow> string list \<Rightarrow> filesystem \<Rightarrow> (ProvenanceStore \<Rightarrow> cli_end) \<Rightarrow> cli_run" where
  "query_command fault argv fs body =
     (if length argv < 4 then usage fs else with_store (argv ! 2) fault fs (\<lambda>s. Some (body s, fs)))"

definition cmd_inspect :: "ReadFault \<Rightarrow> string list \<Rightarrow> filesystem \<Rightarrow> cli_run" where
  "cmd_inspect fault argv fs = query_command fault argv fs (\<lambda>s.
     case find_record s (arg_id argv) of
       None \<Rightarrow> Exited 2 [] (''subject not found'' @ newline)
     | Some d \<Rightarrow>
         Exited 0 ((if ''--json'' \<in> set (drop 3 argv) then record_json d else record_text d) @ newline) [])"

definition cmd_explain :: "ReadFault \<Rightarrow> string list \<Rightarrow> filesystem \<Rightarrow> cli_run" where
  "cmd_explain fault argv fs = query_command fault argv fs (\<lambda>s.
     Exited 0 (chain_text s (arg_id argv) @ newline) [])"

definition cmd_ancestry :: "ReadFault \<Rightarrow> string list \<Rightarrow> filesystem \<Rightarrow> cli_run" where
  "cmd_ancestry fault argv fs = query_command fault argv fs (\<lambda>s.
     Exited 0 (concat (map (\<lambda>i. to_string i @ newline) (store_ancestors s (arg_id argv)))) [])"

definition cmd_descend :: "ReadFault \<Rightarrow> string list \<Rightarrow> filesystem \<Rightarrow> cli_run" where
  "cmd_descend fault argv fs = query_command fault argv fs (\<lambda>s.
     Exited 0 (concat (map (\<lambda>i. to_string i @ newline) (store_descendants s (arg_id argv)))) [])"

definition cmd_deps :: "ReadFault \<Rightarrow> string list \<Rightarrow> filesystem \<Rightarrow> cli_run" where
  "cmd_deps fault argv fs = query_command fault argv fs (\<lambda>s.
     case find_record s (arg_id argv) of
       None \<Rightarrow> Exited 2 [] (''not found'' @ newline)
     | Some d \<Rightarrow> Exited 0 (concat (map (\<lambda>dep. to_string (dep_id dep) @ '' '' @ dep_kind dep @ newline)
         (dependencies d))) [])"

definition reuse_request :: "(string \<Rightarrow> string option) \<Rightarrow> ReuseRequest" where
  "reuse_request a =
     (let q = empty_request;
          q = (if has_arg a ''model'' then q\<lparr>q_model_id := ScalarIdentifier (strtoull16 (at_arg a ''model'')),
                 q_model_generation := ScalarIdentifier 1\<rparr> else q);
          q = (if has_arg a ''arch'' then q\<lparr>q_architecture := at_arg a ''arch''\<rparr> else q)
      in if has_arg a ''dtype'' then q\<lparr>q_dtype := at_arg a ''dtype''\<rparr> else q)"

definition reuse_json :: "ReuseDecision \<Rightarrow> string" where
  "reuse_json d =
     ''{'' @ quoted ''eligibility'' @ '':'' @ quoted (name_of_ReuseEligibility (d_eligibility d)) @ '',''
     @ quoted ''failed_dimensions'' @ '':[''
     @ comma_joined (map (\<lambda>x. quoted (name_of_CompatibilityDimension x)) (d_failed_dimensions d))
     @ ''],'' @ quoted ''reasons'' @ '':['' @ comma_joined (map quoted (d_reasons d)) @ '']}''"

definition cmd_check_reuse :: "ReadFault \<Rightarrow> string list \<Rightarrow> filesystem \<Rightarrow> cli_run" where
  "cmd_check_reuse fault argv fs = query_command fault argv fs (\<lambda>s.
     let a = parse_args argv 3; d = check_reuse s (arg_id argv) (reuse_request a)
     in Exited 0 ((if has_arg a ''json'' then reuse_json d else summary d) @ newline) [])"

section \<open>invalidate, save, recover and replay\<close>

definition invalidation_subject :: "string list \<Rightarrow> InvalidatingSubject" where
  "invalidation_subject argv =
     (let a = parse_args argv 4;
          reason = (if has_arg a ''reason''
            then case parse_InvalidationReason (at_arg a ''reason'') of None \<Rightarrow> IR_OperatorInvalidation | Some r \<Rightarrow> r
            else IR_OperatorInvalidation)
      in InvalidatingSubject (arg_id argv) reason ''cli'')"

text \<open>The outcome of the save is not looked at.\<close>

definition cmd_invalidate :: "IoFaults \<Rightarrow> ReadFault \<Rightarrow> string list \<Rightarrow> filesystem \<Rightarrow> cli_run" where
  "cmd_invalidate io fault argv fs =
     (if length argv < 4 then usage fs
      else with_store (argv ! 2) fault fs (\<lambda>s.
        case invalidate (invalidation_subject argv) s of
          None \<Rightarrow> None
        | Some (out, s') \<Rightarrow>
            if \<not> io_ok out then Some (Exited 2 [] (''invalidate failed: '' @ io_error out @ newline), fs)
            else
              let finished = Exited 0 (''invalidated '' @ dec_string (length (affected (io_result out)))
                    @ '' subject(s)'' @ newline) []
              in saving s' (argv ! 2) io fs (\<lambda>e. finished) finished))"

definition save_error :: "string \<Rightarrow> cli_end" where
  "save_error e = Exited 2 [] (e @ newline)"

definition cmd_save :: "IoFaults \<Rightarrow> ReadFault \<Rightarrow> string list \<Rightarrow> filesystem \<Rightarrow> cli_run" where
  "cmd_save io fault argv fs =
     (if length argv < 4 then usage fs
      else with_store (argv ! 2) fault fs (\<lambda>s.
        saving s (argv ! 3) io fs save_error
          (Exited 0 (''saved digest='' @ store_digest (store_snapshot s) @ newline) [])))"

definition cmd_recover :: "IoFaults \<Rightarrow> ReadFault \<Rightarrow> string list \<Rightarrow> filesystem \<Rightarrow> cli_run" where
  "cmd_recover io fault argv fs =
     (if length argv < 4 then usage fs
      else let lr = load_file (argv ! 2) fault fs
           in case lr_snapshot lr of
                None \<Rightarrow> Some (Exited 2 [] (''recover failed: '' @ lr_error lr @ newline), fs)
              | Some sn \<Rightarrow>
                  (case restore sn empty_store of
                     None \<Rightarrow> None
                   | Some (Inl e, s) \<Rightarrow> Some (Aborted, fs)
                   | Some (Inr u, s) \<Rightarrow>
                       saving s (argv ! 3) io fs save_error
                         (Exited 0 (''recovered digest='' @ store_digest (store_snapshot s) @ newline) [])))"

definition cmd_replay :: "ReadFault \<Rightarrow> string list \<Rightarrow> filesystem \<Rightarrow> cli_run" where
  "cmd_replay fault argv fs =
     (if length argv < 3 then usage fs
      else with_store (argv ! 2) fault fs (\<lambda>s.
        case encode_snapshot (store_snapshot s) of
          None \<Rightarrow> Some (Aborted, fs)
        | Some b \<Rightarrow>
            (case decode_snapshot b of
               Inl e \<Rightarrow> Some (Exited 2 [] (''replay failed'' @ newline), fs)
             | Inr sn \<Rightarrow>
                 (case restore sn empty_store of
                    None \<Rightarrow> None
                  | Some (Inl e, r) \<Rightarrow> Some (Aborted, fs)
                  | Some (Inr u, r) \<Rightarrow>
                      Some (Exited 0 (''replay digest='' @ store_digest (store_snapshot r)
                        @ '' size='' @ dec_string (store_size r) @ newline) [], fs)))))"

section \<open>benchmark\<close>

text \<open>\<^verbatim>\<open>atoi\<close> for numerals within the range of \<^verbatim>\<open>int\<close>; the measured times are the arguments \<open>ms\<close> and \<open>us\<close>.\<close>

definition atoi :: "string \<Rightarrow> int" where
  "atoi s = (let (neg, body) = skip_sign (dropWhile is_space s); v = int (dec_text_value (takeWhile is_digit_char body))
     in if neg then - v else v)"

definition bench_record :: "nat \<Rightarrow> RecordData" where
  "bench_record i = empty_record\<lparr>
     provenance_id := ScalarIdentifier (0x100000000 + of_nat i), provenance_generation := ScalarIdentifier 1,
     subject_id := ScalarIdentifier (0x200000000 + of_nat i), subject_kind := SK_KVState,
     state_generation := ScalarIdentifier 1, producer_id := ScalarIdentifier 0xA,
     producer_generation := ScalarIdentifier 1, execution_id := ScalarIdentifier 0xE1,
     model_id := ScalarIdentifier 7, model_generation := ScalarIdentifier 1,
     evidence := EV_MEASURED, validity := VS_VALID,
     input_states := (if 0 < i then [ScalarIdentifier (0x200000000 + of_nat i - 1)] else [])\<rparr>"

fun bench_loop :: "nat list \<Rightarrow> ProvenanceStore \<Rightarrow> (store_exn + unit) \<times> ProvenanceStore" where
  "bench_loop [] s = (Inr (), s)"
| "bench_loop (i # is) s =
     (case publish (bench_record i) s of
        (Inl e, s') \<Rightarrow> (Inl e, s')
      | (Inr out, s') \<Rightarrow> bench_loop is s')"

definition cmd_benchmark :: "string \<Rightarrow> string \<Rightarrow> ReadFault \<Rightarrow> string list \<Rightarrow> filesystem \<Rightarrow> cli_run" where
  "cmd_benchmark ms us fault argv fs =
     (if length argv < 3 then usage fs
      else with_store (argv ! 2) fault fs (\<lambda>s.
        let a = parse_args argv 3; n = (if has_arg a ''n'' then atoi (at_arg a ''n'') else 1000)
        in case bench_loop [0..<nat n] s of
             (Inl e, s') \<Rightarrow> Some (Aborted, fs)
           | (Inr u, s') \<Rightarrow>
               Some (Exited 0 (''published '' @ (if n < 0 then ''-'' else []) @ dec_string (nat \<bar>n\<bar>)
                 @ '' records in '' @ ms @ '' ms ('' @ us @ '' us/record); size='' @ dec_string (store_size s')
                 @ newline) [], fs)))"

section \<open>main\<close>

definition cli_main :: "string \<Rightarrow> string \<Rightarrow> IoFaults \<Rightarrow> ReadFault \<Rightarrow> string list \<Rightarrow> filesystem \<Rightarrow> cli_run" where
  "cli_main ms us io fault argv fs =
     (if length argv < 2 then usage fs
      else let cmd = argv ! 1
           in if cmd = ''register'' then cmd_register io fault argv fs
              else if cmd = ''inspect'' then cmd_inspect fault argv fs
              else if cmd = ''explain'' then cmd_explain fault argv fs
              else if cmd = ''ancestry'' then cmd_ancestry fault argv fs
              else if cmd = ''descend'' then cmd_descend fault argv fs
              else if cmd = ''deps'' then cmd_deps fault argv fs
              else if cmd = ''check-reuse'' then cmd_check_reuse fault argv fs
              else if cmd = ''invalidate'' then cmd_invalidate io fault argv fs
              else if cmd = ''save'' then cmd_save io fault argv fs
              else if cmd = ''recover'' then cmd_recover io fault argv fs
              else if cmd = ''replay'' then cmd_replay fault argv fs
              else if cmd = ''benchmark'' then cmd_benchmark ms us fault argv fs
              else usage fs)"

end
