(* ===== verification/Cli_Sessions.thy ===== *)
theory Cli_Sessions
  imports Cli
begin

text \<open>
  Runs of the command line tool one after the other, through the file they share: what \<^verbatim>\<open>register\<close>
  stored is what \<^verbatim>\<open>inspect\<close> prints, what \<^verbatim>\<open>invalidate\<close> marked \<^verbatim>\<open>check-reuse\<close> refuses, every run ends
  and writes nothing but its own files; and the two cases in which data is lost, an invalidation
  whose save fails and a file that is not readable.
\<close>

section \<open>Loading and saving\<close>

text \<open>The file at a path is a saved state of a consistent store.\<close>

definition stored :: "filesystem \<Rightarrow> string \<Rightarrow> ProvenanceStore \<Rightarrow> bool" where
  "stored fs path s \<longleftrightarrow> store_inv s \<and> lr_snapshot (load_file path No_fault fs) = Some (store_snapshot s)"

lemma load_stored:
  assumes "stored fs path s"
  obtains s' where "load_store path No_fault fs empty_store = Some (Inr (), s')" "store_inv s'"
    "st_records s' = st_records s" "st_status s' = st_status s" "st_graph s' = st_graph s"
    "prov_to_state s' = prov_to_state s"
proof -
  obtain s' where r: "restore (store_snapshot s) empty_store = Some (Inr (), s')" "store_inv s'"
    and s': "s' = s\<lparr>st_authority := persisted_authority s,
      st_runtime_generation := st_runtime_generation empty_store, by_validity := by_validity s'\<rparr>"
    using restore_snapshot_result [of s empty_store] assms by (auto simp: stored_def)
  have "st_records s' = st_records s" "st_status s' = st_status s" "st_graph s' = st_graph s"
    "prov_to_state s' = prov_to_state s"
    by (subst s', simp)+
  with r assms that show thesis by (simp add: load_store_def stored_def)
qed

lemma saved_stored:
  assumes "store_inv s" "store_fits s" "save_file (store_snapshot s) path io fs = (Saved, fs')"
  shows "stored fs' path s"
  using assms load_saved_store by (simp add: stored_def)

lemma with_stored:
  assumes "stored fs path s"
  obtains s' where "with_store path No_fault fs = (\<lambda>body. body s')" "store_inv s'"
    "st_records s' = st_records s" "st_status s' = st_status s" "st_graph s' = st_graph s"
    "prov_to_state s' = prov_to_state s"
proof -
  from load_stored [OF assms] obtain s' where l: "load_store path No_fault fs empty_store = Some (Inr (), s')"
    "store_inv s'" "st_records s' = st_records s" "st_status s' = st_status s" "st_graph s' = st_graph s"
    "prov_to_state s' = prov_to_state s" .
  show thesis by (rule that [of s']) (simp_all add: with_store_def l fun_eq_iff)
qed

text \<open>A path without a usable snapshot is an empty store with the default generations.\<close>

definition fresh_store :: ProvenanceStore where
  "fresh_store = store_roll_state_generation (ScalarIdentifier 1)
     (store_roll_provenance_generation (ScalarIdentifier 1) empty_store)"

lemma fresh_store_facts:
  "store_inv fresh_store" "st_records fresh_store = Mapping.empty" "prov_to_state fresh_store = Mapping.empty"
proof -
  show "store_inv fresh_store"
    using store_inv_empty
    by (auto simp: fresh_store_def store_authority_defs Let_def intro!: store_inv_authority)
  show "st_records fresh_store = Mapping.empty" "prov_to_state fresh_store = Mapping.empty"
    by (simp_all add: fresh_store_def store_authority_defs empty_store_def Let_def)
qed

lemma with_unreadable:
  "lr_snapshot (load_file path fault fs) = None \<Longrightarrow> with_store path fault fs body = body fresh_store"
  by (simp add: with_store_def load_store_def fresh_store_def)

section \<open>Commands on a loaded store\<close>

lemma at_file: "(p # c # file # args) ! 2 = file"
  by simp

lemma register_exit_0:
  assumes s: "store_inv s"
    and w: "with_store file fault fs = (\<lambda>body. body s)"
    and run: "cmd_register io fault (prog # ''register'' # file # args) fs = Some (Exited 0 out err, fs')"
  obtains s' where "store_inv s'" "save_file (store_snapshot s') file io fs = (Saved, fs')"
    "record_ok (args_record (args_loop args (\<lambda>k. None)))"
    "subject_id (args_record (args_loop args (\<lambda>k. None))) \<notin> Mapping.keys (st_records s)"
    "st_records s' = Mapping.update (subject_id (args_record (args_loop args (\<lambda>k. None))))
       (args_record (args_loop args (\<lambda>k. None))) (st_records s)"
proof -
  let ?a = "args_loop args (\<lambda>k. None)"
  let ?d = "args_record ?a"
  have body: "(case publish_from_args ?a s of
       (Inl e, s') \<Rightarrow> Some (Aborted, fs)
     | (Inr (Some err), s') \<Rightarrow> Some (Exited 2 [] (''register failed: '' @ err @ newline), fs)
     | (Inr None, s') \<Rightarrow>
         saving s' file io fs (\<lambda>e. Exited 2 [] (''save failed: '' @ e @ newline))
           (Exited 0 (''registered subject ''
              @ to_string (ScalarIdentifier (strtoull16 (at_arg ?a ''subject'')) :: StateId)
              @ '' (size='' @ dec_string (store_size s') @ '')'' @ newline) []))
     = Some (Exited 0 out err, fs')"
    using run unfolding cmd_register_def at_file by (simp add: w parse_args_def Let_def)
  then obtain s' where p: "publish_from_args ?a s = (Inr None, s')"
    by (cases "publish_from_args ?a s") (auto split: sum.splits option.splits)
  with body have sv: "save_file (store_snapshot s') file io fs = (Saved, fs')"
    by (auto simp: saving_def split: prod.splits save_result.splits)
  have "\<exists>o'. publish_validated ?d s = (Inr o', s') \<and> po_ok o'"
    using p by (auto simp: publish_from_args_def publish_def split: if_splits prod.splits sum.splits)
  then obtain g' where g: "s' = store_record ?d (s\<lparr>st_graph := g'\<rparr>)" "store_inv s'" "record_ok ?d" "insertable ?d s"
    using publish_validated_cases [OF s, of ?d] by (auto simp: failure_def)
  show thesis
    by (rule that [OF g(2) sv g(3)]) (use g in \<open>simp_all add: insertable_def\<close>)
qed

lemma take_2_id [simp]: "take 2 (to_string j) = ''0x''"
  by (simp add: to_string_def)

lemma inspect_json:
  assumes "with_store file fault fs = (\<lambda>body. body s)" "Mapping.lookup (st_records s) i = Some d"
  shows "cmd_inspect fault [prog, ''inspect'', file, to_string i, ''--json''] fs
    = Some (Exited 0 (record_json d @ newline) [], fs)"
  using assms
  by (simp add: cmd_inspect_def query_command_def find_record_def arg_id_def strtoull16_to_string)

text \<open>What a save needs: no string over the bound in the records and the status table.\<close>

definition short_store :: "ProvenanceStore \<Rightarrow> bool" where
  "short_store s \<longleftrightarrow> (\<forall>i d. Mapping.lookup (st_records s) i = Some d \<longrightarrow> record_strings d \<subseteq> short_strings)
     \<and> (\<forall>i st. Mapping.lookup (st_status s) i = Some st \<longrightarrow> rs_detail st \<in> short_strings)"

lemma short_store_iff:
  assumes "store_inv s"
  shows "short_store s \<longleftrightarrow> snapshot_strings (store_snapshot s) \<subseteq> short_strings"
proof -
  have r: "set (sn_records (store_snapshot s)) = {d. \<exists>i. Mapping.lookup (st_records s) i = Some d}"
    using snapshot_records(1) [OF assms] records_wfD(1) assms unfolding store_inv_def by blast
  have e: "set (Mapping.ordered_entries (sn_status (store_snapshot s))) = {(i, st). Mapping.lookup (st_status s) i = Some st}"
    using in_ordered_entries [of _ _ "st_status s"] by (auto simp: store_snapshot_def simp del: set_ordered_entries)
  show ?thesis unfolding short_store_def snapshot_strings_def r e by (simp add: subset_iff image_iff) blast
qed

lemma short_store_encodes:
  assumes "store_inv s" "short_store s"
  shows "encode_snapshot (store_snapshot s) \<noteq> None"
  unfolding encode_snapshot_defined using assms by (simp add: short_store_iff)

lemma two_store_short: "short_store two_store"
  using two_store_fits by (simp add: short_store_iff two_store_inv store_fits_def)

lemma register_runs:
  assumes s: "store_inv s" "short_store s"
    and w: "with_store file fault fs = (\<lambda>body. body s)"
    and a: "has_arg (args_loop args (\<lambda>k. None)) ''subject''"
    and d: "record_ok (args_record (args_loop args (\<lambda>k. None)))" "insertable (args_record (args_loop args (\<lambda>k. None))) s"
      "record_strings (args_record (args_loop args (\<lambda>k. None))) \<subseteq> short_strings"
    and io: "open_ok io" "written io = None" "rename1_ok io"
  shows "\<exists>out fs'. cmd_register io fault (prog # ''register'' # file # args) fs = Some (Exited 0 out [], fs')"
proof -
  let ?a = "args_loop args (\<lambda>k. None)"
  let ?d = "args_record ?a"
  obtain g' where p: "publish_validated ?d s
      = (Inr \<lparr>po_ok = True, po_error = [], po_record = Some ?d\<rparr>, store_record ?d (s\<lparr>st_graph := g'\<rparr>))"
    and inv: "store_inv (store_record ?d (s\<lparr>st_graph := g'\<rparr>))"
    using publish_validated_cases [OF s(1), of ?d] d by auto
  have "record_note ?d \<in> short_strings" using d(3) by (simp add: record_strings_def)
  then have "short_store (store_record ?d (s\<lparr>st_graph := g'\<rparr>))"
    using s(2) d(3) by (auto simp: short_store_def lookup_update' status_of_record_def)
  from short_store_encodes [OF inv this] obtain payload
    where "encode_snapshot (store_snapshot (store_record ?d (s\<lparr>st_graph := g'\<rparr>))) = Some payload" by blast
  then show ?thesis
    using a io p unfolding cmd_register_def at_file
    by (simp add: w parse_args_def publish_from_args_def publish_def saving_def save_file_def Let_def)
qed

lemma two_store_saved:
  obtains fs where "stored fs ''x'' two_store"
proof -
  obtain payload where p: "encode_snapshot (store_snapshot two_store) = Some payload"
    using two_store_encoded by blast
  then have "save_file (store_snapshot two_store) ''x'' ok_io (\<lambda>q. None)
      = (Saved, rename_file (''x'' @ ''.tmp'') ''x'' ((\<lambda>q. None)(''x'' @ ''.tmp'' := Some (file_bytes payload))))"
    by (simp add: save_file_def ok_io_def Let_def)
  from that [OF saved_stored [OF two_store_inv two_store_fits this]] show thesis .
qed

definition demo_args :: "string list" where
  "demo_args = [''--subject'', ''5'', ''--parents'', ''1'']"

lemma strtoull16_digits: "strtoull16 ''5'' = 5" "strtoull16 ''1'' = 1"
proof -
  have "strtoull16 [hex_digit d] = of_nat d" if "d < 16" for d
    using that strtoull16_hex_text(1) [of "[hex_digit d]"] by (auto simp: hex_text_value_def)
  from this [of 5] this [of 1] show "strtoull16 ''5'' = 5" "strtoull16 ''1'' = 1"
    by (simp_all add: hex_digit_def)
qed

lemma demo_record:
  "args_record (args_loop demo_args (\<lambda>k. None)) = empty_record\<lparr>
     provenance_id := ScalarIdentifier 10, provenance_generation := ScalarIdentifier 1,
     subject_id := ScalarIdentifier 5, subject_kind := SK_KVState, state_generation := ScalarIdentifier 1,
     producer_id := ScalarIdentifier 0xA, producer_generation := ScalarIdentifier 1,
     execution_id := ScalarIdentifier 0xE1, attempt_id := ScalarIdentifier 1,
     attempt_generation := ScalarIdentifier 1, input_states := [ScalarIdentifier 1],
     evidence := EV_MEASURED, validity := VS_VALID\<rparr>"
  "has_arg (args_loop demo_args (\<lambda>k. None)) ''subject''"
proof -
  have m: "args_loop demo_args (\<lambda>k. None) = (\<lambda>k. None)(''subject'' := Some ''5'', ''parents'' := Some ''1'')"
    by (simp add: demo_args_def)
  note v = strtoull16_digits
  have "parents_loop ''1'' 0 = [ScalarIdentifier 1]"
    by (simp add: parents_loop.simps find_char_def v)
  then show "args_record (args_loop demo_args (\<lambda>k. None)) = empty_record\<lparr>
     provenance_id := ScalarIdentifier 10, provenance_generation := ScalarIdentifier 1,
     subject_id := ScalarIdentifier 5, subject_kind := SK_KVState, state_generation := ScalarIdentifier 1,
     producer_id := ScalarIdentifier 0xA, producer_generation := ScalarIdentifier 1,
     execution_id := ScalarIdentifier 0xE1, attempt_id := ScalarIdentifier 1,
     attempt_generation := ScalarIdentifier 1, input_states := [ScalarIdentifier 1],
     evidence := EV_MEASURED, validity := VS_VALID\<rparr>"
    by (simp add: args_record_def m v has_arg_def at_arg_def hex_arg_def Let_def)
  show "has_arg (args_loop demo_args (\<lambda>k. None)) ''subject''" by (simp add: m has_arg_def)
qed

lemma demo_record_ok:
  "record_ok (args_record (args_loop demo_args (\<lambda>k. None)))"
  "record_strings (args_record (args_loop demo_args (\<lambda>k. None))) \<subseteq> short_strings"
  unfolding demo_record
  by (simp_all add: record_ok_def empty_record_def record_strings_def short_strings_def)

lemma demo_register_runs:
  assumes "stored fs ''x'' two_store"
  shows "\<exists>out fs'. cmd_register ok_io No_fault (prog # ''register'' # ''x'' # demo_args) fs = Some (Exited 0 out [], fs')"
proof -
  from with_stored [OF assms] obtain t where t: "with_store ''x'' No_fault fs = (\<lambda>body. body t)"
    "store_inv t" "st_records t = st_records two_store" "st_status t = st_status two_store"
    "st_graph t = st_graph two_store" "prov_to_state t = prov_to_state two_store" .
  have "insertable (args_record (args_loop demo_args (\<lambda>k. None))) two_store"
    unfolding demo_record insertable_def two_store_def one_store_def by code_simp
  then have "insertable (args_record (args_loop demo_args (\<lambda>k. None))) t" by (simp add: insertable_def t)
  moreover have "short_store t" using two_store_short by (simp add: short_store_def t)
  ultimately show ?thesis
    using register_runs [OF t(2) _ t(1) demo_record(2) demo_record_ok(1) _ demo_record_ok(2), of ok_io]
    by (simp add: ok_io_def)
qed

lemma invalidate_runs:
  assumes t: "store_inv t" "short_store t"
    and w: "with_store file fault fs = (\<lambda>body. body t)"
    and mem: "ScalarIdentifier (strtoull16 x) \<in> Mapping.keys (st_records t)"
    and io: "open_ok io \<longrightarrow> written io = None \<and> rename1_ok io"
  shows "\<exists>n fs'. cmd_invalidate io fault (prog # ''invalidate'' # file # x # args) fs
      = Some (Exited 0 (''invalidated '' @ dec_string n @ '' subject(s)'' @ newline) [], fs')
    \<and> (\<not> open_ok io \<longrightarrow> fs' = fs)"
proof -
  let ?subj = "invalidation_subject (prog # ''invalidate'' # file # x # args)"
  have subj: "inv_subject ?subj = ScalarIdentifier (strtoull16 x)" "inv_detail ?subj = ''cli''"
    by (simp_all add: invalidation_subject_def arg_id_def Let_def)
  from mem have mem': "inv_subject ?subj \<in> Mapping.keys (st_records t)" by (simp add: subj)
  from invalidate_result [OF t(1) mem'] obtain res s' where r:
    "invalidate ?subj t = Some (\<lparr>io_ok = True, io_error = [], io_result = res\<rparr>, s')"
    "s' = t\<lparr>st_status := st_status s', by_validity := by_validity s'\<rparr>" "store_inv s'"
    "\<forall>j. Mapping.lookup (st_status s') j = (if (inv_subject ?subj, j) \<in> (edges (st_graph t))\<^sup>*
       then Some (invalidated_status ?subj res j (Mapping.lookup_default default_status (st_status t) j))
       else Mapping.lookup (st_status t) j)" by blast
  have "rs_detail (invalidated_status ?subj res j st) \<in> short_strings" for j st
    by (simp add: invalidated_status_def subj short_strings_def kMaxStringLen_def Let_def)
  moreover have "st_records s' = st_records t" by (subst r(2)) simp
  ultimately have "short_store s'" using t(2) r(4) by (auto simp: short_store_def split: if_splits)
  from short_store_encodes [OF r(3) this] obtain payload where "encode_snapshot (store_snapshot s') = Some payload"
    by blast
  then show ?thesis
    using io unfolding cmd_invalidate_def at_file
    by (cases "open_ok io") (auto simp: w r(1) saving_def save_file_def Let_def)
qed

lemma restore_returns [simp]: "restore sn s \<noteq> None"
  using records_in_topo_order_result [of "sn_records sn"] by (auto simp: restore_def Let_def)

lemma load_store_returns: "load_store path fault fs s \<noteq> None"
  using restore_returns by (auto simp: load_store_def simp del: not_None_eq split: option.split)

lemma invalidate_returns: "\<exists>out s'. invalidate subj s = Some (out, s')"
  using propagate_result [of "st_graph s" "[subj]"] by (auto simp: invalidate_def)

lemma save_file_frame:
  assumes "save_file sn path io fs = (r, fs')"
  shows "{p. fs' p \<noteq> fs p} \<subseteq> {path, path @ ''.tmp''}"
  using assms unfolding save_file_def rename_file_def Let_def
  by (auto split: option.splits if_splits Platform.splits)

text \<open>A run that ends and changes at most the files in a set.\<close>

definition ends_within :: "string set \<Rightarrow> filesystem \<Rightarrow> cli_run \<Rightarrow> bool" where
  "ends_within ps fs run \<longleftrightarrow> (\<exists>r fs'. run = Some (r, fs') \<and> {p. fs' p \<noteq> fs p} \<subseteq> ps)"

lemma ends_within_simps [simp]: "ends_within ps fs (Some (r, fs))" "ends_within ps fs (usage fs)"
  by (simp_all add: ends_within_def usage_def)

lemma saving_ends: "ends_within {path, path @ ''.tmp''} fs (saving s path io fs failed finished)"
  using save_file_frame [of "store_snapshot s" path io fs]
  by (auto simp: ends_within_def saving_def split: prod.split save_result.split)

lemma with_store_ends: "(\<And>s. ends_within ps fs (body s)) \<Longrightarrow> ends_within ps fs (with_store path fault fs body)"
  using load_store_returns [of path fault fs empty_store]
  by (auto simp: with_store_def split: sum.split prod.split)

lemma query_ends: "ends_within {} fs (query_command fault argv fs body)"
  by (auto simp: query_command_def intro!: with_store_ends)

lemma commands_end:
  "ends_within {argv ! 2, argv ! 2 @ ''.tmp''} fs (cmd_register io fault argv fs)"
  "ends_within {argv ! 2, argv ! 2 @ ''.tmp''} fs (cmd_invalidate io fault argv fs)"
  "ends_within {argv ! 3, argv ! 3 @ ''.tmp''} fs (cmd_save io fault argv fs)"
  "ends_within {argv ! 3, argv ! 3 @ ''.tmp''} fs (cmd_recover io fault argv fs)"
  "ends_within {} fs (cmd_replay fault argv fs)"
  "ends_within {} fs (cmd_benchmark ms us fault argv fs)"
proof -
  show "ends_within {argv ! 2, argv ! 2 @ ''.tmp''} fs (cmd_register io fault argv fs)"
    by (auto simp: cmd_register_def Let_def saving_ends intro!: with_store_ends
        split: prod.split sum.split option.split)
  show "ends_within {argv ! 2, argv ! 2 @ ''.tmp''} fs (cmd_invalidate io fault argv fs)"
    unfolding cmd_invalidate_def
  proof (simp, intro impI with_store_ends)
    fix s
    obtain out s' where "invalidate (invalidation_subject argv) s = Some (out, s')" using invalidate_returns by blast
    then show "ends_within {argv ! 2, argv ! 2 @ ''.tmp''} fs (case invalidate (invalidation_subject argv) s of
          None \<Rightarrow> None
        | Some (out, s') \<Rightarrow>
            if \<not> io_ok out then Some (Exited 2 [] (''invalidate failed: '' @ io_error out @ newline), fs)
            else
              let finished = Exited 0 (''invalidated '' @ dec_string (length (affected (io_result out)))
                    @ '' subject(s)'' @ newline) []
              in saving s' (argv ! 2) io fs (\<lambda>e. finished) finished)"
      by (simp add: saving_ends Let_def)
  qed
  show "ends_within {argv ! 3, argv ! 3 @ ''.tmp''} fs (cmd_save io fault argv fs)"
    by (auto simp: cmd_save_def saving_ends intro!: with_store_ends)
  show "ends_within {argv ! 3, argv ! 3 @ ''.tmp''} fs (cmd_recover io fault argv fs)"
    by (auto simp: cmd_recover_def Let_def saving_ends split: option.split prod.split sum.split)
  show "ends_within {} fs (cmd_replay fault argv fs)"
    by (auto simp: cmd_replay_def intro!: with_store_ends split: option.split prod.split sum.split)
  show "ends_within {} fs (cmd_benchmark ms us fault argv fs)"
    by (auto simp: cmd_benchmark_def Let_def intro!: with_store_ends split: prod.split sum.split)
qed

lemma two_store_has_1: "ScalarIdentifier (strtoull16 ''1'') \<in> Mapping.keys (st_records two_store)"
  using two_store_facts(1) by (auto simp: strtoull16_digits intro: lookup_in_keys)

lemma demo_invalidate_runs:
  assumes "stored fs ''x'' two_store" "open_ok io \<longrightarrow> written io = None \<and> rename1_ok io"
  shows "\<exists>out fs'. cmd_invalidate io No_fault [''spc'', ''invalidate'', ''x'', ''1''] fs = Some (Exited 0 out [], fs')"
proof -
  from with_stored [OF assms(1)] obtain t where t: "with_store ''x'' No_fault fs = (\<lambda>body. body t)"
    "store_inv t" "st_records t = st_records two_store" "st_status t = st_status two_store"
    "st_graph t = st_graph two_store" "prov_to_state t = prov_to_state two_store" .
  have "short_store t" using two_store_short by (simp add: short_store_def t)
  from invalidate_runs [OF t(2) this t(1) _ assms(2)] t(3) two_store_has_1 show ?thesis by fastforce
qed

lemma lonely_record:
  "input_states (args_record (args_loop [''--subject'', ''5''] (\<lambda>k. None))) = []
    \<and> parent_provenance (args_record (args_loop [''--subject'', ''5''] (\<lambda>k. None))) = []"
  "has_arg (args_loop [''--subject'', ''5''] (\<lambda>k. None)) ''subject''"
  "record_ok (args_record (args_loop [''--subject'', ''5''] (\<lambda>k. None)))"
  "record_strings (args_record (args_loop [''--subject'', ''5''] (\<lambda>k. None))) \<subseteq> short_strings"
  by (simp_all add: args_record_def has_arg_def at_arg_def hex_arg_def strtoull16_digits Let_def
      record_ok_def empty_record_def record_strings_def short_strings_def)

lemma fresh_store_status: "st_status fresh_store = Mapping.empty"
  by (simp add: fresh_store_def store_authority_defs empty_store_def Let_def)

text \<open>A successful \<^verbatim>\<open>invalidate\<close> on a loaded store, and \<^verbatim>\<open>check-reuse\<close> on what it saved.\<close>

lemma invalidate_exit_0:
  assumes t: "store_inv t" and w: "with_store file fault fs = (\<lambda>body. body t)"
    and run: "cmd_invalidate io fault (prog # ''invalidate'' # file # x # args) fs = Some (Exited 0 out err, fs')"
    and io: "open_ok io" "written io = None" "rename1_ok io"
  obtains s' where "store_inv s'" "save_file (store_snapshot s') file io fs = (Saved, fs')"
    "st_records s' = st_records t"
    "\<forall>j. (ScalarIdentifier (strtoull16 x), j) \<in> (edges (st_graph t))\<^sup>* \<longrightarrow> j \<in> Mapping.keys (st_records t)
       \<and> map_option rs_validity (Mapping.lookup (st_status s') j) = Some VS_INVALIDATED"
proof -
  let ?subj = "invalidation_subject (prog # ''invalidate'' # file # x # args)"
  have subj: "inv_subject ?subj = ScalarIdentifier (strtoull16 x)"
    by (simp add: invalidation_subject_def arg_id_def Let_def)
  have mem: "inv_subject ?subj \<in> Mapping.keys (st_records t)"
  proof (rule ccontr)
    assume "inv_subject ?subj \<notin> Mapping.keys (st_records t)"
    with run show False
      unfolding cmd_invalidate_def at_file by (simp add: w invalidate_def)
  qed
  from invalidate_result [OF t mem] obtain res s' where r:
    "invalidate ?subj t = Some (\<lparr>io_ok = True, io_error = [], io_result = res\<rparr>, s')"
    "s' = t\<lparr>st_status := st_status s', by_validity := by_validity s'\<rparr>" "store_inv s'"
    "\<forall>j. Mapping.lookup (st_status s') j = (if (inv_subject ?subj, j) \<in> (edges (st_graph t))\<^sup>*
       then Some (invalidated_status ?subj res j (Mapping.lookup_default default_status (st_status t) j))
       else Mapping.lookup (st_status t) j)" by blast
  have sv: "save_file (store_snapshot s') file io fs = (Saved, fs')"
    using run unfolding cmd_invalidate_def at_file
    by (cases "save_file (store_snapshot s') file io fs")
      (auto simp: w r(1) saving_def Let_def save_file_def io split: option.splits save_result.splits)
  show thesis
  proof (rule that [OF r(3) sv])
    show "st_records s' = st_records t" by (subst r(2)) simp
    show "\<forall>j. (ScalarIdentifier (strtoull16 x), j) \<in> (edges (st_graph t))\<^sup>* \<longrightarrow> j \<in> Mapping.keys (st_records t)
        \<and> map_option rs_validity (Mapping.lookup (st_status s') j) = Some VS_INVALIDATED"
      using reachable_known [OF _ mem, of "st_graph t" "prov_to_state t"] t r(4) by (auto simp: store_inv_def subj)
  qed
qed

lemma check_reuse_invalidated:
  assumes "stored fs file s" "j \<in> Mapping.keys (st_records s)"
    and "map_option rs_validity (Mapping.lookup (st_status s) j) = Some VS_INVALIDATED"
    and "\<not> has_arg (args_loop opts (\<lambda>k. None)) ''json''"
  shows "cmd_check_reuse No_fault (prog # ''check-reuse'' # file # to_string j # opts) fs
    = Some (Exited 0 (''INVALIDATED (subject has been invalidated)'' @ newline) [], fs)"
proof -
  from with_stored [OF assms(1)] obtain u where u: "with_store file No_fault fs = (\<lambda>body. body u)"
    "store_inv u" "st_records u = st_records s" "st_status u = st_status s" "st_graph u = st_graph s"
    "prov_to_state u = prov_to_state s" .
  obtain d where "Mapping.lookup (st_records u) j = Some d" using assms(2) u(3) by (auto simp: lookup_Some_iff)
  with assms(3) have "check_reuse u j q = \<lparr>d_eligibility = RE_INVALIDATED, d_failed_dimensions = [],
      d_reasons = [''subject has been invalidated'']\<rparr>" for q
    by (simp add: check_reuse_def u(4))
  moreover have "name_of_ReuseEligibility RE_INVALIDATED = ''INVALIDATED''" by code_simp
  ultimately show ?thesis
    using assms(4) unfolding cmd_check_reuse_def query_command_def at_file
    by (simp add: u(1) arg_id_def strtoull16_to_string summary_def parse_args_def Let_def)
qed

section \<open>Properties\<close>





text \<open>
  C32: A lost invalidation is reported as done.  When the file cannot be written, \<^verbatim>\<open>invalidate\<close> on a
  known subject of a consistent store still prints that it invalidated the subjects and exits with
  0, while no file changes: the next command finds the subject as it was.
\<close>

theorem lost_invalidation_reported:
  assumes "stored fs file s" "short_store s" "ScalarIdentifier (strtoull16 x) \<in> Mapping.keys (st_records s)"
    and "\<not> open_ok io"
  shows "\<exists>n. cli_main ms us io No_fault (prog # ''invalidate'' # file # x # args) fs
    = Some (Exited 0 (''invalidated '' @ dec_string n @ '' subject(s)'' @ newline) [], fs)"
proof -
  from with_stored [OF assms(1)] obtain t where t: "with_store file No_fault fs = (\<lambda>body. body t)"
    "store_inv t" "st_records t = st_records s" "st_status t = st_status s" "st_graph t = st_graph s"
    "prov_to_state t = prov_to_state s" .
  have "short_store t" using assms(2) by (simp add: short_store_def t)
  with invalidate_runs [OF t(2) _ t(1), of x io prog args] assms(3,4) t(3) show ?thesis
    by (auto simp: cli_main_def)
qed

theorem lost_invalidation_reported_witness:
  "\<exists>fs n. stored fs ''x'' two_store
    \<and> cli_main [] [] (ok_io\<lparr>open_ok := False\<rparr>) No_fault [''spc'', ''invalidate'', ''x'', ''1''] fs
      = Some (Exited 0 (''invalidated '' @ dec_string n @ '' subject(s)'' @ newline) [], fs)"
proof -
  obtain fs where fs: "stored fs ''x'' two_store" by (rule two_store_saved)
  have "\<not> open_ok (ok_io\<lparr>open_ok := False\<rparr>)" by simp
  from lost_invalidation_reported [OF fs two_store_short _ this, of "''1''" "[]" "[]" "''spc''" "[]"] fs
  show ?thesis using two_store_has_1 by blast
qed

text \<open>
  C33: A file that cannot be read as a snapshot (damaged, cut short, of another version) counts as no
  file.  A \<^verbatim>\<open>register\<close> on it that exits with 0 replaces it by a store that holds the new record
  alone: whatever the file held is lost.
\<close>

theorem unreadable_file_replaced:
  assumes "lr_snapshot (load_file file fault fs) = None"
    and "cli_main ms us io fault (prog # ''register'' # file # args) fs = Some (Exited 0 out err, fs')"
  shows "\<exists>d s'. d = args_record (args_loop args (\<lambda>k. None))
    \<and> st_records s' = Mapping.update (subject_id d) d Mapping.empty
    \<and> save_file (store_snapshot s') file io fs = (Saved, fs') \<and> (store_fits s' \<longrightarrow> stored fs' file s')"
proof -
  let ?d = "args_record (args_loop args (\<lambda>k. None))"
  have w: "with_store file fault fs = (\<lambda>body. body fresh_store)"
    using with_unreadable [OF assms(1)] by (simp add: fun_eq_iff)
  have run: "cmd_register io fault (prog # ''register'' # file # args) fs = Some (Exited 0 out err, fs')"
    using assms(2) by (simp add: cli_main_def)
  from register_exit_0 [OF fresh_store_facts(1) w run] obtain s' where s': "store_inv s'"
    "save_file (store_snapshot s') file io fs = (Saved, fs')" "record_ok ?d"
    "subject_id ?d \<notin> Mapping.keys (st_records fresh_store)"
    "st_records s' = Mapping.update (subject_id ?d) ?d (st_records fresh_store)" .
  with saved_stored [OF s'(1) _ s'(2)] show ?thesis
    by (intro exI [of _ ?d] exI [of _ s']) (simp add: fresh_store_facts)
qed

theorem unreadable_file_replaced_witness:
  "\<exists>out fs'. cli_main [] [] ok_io No_fault [''spc'', ''register'', ''x'', ''--subject'', ''5''] ((\<lambda>p. None)(''x'' := Some [1, 2, 3]))
      = Some (Exited 0 out [], fs')
    \<and> (\<exists>d s'. st_records s' = Mapping.update (subject_id d) d Mapping.empty \<and> (store_fits s' \<longrightarrow> stored fs' ''x'' s'))"
proof -
  let ?fs = "(\<lambda>p. None)(''x'' := Some [1, 2, 3]) :: filesystem"
  have bad: "lr_snapshot (load_file ''x'' No_fault ?fs) = None"
    by (simp add: load_file_def load_bytes_def load_failed_def)
  then have w: "with_store ''x'' No_fault ?fs = (\<lambda>body. body fresh_store)"
    using with_unreadable by (simp add: fun_eq_iff)
  have "short_store fresh_store" "insertable (args_record (args_loop [''--subject'', ''5''] (\<lambda>k. None))) fresh_store"
    using fresh_store_facts lonely_record(1) by (auto simp: short_store_def insertable_def fresh_store_status)
  then have "\<exists>out fs'. cmd_register ok_io No_fault [''spc'', ''register'', ''x'', ''--subject'', ''5''] ?fs
      = Some (Exited 0 out [], fs')"
    by (intro register_runs [OF fresh_store_facts(1) _ w lonely_record(2) lonely_record(3) _ lonely_record(4)])
      (simp_all add: ok_io_def)
  then obtain out fs' where "cmd_register ok_io No_fault [''spc'', ''register'', ''x'', ''--subject'', ''5''] ?fs
      = Some (Exited 0 out [], fs')" by blast
  then have "cli_main [] [] ok_io No_fault [''spc'', ''register'', ''x'', ''--subject'', ''5''] ?fs = Some (Exited 0 out [], fs')"
    by (simp add: cli_main_def)
  from unreadable_file_replaced [OF bad this] this show ?thesis by blast
qed

text \<open>The files a run may write: the file it was given, or the second one, and its temporary file.\<close>

definition written_paths :: "string list \<Rightarrow> string set" where
  "written_paths argv =
     (if length argv < 2 then {}
      else if argv ! 1 \<in> {''register'', ''invalidate''} then {argv ! 2, argv ! 2 @ ''.tmp''}
      else if argv ! 1 \<in> {''save'', ''recover''} then {argv ! 3, argv ! 3 @ ''.tmp''}
      else {})"

text \<open>
  C31: Every run of the tool ends, whatever its arguments, the bytes of the files and the faults of
  the system are, and it changes no file but the one it is told to write and that file's temporary;
  the queries, \<^verbatim>\<open>replay\<close> and \<^verbatim>\<open>benchmark\<close> change none.
\<close>

theorem runs_end_within_their_files:
  "\<exists>r fs'. cli_main ms us io fault argv fs = Some (r, fs') \<and> {p. fs' p \<noteq> fs p} \<subseteq> written_paths argv"
proof -
  note queries = query_ends [of fs fault argv]
  have "ends_within (written_paths argv) fs (cli_main ms us io fault argv fs)"
    unfolding cli_main_def written_paths_def Let_def
    by (simp add: commands_end cmd_inspect_def cmd_explain_def cmd_ancestry_def cmd_descend_def cmd_deps_def
        cmd_check_reuse_def queries)
  then show ?thesis by (simp add: ends_within_def)
qed

end
