(* ===== verification/Record_Builder.thy ===== *)
theory Record_Builder
  imports Provenance_Record
begin

text \<open>
  \<^verbatim>\<open>RecordBuilder\<close> of \<^verbatim>\<open>record.hpp\<close>: chained calls that fill a record field by field, and the checked
  ends \<^verbatim>\<open>build\<close> (which throws) and \<^verbatim>\<open>try_build\<close>.  A chain is the list of its calls; it starts from
  the default record.  The theory shows that the last call of a setter decides its field whatever
  the order of the others, and that the builder yields exactly the valid records.
\<close>

section \<open>Calls\<close>

definition builder_provenance_id :: "ProvenanceId \<Rightarrow> RecordData \<Rightarrow> RecordData" where
  "builder_provenance_id v d = d\<lparr>provenance_id := v\<rparr>"

definition builder_provenance_generation :: "ProvenanceGeneration \<Rightarrow> RecordData \<Rightarrow> RecordData" where
  "builder_provenance_generation v d = d\<lparr>provenance_generation := v\<rparr>"

definition builder_subject_id :: "StateId \<Rightarrow> RecordData \<Rightarrow> RecordData" where
  "builder_subject_id v d = d\<lparr>subject_id := v\<rparr>"

definition builder_subject_kind :: "SubjectKind \<Rightarrow> RecordData \<Rightarrow> RecordData" where
  "builder_subject_kind v d = d\<lparr>subject_kind := v\<rparr>"

definition builder_state_generation :: "StateGeneration \<Rightarrow> RecordData \<Rightarrow> RecordData" where
  "builder_state_generation v d = d\<lparr>state_generation := v\<rparr>"

definition builder_producer_id :: "ProducerId \<Rightarrow> RecordData \<Rightarrow> RecordData" where
  "builder_producer_id v d = d\<lparr>producer_id := v\<rparr>"

definition builder_producer_generation :: "ProducerGeneration \<Rightarrow> RecordData \<Rightarrow> RecordData" where
  "builder_producer_generation v d = d\<lparr>producer_generation := v\<rparr>"

definition builder_execution_id :: "ExecutionId \<Rightarrow> RecordData \<Rightarrow> RecordData" where
  "builder_execution_id v d = d\<lparr>execution_id := v\<rparr>"

definition builder_attempt_id :: "AttemptId \<Rightarrow> RecordData \<Rightarrow> RecordData" where
  "builder_attempt_id v d = d\<lparr>attempt_id := v\<rparr>"

definition builder_attempt_generation :: "AttemptGeneration \<Rightarrow> RecordData \<Rightarrow> RecordData" where
  "builder_attempt_generation v d = d\<lparr>attempt_generation := v\<rparr>"

definition builder_created_at :: "i64 \<Rightarrow> RecordData \<Rightarrow> RecordData" where
  "builder_created_at v d = d\<lparr>created_at := v\<rparr>"

definition builder_model_id :: "ModelId \<Rightarrow> RecordData \<Rightarrow> RecordData" where
  "builder_model_id v d = d\<lparr>model_id := v\<rparr>"

definition builder_model_generation :: "ModelGeneration \<Rightarrow> RecordData \<Rightarrow> RecordData" where
  "builder_model_generation v d = d\<lparr>model_generation := v\<rparr>"

definition builder_model_revision :: "string \<Rightarrow> RecordData \<Rightarrow> RecordData" where
  "builder_model_revision v d = d\<lparr>model_revision := v\<rparr>"

definition builder_tokenizer :: "string \<Rightarrow> RecordData \<Rightarrow> RecordData" where
  "builder_tokenizer v d = d\<lparr>tokenizer := v\<rparr>"

definition builder_adapter_id :: "AdapterId \<Rightarrow> RecordData \<Rightarrow> RecordData" where
  "builder_adapter_id v d = d\<lparr>adapter_id := v\<rparr>"

definition builder_adapter_generation :: "AdapterGeneration \<Rightarrow> RecordData \<Rightarrow> RecordData" where
  "builder_adapter_generation v d = d\<lparr>adapter_generation := v\<rparr>"

definition builder_adapter_revision :: "string \<Rightarrow> RecordData \<Rightarrow> RecordData" where
  "builder_adapter_revision v d = d\<lparr>adapter_revision := v\<rparr>"

definition builder_composition_id :: "CompositionId \<Rightarrow> RecordData \<Rightarrow> RecordData" where
  "builder_composition_id v d = d\<lparr>composition_id := v\<rparr>"

definition builder_composition_generation :: "CompositionGeneration \<Rightarrow> RecordData \<Rightarrow> RecordData" where
  "builder_composition_generation v d = d\<lparr>composition_generation := v\<rparr>"

definition builder_composition_fingerprint :: "string \<Rightarrow> RecordData \<Rightarrow> RecordData" where
  "builder_composition_fingerprint v d = d\<lparr>composition_fingerprint := v\<rparr>"

definition builder_runtime_id :: "RuntimeId \<Rightarrow> RecordData \<Rightarrow> RecordData" where
  "builder_runtime_id v d = d\<lparr>runtime_id := v\<rparr>"

definition builder_runtime_generation :: "RuntimeGeneration \<Rightarrow> RecordData \<Rightarrow> RecordData" where
  "builder_runtime_generation v d = d\<lparr>runtime_generation := v\<rparr>"

definition builder_artifact_generation :: "ArtifactGeneration \<Rightarrow> RecordData \<Rightarrow> RecordData" where
  "builder_artifact_generation v d = d\<lparr>artifact_generation := v\<rparr>"

definition builder_backend_id :: "BackendId \<Rightarrow> RecordData \<Rightarrow> RecordData" where
  "builder_backend_id v d = d\<lparr>backend_id := v\<rparr>"

definition builder_toolchain_id :: "ToolchainId \<Rightarrow> RecordData \<Rightarrow> RecordData" where
  "builder_toolchain_id v d = d\<lparr>toolchain_id := v\<rparr>"

definition builder_device_id :: "DeviceId \<Rightarrow> RecordData \<Rightarrow> RecordData" where
  "builder_device_id v d = d\<lparr>device_id := v\<rparr>"

definition builder_architecture :: "string \<Rightarrow> RecordData \<Rightarrow> RecordData" where
  "builder_architecture v d = d\<lparr>architecture := v\<rparr>"

definition builder_compute_capability :: "string \<Rightarrow> RecordData \<Rightarrow> RecordData" where
  "builder_compute_capability v d = d\<lparr>compute_capability := v\<rparr>"

definition builder_abi :: "string \<Rightarrow> RecordData \<Rightarrow> RecordData" where
  "builder_abi v d = d\<lparr>abi := v\<rparr>"

definition builder_dtype :: "string \<Rightarrow> RecordData \<Rightarrow> RecordData" where
  "builder_dtype v d = d\<lparr>dtype := v\<rparr>"

definition builder_layout :: "string \<Rightarrow> RecordData \<Rightarrow> RecordData" where
  "builder_layout v d = d\<lparr>layout := v\<rparr>"

definition builder_shape :: "string \<Rightarrow> RecordData \<Rightarrow> RecordData" where
  "builder_shape v d = d\<lparr>shape := v\<rparr>"

definition builder_input_states :: "StateId list \<Rightarrow> RecordData \<Rightarrow> RecordData" where
  "builder_input_states v d = d\<lparr>input_states := v\<rparr>"

definition builder_add_input_state :: "StateId \<Rightarrow> RecordData \<Rightarrow> RecordData" where
  "builder_add_input_state v d = d\<lparr>input_states := input_states d @ [v]\<rparr>"

definition builder_parent_provenance :: "ProvenanceId list \<Rightarrow> RecordData \<Rightarrow> RecordData" where
  "builder_parent_provenance v d = d\<lparr>parent_provenance := v\<rparr>"

definition builder_add_parent :: "ProvenanceId \<Rightarrow> RecordData \<Rightarrow> RecordData" where
  "builder_add_parent v d = d\<lparr>parent_provenance := parent_provenance d @ [v]\<rparr>"

definition builder_dependencies :: "Dependency list \<Rightarrow> RecordData \<Rightarrow> RecordData" where
  "builder_dependencies v d = d\<lparr>dependencies := v\<rparr>"

definition builder_add_dependency :: "Dependency \<Rightarrow> RecordData \<Rightarrow> RecordData" where
  "builder_add_dependency v d = d\<lparr>dependencies := dependencies d @ [v]\<rparr>"

definition builder_requirements :: "CompatibilityRequirement list \<Rightarrow> RecordData \<Rightarrow> RecordData" where
  "builder_requirements v d = d\<lparr>requirements := v\<rparr>"

definition builder_add_requirement :: "CompatibilityRequirement \<Rightarrow> RecordData \<Rightarrow> RecordData" where
  "builder_add_requirement v d = d\<lparr>requirements := requirements d @ [v]\<rparr>"

definition builder_policy_id :: "PolicyId \<Rightarrow> RecordData \<Rightarrow> RecordData" where
  "builder_policy_id v d = d\<lparr>policy_id := v\<rparr>"

definition builder_policy_generation :: "PolicyGeneration \<Rightarrow> RecordData \<Rightarrow> RecordData" where
  "builder_policy_generation v d = d\<lparr>policy_generation := v\<rparr>"

definition builder_policy_fingerprint :: "string \<Rightarrow> RecordData \<Rightarrow> RecordData" where
  "builder_policy_fingerprint v d = d\<lparr>policy_fingerprint := v\<rparr>"

definition builder_content_digest :: "string \<Rightarrow> RecordData \<Rightarrow> RecordData" where
  "builder_content_digest v d = d\<lparr>content_digest := v\<rparr>"

definition builder_coordinator_epoch :: "u64 \<Rightarrow> RecordData \<Rightarrow> RecordData" where
  "builder_coordinator_epoch v d = d\<lparr>coordinator_epoch := v\<rparr>"

definition builder_worker_id :: "WorkerId \<Rightarrow> RecordData \<Rightarrow> RecordData" where
  "builder_worker_id v d = d\<lparr>worker_id := v\<rparr>"

definition builder_worker_boot :: "WorkerBootId \<Rightarrow> RecordData \<Rightarrow> RecordData" where
  "builder_worker_boot v d = d\<lparr>worker_boot := v\<rparr>"

definition builder_evidence :: "EvidenceClass \<Rightarrow> RecordData \<Rightarrow> RecordData" where
  "builder_evidence v d = d\<lparr>evidence := v\<rparr>"

definition builder_validity :: "ValidityState \<Rightarrow> RecordData \<Rightarrow> RecordData" where
  "builder_validity v d = d\<lparr>validity := v\<rparr>"

definition builder_invalidation_reason :: "InvalidationReason \<Rightarrow> RecordData \<Rightarrow> RecordData" where
  "builder_invalidation_reason v d = d\<lparr>invalidation_reason := v\<rparr>"

definition builder_reuse_eligibility :: "ReuseEligibility \<Rightarrow> RecordData \<Rightarrow> RecordData" where
  "builder_reuse_eligibility v d = d\<lparr>reuse_eligibility := v\<rparr>"

definition builder_note :: "string \<Rightarrow> RecordData \<Rightarrow> RecordData" where
  "builder_note v d = d\<lparr>record_note := v\<rparr>"

definition builder_data :: "RecordData \<Rightarrow> RecordData \<Rightarrow> RecordData" where
  "builder_data v d = v"

definition run_calls :: "(RecordData \<Rightarrow> RecordData) list \<Rightarrow> RecordData" where
  "run_calls calls = fold (\<lambda>f. f) calls empty_record"

section \<open>Building\<close>

definition builder_error :: "RecordData \<Rightarrow> string option" where
  "builder_error d = validate_record d"

text \<open>The left side is the message of the \<^verbatim>\<open>invalid_argument\<close> that is thrown.\<close>

definition build :: "RecordData \<Rightarrow> string + RecordData" where
  "build d = (case validate_record d of
     Some e \<Rightarrow> Inl (''invalid provenance record: '' @ e)
   | None \<Rightarrow> Inr d)"

definition try_build :: "RecordData \<Rightarrow> RecordData option" where
  "try_build d = (if validate_record d \<noteq> None then None else Some d)"

text \<open>One setter call for every field of a record.\<close>

definition setter_calls :: "RecordData \<Rightarrow> (RecordData \<Rightarrow> RecordData) list" where
  "setter_calls d =
    [builder_provenance_id (provenance_id d),
     builder_provenance_generation (provenance_generation d),
     builder_subject_id (subject_id d),
     builder_subject_kind (subject_kind d),
     builder_state_generation (state_generation d),
     builder_producer_id (producer_id d),
     builder_producer_generation (producer_generation d),
     builder_execution_id (execution_id d),
     builder_attempt_id (attempt_id d),
     builder_attempt_generation (attempt_generation d),
     builder_created_at (created_at d),
     builder_model_id (model_id d),
     builder_model_generation (model_generation d),
     builder_model_revision (model_revision d),
     builder_tokenizer (tokenizer d),
     builder_adapter_id (adapter_id d),
     builder_adapter_generation (adapter_generation d),
     builder_adapter_revision (adapter_revision d),
     builder_composition_id (composition_id d),
     builder_composition_generation (composition_generation d),
     builder_composition_fingerprint (composition_fingerprint d),
     builder_runtime_id (runtime_id d),
     builder_runtime_generation (runtime_generation d),
     builder_artifact_generation (artifact_generation d),
     builder_backend_id (backend_id d),
     builder_toolchain_id (toolchain_id d),
     builder_device_id (device_id d),
     builder_architecture (architecture d),
     builder_compute_capability (compute_capability d),
     builder_abi (abi d),
     builder_dtype (dtype d),
     builder_layout (layout d),
     builder_shape (shape d),
     builder_input_states (input_states d),
     builder_parent_provenance (parent_provenance d),
     builder_dependencies (dependencies d),
     builder_requirements (requirements d),
     builder_policy_id (policy_id d),
     builder_policy_generation (policy_generation d),
     builder_policy_fingerprint (policy_fingerprint d),
     builder_content_digest (content_digest d),
     builder_coordinator_epoch (coordinator_epoch d),
     builder_worker_id (worker_id d),
     builder_worker_boot (worker_boot d),
     builder_evidence (evidence d),
     builder_validity (validity d),
     builder_invalidation_reason (invalidation_reason d),
     builder_reuse_eligibility (reuse_eligibility d),
     builder_note (record_note d)]"

section \<open>Properties\<close>

lemma fold_setter_calls: "fold (\<lambda>f. f) (setter_calls d) e = d"
  unfolding setter_calls_def by (simp add: builder_provenance_id_def builder_provenance_generation_def builder_subject_id_def builder_subject_kind_def builder_state_generation_def builder_producer_id_def builder_producer_generation_def builder_execution_id_def builder_attempt_id_def builder_attempt_generation_def builder_created_at_def builder_model_id_def builder_model_generation_def builder_model_revision_def builder_tokenizer_def builder_adapter_id_def builder_adapter_generation_def builder_adapter_revision_def builder_composition_id_def builder_composition_generation_def builder_composition_fingerprint_def builder_runtime_id_def builder_runtime_generation_def builder_artifact_generation_def builder_backend_id_def builder_toolchain_id_def builder_device_id_def builder_architecture_def builder_compute_capability_def builder_abi_def builder_dtype_def builder_layout_def builder_shape_def builder_input_states_def builder_parent_provenance_def builder_dependencies_def builder_requirements_def builder_policy_id_def builder_policy_generation_def builder_policy_fingerprint_def builder_content_digest_def builder_coordinator_epoch_def builder_worker_id_def builder_worker_boot_def builder_evidence_def builder_validity_def builder_invalidation_reason_def builder_reuse_eligibility_def builder_note_def)

text \<open>
  The builder is complete and checked: a chain that calls every setter with the fields of a record
  gives that record, from whatever the builder held before, and every end of a chain agrees on
  which records it lets through, the valid ones, unchanged.
\<close>

theorem builder_builds_valid_records:
  "run_calls (calls @ setter_calls d) = d
    \<and> (build (run_calls (calls @ setter_calls d)) = Inr d \<longleftrightarrow> record_ok d)
    \<and> (try_build d = Some d \<longleftrightarrow> record_ok d)
    \<and> (\<forall>c r. build (run_calls c) = Inr r \<longleftrightarrow> r = run_calls c \<and> record_ok r)
    \<and> (\<forall>c. builder_error (run_calls c) = None \<longleftrightarrow> record_ok (run_calls c))"
proof -
  have b: "build e = Inr r \<longleftrightarrow> r = e \<and> record_ok r" for e r
    using validate_record_None_iff [of e] by (auto simp: build_def split: option.splits)
  have t: "try_build e = Some e \<longleftrightarrow> record_ok e" for e
    using validate_record_None_iff [of e] by (auto simp: try_build_def)
  show ?thesis
    by (simp add: run_calls_def fold_setter_calls b t builder_error_def validate_record_None_iff)
qed

end
