(* ===== verification/Socket_Setup.thy ===== *)
theory Socket_Setup
  imports Coordinator Cli_Sessions "HOL-Library.Signed_Division"
begin

text \<open>
  The socket primitives of \<^verbatim>\<open>protocol.hpp\<close> that open and close connections, and \<^verbatim>\<open>main\<close> of
  \<^verbatim>\<open>coordinator.cpp\<close> up to its accept loop.  What the system calls answer is a \<open>NetEnv\<close>; the state is
  the table of the open handles and of those that do not block.  Sending and receiving are in
  \<open>Protocol\<close>.  The theory shows that every failure closes what it opened.
\<close>

unbundle bit_operations_syntax

section \<open>System calls\<close>

type_synonym u16 = "16 word"
type_synonym i32 = "32 word"

datatype connect_answer = Connect_done | Connect_pending | Connect_failed

record NetEnv =
  ne_init :: bool
  ne_socket :: u64
  ne_literal :: "string \<Rightarrow> bool"
  ne_resolves :: "string \<Rightarrow> bool"
  ne_connect :: "string \<Rightarrow> u16 \<Rightarrow> connect_answer"
  ne_select :: "int \<times> int \<Rightarrow> int"
  ne_so_error :: int
  ne_bind :: "u16 \<Rightarrow> bool"
  ne_listen :: bool
  ne_sock_name :: "u16 option"
  ne_accept :: u64

record Handles =
  hs_open :: "u64 set"
  hs_nonblocking :: "u64 set"

definition invalid_socket :: u64 where "invalid_socket = - 1"

definition open_handle :: "u64 \<Rightarrow> Handles \<Rightarrow> Handles" where
  "open_handle s t = t\<lparr>hs_open := insert s (hs_open t)\<rparr>"

definition closesocket :: "u64 \<Rightarrow> Handles \<Rightarrow> Handles" where
  "closesocket s t = t\<lparr>hs_open := hs_open t - {s}, hs_nonblocking := hs_nonblocking t - {s}\<rparr>"

definition set_nonblocking :: "bool \<Rightarrow> u64 \<Rightarrow> Handles \<Rightarrow> Handles" where
  "set_nonblocking on s t = t\<lparr>hs_nonblocking := if on then insert s (hs_nonblocking t) else hs_nonblocking t - {s}\<rparr>"

text \<open>Host to network order and back on a little-endian machine.\<close>

definition htons :: "u16 \<Rightarrow> u16" where
  "htons p = push_bit 8 p OR drop_bit 8 p"

section \<open>Socket primitives\<close>

definition net_init :: "Platform \<Rightarrow> NetEnv \<Rightarrow> bool" where
  "net_init pf env \<longleftrightarrow> pf \<noteq> Windows \<or> ne_init env"

definition close_socket :: "i32 \<Rightarrow> Handles \<Rightarrow> Handles" where
  "close_socket s t = (if 0 \<le> sint s then closesocket (ucast s) t else t)"

definition listen_socket :: "Platform \<Rightarrow> NetEnv \<Rightarrow> u16 \<Rightarrow> Handles \<Rightarrow> i32 \<times> Handles" where
  "listen_socket pf env port t =
     (if pf \<noteq> Windows then (- 1, t)
      else let ls = ne_socket env
      in if ls = invalid_socket then (- 1, t)
         else let t = open_handle ls t
         in if \<not> ne_bind env (htons port) then (- 1, closesocket ls t)
            else if \<not> ne_listen env then (- 1, closesocket ls t)
            else (ucast ls, t))"

definition local_port :: "Platform \<Rightarrow> NetEnv \<Rightarrow> i32 \<Rightarrow> u16" where
  "local_port pf env ls =
     (if pf \<noteq> Windows then 0
      else case ne_sock_name env of None \<Rightarrow> 0 | Some p \<Rightarrow> htons p)"

definition accept_conn :: "Platform \<Rightarrow> NetEnv \<Rightarrow> i32 \<Rightarrow> Handles \<Rightarrow> i32 \<times> Handles" where
  "accept_conn pf env ls t =
     (if pf \<noteq> Windows then (- 1, t)
      else let c = ne_accept env
      in if c = invalid_socket then (- 1, t) else (ucast c, open_handle c t))"

definition connect_socket :: "Platform \<Rightarrow> NetEnv \<Rightarrow> string \<Rightarrow> u16 \<Rightarrow> int \<Rightarrow> Handles \<Rightarrow> i32 \<times> Handles" where
  "connect_socket pf env host port timeout_ms t =
     (if pf \<noteq> Windows then (- 1, t)
      else let s = ne_socket env
      in if s = invalid_socket then (- 1, t)
         else let t = set_nonblocking True s (open_handle s t)
         in if \<not> ne_literal env host \<and> \<not> ne_resolves env host then (- 1, closesocket s t)
            else case ne_connect env host (htons port) of
                Connect_failed \<Rightarrow> (- 1, closesocket s t)
              | Connect_pending \<Rightarrow>
                  if ne_select env (timeout_ms sdiv 1000, (timeout_ms smod 1000) * 1000) \<le> 0
                  then (- 1, closesocket s t)
                  else if ne_so_error env \<noteq> 0 then (- 1, closesocket s t)
                  else (ucast s, set_nonblocking False s t)
              | Connect_done \<Rightarrow> (ucast s, set_nonblocking False s t))"

section \<open>The start of the coordinator\<close>

text \<open>\<^verbatim>\<open>%d\<close> of an \<^verbatim>\<open>int\<close>, which also \<^verbatim>\<open>std::to_string\<close> prints.\<close>

definition int_text :: "int \<Rightarrow> string" where
  "int_text i = (if i < 0 then ''-'' @ dec_string (nat (- i)) else dec_string (nat i))"

datatype coordinator_run =
    Coord_exit nat string
  | Coord_threw
  | Coord_listening i32 u16 Coordinator

text \<open>
  \<^verbatim>\<open>main\<close> on the arguments after the program name, up to the accept loop: the listening socket, the
  port it prints after \<^verbatim>\<open>LISTENING\<close> and the state it serves, or the exit code with what it printed.
\<close>

definition loaded_lines :: "Coordinator \<Rightarrow> string" where
  "loaded_lines c = concat (map (\<lambda>l. l @ newline) (co_log c))"

definition coordinator_main ::
  "Platform \<Rightarrow> NetEnv \<Rightarrow> ReadFault \<Rightarrow> string list \<Rightarrow> filesystem \<Rightarrow> Handles \<Rightarrow> (coordinator_run \<times> Handles) option" where
  "coordinator_main pf env fault args fs t =
     (if length args < 1
      then Some (Coord_exit 2 (''usage: sp_coordinator <listen_port> [snapshot] [load]'' @ newline), t)
      else if \<not> net_init pf env then Some (Coord_exit 1 (''WSAStartup failed'' @ newline), t)
      else
        let port = atoi (args ! 0);
            snapshot = (if 3 \<le> length args \<and> args ! 2 = ''load'' then Some (args ! 1) else None)
        in case start_coordinator snapshot fault fs of
             None \<Rightarrow> None
           | Some (Startup_exit n) \<Rightarrow>
               Some (Coord_exit n (''load failed: '' @ lr_error (load_file (args ! 1) fault fs) @ newline), t)
           | Some Startup_threw \<Rightarrow> Some (Coord_threw, t)
           | Some (Serving c) \<Rightarrow>
               (case listen_socket pf env (word_of_int port) t of
                  (ls, t) \<Rightarrow>
                    if sint ls < 0
                    then Some (Coord_exit 1 (loaded_lines c @ ''cannot listen on port '' @ int_text port @ newline), t)
                    else Some (Coord_listening ls (local_port pf env ls) c, t)))"

text \<open>
  What has been printed, on both streams, when \<^verbatim>\<open>main\<close> has ended or waits for connections.  An
  uncaught exception is reported by the runtime system, not by the program.
\<close>

fun coordinator_output :: "coordinator_run \<Rightarrow> string" where
  "coordinator_output (Coord_exit n msg) = msg"
| "coordinator_output Coord_threw = []"
| "coordinator_output (Coord_listening ls port c) = loaded_lines c @ ''LISTENING '' @ dec_string (unat port) @ newline"

text \<open>The end of \<^verbatim>\<open>main\<close>, after the accept loop.\<close>

definition coordinator_end :: "i32 \<Rightarrow> Coordinator \<Rightarrow> Handles \<Rightarrow> nat \<times> string \<times> Handles" where
  "coordinator_end ls c t =
     (0, ''COORD_EXIT accepted='' @ signed_text (co_accepted c) @ '' rejected='' @ signed_text (co_rejected c),
      close_socket ls t)"

section \<open>Lemmas\<close>

definition handles_ok :: "Handles \<Rightarrow> bool" where
  "handles_ok t \<longleftrightarrow> hs_nonblocking t \<subseteq> hs_open t"

text \<open>A handle the system returns is new, and Windows handles have 31 significant bits.\<close>

definition new_handle :: "u64 \<Rightarrow> Handles \<Rightarrow> bool" where
  "new_handle s t \<longleftrightarrow> s \<notin> hs_open t \<and> (s = invalid_socket \<or> unat s < 2 ^ 31)"

lemma htons_inverse [simp]: "htons (htons p) = p"
  by (rule bit_word_eqI) (auto simp: htons_def bit_simps)

lemma close_new:
  "handles_ok t \<Longrightarrow> s \<notin> hs_open t \<Longrightarrow> closesocket s (open_handle s t) = t"
  "handles_ok t \<Longrightarrow> s \<notin> hs_open t \<Longrightarrow> closesocket s (set_nonblocking b s (open_handle s t)) = t"
  by (cases t; auto simp: handles_ok_def closesocket_def open_handle_def set_nonblocking_def)+

lemma blocking_new:
  "handles_ok t \<Longrightarrow> s \<notin> hs_open t \<Longrightarrow> set_nonblocking False s (set_nonblocking True s (open_handle s t)) = open_handle s t"
  by (cases t; auto simp: handles_ok_def open_handle_def set_nonblocking_def)

lemma small_handle:
  assumes "unat s < 2 ^ 31"
  shows "0 \<le> sint (ucast s :: i32)" "(ucast (ucast s :: i32) :: u64) = s"
proof -
  have t: "take_bit 32 (unat s) = unat s" by (rule take_bit_nat_eq_self) (use assms in simp)
  have u: "unat (ucast s :: i32) = unat s" by (simp add: unsigned_ucast_eq unsigned_take_bit_eq t)
  have "unat (ucast (ucast s :: i32) :: u64) = unat (ucast s :: i32)"
    by (simp add: unsigned_ucast_eq unsigned_take_bit_eq take_bit_word_eq_self)
  with u show "(ucast (ucast s :: i32) :: u64) = s" by (metis word_unat_eq_iff)
  have "uint (ucast s :: i32) < 2 ^ 31" using u assms by (metis nat_less_numeral_power_cancel_iff unat_eq_nat_uint)
  then show "0 \<le> sint (ucast s :: i32)" by (simp add: sint_uint signed_take_bit_eq_if_positive bit_iff_odd)
qed

text \<open>How each primitive ends.\<close>

definition opened :: "Handles \<Rightarrow> u64 \<Rightarrow> i32 \<times> Handles \<Rightarrow> bool" where
  "opened t s out \<longleftrightarrow> out = (- 1, t) \<or> s \<noteq> invalid_socket \<and> out = (ucast s, open_handle s t)"

lemma connect_opened:
  assumes "handles_ok t" "new_handle (ne_socket env) t"
  shows "opened t (ne_socket env) (connect_socket pf env host port ms t)"
  using assms close_new(2) [of t "ne_socket env" True] blocking_new [of t "ne_socket env"]
  by (auto simp: opened_def connect_socket_def new_handle_def Let_def split: connect_answer.split)

lemma listen_opened:
  assumes "handles_ok t" "new_handle (ne_socket env) t"
  shows "opened t (ne_socket env) (listen_socket pf env port t)"
  using assms close_new(1) [of t "ne_socket env"]
  by (auto simp: opened_def listen_socket_def new_handle_def Let_def)

lemma accept_opened: "opened t (ne_accept env) (accept_conn pf env ls t)"
  by (auto simp: opened_def accept_conn_def Let_def)

lemma opened_closes:
  assumes "handles_ok t" "new_handle s t" "opened t s (r, t')"
  shows "sint r < 0 \<longleftrightarrow> r = - 1" "r = - 1 \<Longrightarrow> t' = t"
    "r \<noteq> - 1 \<Longrightarrow> hs_open t' = insert s (hs_open t) \<and> s \<notin> hs_nonblocking t' \<and> close_socket r t' = t"
proof -
  have m: "sint (- 1 :: i32) = - 1" by simp
  consider "r = - 1" "t' = t" | "unat s < 2 ^ 31" "r = ucast s" "t' = open_handle s t" "s \<notin> hs_open t"
    using assms(2,3) by (auto simp: opened_def new_handle_def)
  then have "(sint r < 0 \<longleftrightarrow> r = - 1) \<and> (r = - 1 \<longrightarrow> t' = t)
      \<and> (r \<noteq> - 1 \<longrightarrow> hs_open t' = insert s (hs_open t) \<and> s \<notin> hs_nonblocking t' \<and> close_socket r t' = t)"
  proof cases
    case 2
    note h = small_handle [OF 2(1)]
    then have "r \<noteq> - 1" using 2(2) m by auto
    moreover have "s \<notin> hs_nonblocking t" using 2(4) assms(1) by (auto simp: handles_ok_def)
    ultimately show ?thesis
      using 2 h close_new(1) [OF assms(1) 2(4)] by (auto simp: close_socket_def) (simp_all add: open_handle_def)
  qed (simp add: m)
  then show "sint r < 0 \<longleftrightarrow> r = - 1" "r = - 1 \<Longrightarrow> t' = t"
    "r \<noteq> - 1 \<Longrightarrow> hs_open t' = insert s (hs_open t) \<and> s \<notin> hs_nonblocking t' \<and> close_socket r t' = t" by blast+
qed

lemma start_shape:
  obtains st where "start_coordinator snapshot fault fs = Some st"
    "st = Startup_exit 3 \<and> snapshot \<noteq> None \<or> st = Startup_threw \<and> snapshot \<noteq> None
      \<or> (\<exists>c. st = Serving c \<and> co_files c = fs \<and> (snapshot = None \<longrightarrow> c = initial_coordinator fs))"
proof (cases snapshot)
  case None
  then show thesis by (intro that) (auto simp: start_coordinator_def initial_coordinator_def)
next
  case (Some path)
  show thesis
  proof (cases "lr_snapshot (load_file path fault fs)")
    case None
    with Some show thesis by (intro that) (auto simp: start_coordinator_def)
  next
    case (Some sn)
    obtain out where "restore sn empty_store = Some out" using restore_returns by blast
    with Some \<open>snapshot = Some path\<close> show thesis
      by (cases out; cases "fst out") (auto intro!: that simp: start_coordinator_def initial_coordinator_def)
  qed
qed

section \<open>Properties\<close>


definition quiet_env :: NetEnv where
  "quiet_env = \<lparr>ne_init = True, ne_socket = 4, ne_literal = (\<lambda>h. True), ne_resolves = (\<lambda>h. False),
     ne_connect = (\<lambda>h p. Connect_pending), ne_select = (\<lambda>(sec, usec). if 2 \<le> sec then 1 else 0), ne_so_error = 0,
     ne_bind = (\<lambda>p. True), ne_listen = True, ne_sock_name = Some (htons 7000), ne_accept = 5\<rparr>"

definition no_handles :: Handles where
  "no_handles = \<lparr>hs_open = {}, hs_nonblocking = {}\<rparr>"


text \<open>
  The coordinator starts or leaves nothing behind.  Its \<^verbatim>\<open>main\<close> always gets through its start: it
  exits with 1, 2 or 3, or by the exception of a refused snapshot, with no socket opened, or it
  listens on a new socket that its end closes again, with the files untouched and, without
  \<^verbatim>\<open>load\<close>, an empty store.
\<close>

theorem coordinator_starts_cleanly:
  assumes "handles_ok t" "new_handle (ne_socket env) t"
  shows "\<exists>out t'. coordinator_main pf env fault args fs t = Some (out, t')
    \<and> (case out of
         Coord_exit n msg \<Rightarrow> n \<in> {1, 2, 3} \<and> t' = t
       | Coord_threw \<Rightarrow> t' = t \<and> 3 \<le> length args \<and> args ! 2 = ''load''
       | Coord_listening ls port c \<Rightarrow> hs_open t' = insert (ne_socket env) (hs_open t)
           \<and> snd (snd (coordinator_end ls c t')) = t \<and> co_files c = fs
           \<and> (length args < 3 \<or> args ! 2 \<noteq> ''load'' \<longrightarrow> c = initial_coordinator fs))"
proof (cases "length args < 1 \<or> \<not> net_init pf env")
  case False
  define load where "load \<longleftrightarrow> 3 \<le> length args \<and> args ! 2 = ''load''"
  define snapshot where "snapshot = (if load then Some (args ! 1) else None)"
  obtain st where st: "start_coordinator snapshot fault fs = Some st"
    and shape: "st = Startup_exit 3 \<and> snapshot \<noteq> None \<or> st = Startup_threw \<and> snapshot \<noteq> None
      \<or> (\<exists>c. st = Serving c \<and> co_files c = fs \<and> (snapshot = None \<longrightarrow> c = initial_coordinator fs))"
    by (rule start_shape)
  have main: "coordinator_main pf env fault args fs t = (case start_coordinator snapshot fault fs of
             None \<Rightarrow> None
           | Some (Startup_exit n) \<Rightarrow>
               Some (Coord_exit n (''load failed: '' @ lr_error (load_file (args ! 1) fault fs) @ newline), t)
           | Some Startup_threw \<Rightarrow> Some (Coord_threw, t)
           | Some (Serving c) \<Rightarrow>
               (case listen_socket pf env (word_of_int (atoi (args ! 0))) t of
                  (ls, t) \<Rightarrow>
                    if sint ls < 0
                    then Some (Coord_exit 1 (loaded_lines c @ ''cannot listen on port ''
                      @ int_text (atoi (args ! 0)) @ newline), t)
                    else Some (Coord_listening ls (local_port pf env ls) c, t)))"
    using False by (simp add: coordinator_main_def snapshot_def load_def Let_def)
  obtain ls t' where l: "listen_socket pf env (word_of_int (atoi (args ! 0))) t = (ls, t')" by (rule prod.exhaust)
  have "opened t (ne_socket env) (ls, t')" using listen_opened [OF assms, of pf] l by metis
  note o = opened_closes [OF assms this]
  from shape consider "st = Startup_exit 3" | "st = Startup_threw" "load"
    | c where "st = Serving c" "co_files c = fs" "\<not> load \<longrightarrow> c = initial_coordinator fs"
    by (auto simp: snapshot_def split: if_splits)
  then show ?thesis
    by cases (use o in \<open>auto simp: main st l coordinator_end_def load_def\<close>)
qed (auto simp: coordinator_main_def)

theorem coordinator_starts_cleanly_witness:
  "\<exists>ls c t'. coordinator_main Windows quiet_env No_fault [''0''] (\<lambda>p. None) no_handles
      = Some (Coord_listening ls 7000 c, t') \<and> hs_open t' = {4} \<and> c = initial_coordinator (\<lambda>p. None)"
proof -
  have ok: "handles_ok no_handles" "new_handle (ne_socket quiet_env) no_handles"
    by (simp_all add: handles_ok_def new_handle_def no_handles_def quiet_env_def)
  have run: "\<exists>c t'. coordinator_main Windows quiet_env No_fault [''0''] (\<lambda>p. None) no_handles
      = Some (Coord_listening 4 7000 c, t')"
    by (simp add: coordinator_main_def start_coordinator_def net_init_def quiet_env_def listen_socket_def local_port_def
        invalid_socket_def Let_def)
  with coordinator_starts_cleanly [OF ok, of Windows No_fault "[''0'']" "\<lambda>p. None"]
  show ?thesis by (auto simp: no_handles_def quiet_env_def)
qed

end
