(* ===== verification/Mp_Process.thy ===== *)
theory Mp_Process
  imports Socket_Setup Worker
begin

text \<open>
  The process side of \<^verbatim>\<open>mp_proof.cpp\<close>: spawning and killing a child, reading its pipe until a marker
  appears, and the command lines the children get.  The answers of the system are a \<open>SpawnAnswer\<close>
  and the pieces in which a pipe delivers its text; the state is the set of the open handles.
\<close>

section \<open>Children\<close>

record Proc =
  pr_handle :: u64
  pr_read :: u64
  pr_pid :: "32 word"

text \<open>The handles of a new pipe, reading end first, and the process, its thread and its number.\<close>

record SpawnAnswer =
  sw_pipe :: "(u64 \<times> u64) option"
  sw_process :: "(u64 \<times> u64 \<times> 32 word) option"

definition no_process :: Proc where
  "no_process = \<lparr>pr_handle = 0, pr_read = 0, pr_pid = 0\<rparr>"

definition command_line :: "string \<Rightarrow> string \<Rightarrow> string" where
  "command_line exe args = ''\"'' @ exe @ ''\" '' @ args"

definition spawn :: "SpawnAnswer \<Rightarrow> u64 set \<Rightarrow> Proc \<times> u64 set" where
  "spawn ans hs =
     (case sw_pipe ans of
        None \<Rightarrow> (no_process, hs)
      | Some (rd, wr) \<Rightarrow>
          let hs = insert wr (insert rd hs)
          in case sw_process ans of
               None \<Rightarrow> (no_process, hs - {rd} - {wr})
             | Some (h, th, pid) \<Rightarrow>
                 let hs = insert th (insert h hs); hs = hs - {wr}
                 in (\<lparr>pr_handle = h, pr_read = rd, pr_pid = pid\<rparr>, hs - {th}))"

definition kill_process :: "Proc \<Rightarrow> u64 set \<Rightarrow> Proc \<times> u64 set" where
  "kill_process p hs =
     (let (p, hs) = (if pr_handle p \<noteq> 0 then (p\<lparr>pr_handle := 0\<rparr>, hs - {pr_handle p}) else (p, hs))
      in if pr_read p \<noteq> 0 then (p\<lparr>pr_read := 0\<rparr>, hs - {pr_read p}) else (p, hs))"

text \<open>
  \<^verbatim>\<open>read_until\<close>: the pieces are what is in the pipe; a call of \<^verbatim>\<open>ReadFile\<close> takes at most 256 bytes of
  the first one and an empty piece, or none, is the end of the pipe or an error.
\<close>

function read_loop :: "string \<Rightarrow> string \<Rightarrow> string list \<Rightarrow> string" where
  "read_loop marker acc pieces =
     (if find_string marker acc 0 \<noteq> None then acc
      else case pieces of
          [] \<Rightarrow> acc
        | c # cs \<Rightarrow>
            if c = [] then acc
            else read_loop marker (acc @ take 256 c) (if length c \<le> 256 then cs else drop 256 c # cs))"
  by pat_completeness auto
termination
  by (relation "measure (\<lambda>(marker, acc, pieces). length (concat pieces))") (auto simp: not_le)

declare read_loop.simps [simp del]

definition read_until :: "Proc \<Rightarrow> string \<Rightarrow> string list \<Rightarrow> string" where
  "read_until p marker pieces = read_loop marker [] (if pr_read p = 0 then [] else pieces)"

text \<open>
  The port after the marker.  At the first start \<^verbatim>\<open>find\<close> is used without a test: when the marker is
  missing the position wraps to 8, and \<^verbatim>\<open>substr\<close> throws (\<open>None\<close>) if the text is shorter.
\<close>

definition first_port :: "string \<Rightarrow> int option" where
  "first_port l =
     (let q = (case find_string ''LISTENING'' l 0 of None \<Rightarrow> 8 | Some p \<Rightarrow> p + 9)
      in if length l < q then None else Some (atoi (drop q l)))"

definition second_port :: "string \<Rightarrow> int" where
  "second_port l = (case find_string ''LISTENING'' l 0 of None \<Rightarrow> 0 | Some p \<Rightarrow> atoi (drop (p + 9) l))"

section \<open>Command lines\<close>

text \<open>
  How the runtime system of a child cuts its command line is a parameter \<open>argv\<close> of the model; the
  documented rule is that blanks outside quotes separate the arguments.
\<close>

definition plain_word :: "string \<Rightarrow> bool" where
  "plain_word w \<longleftrightarrow> w \<noteq> [] \<and> set w \<inter> {CHR '' '', CHR 0x09, CHR ''\"''} = {}"

fun unwords :: "string list \<Rightarrow> string" where
  "unwords [] = []"
| "unwords [w] = w"
| "unwords (w # v # ws) = w @ '' '' @ unwords (v # ws)"

definition splits_words :: "(string \<Rightarrow> string list) \<Rightarrow> bool" where
  "splits_words argv \<longleftrightarrow> (\<forall>exe ws. CHR ''\"'' \<notin> set exe \<and> (\<forall>w \<in> set ws. plain_word w)
     \<longrightarrow> argv (command_line exe (unwords ws)) = exe # ws)"

section \<open>Handles\<close>

text \<open>What a successful call of the system returns: new handles, none of them null.\<close>

definition fresh_answer :: "SpawnAnswer \<Rightarrow> u64 set \<Rightarrow> bool" where
  "fresh_answer ans hs \<longleftrightarrow>
     (\<forall>rd wr. sw_pipe ans = Some (rd, wr) \<longrightarrow> distinct [0, rd, wr] \<and> {rd, wr} \<inter> hs = {}
       \<and> (\<forall>h th pid. sw_process ans = Some (h, th, pid) \<longrightarrow>
            distinct [0, rd, wr, h, th] \<and> {h, th} \<inter> hs = {}))"

definition process_handles :: "Proc \<Rightarrow> u64 set" where
  "process_handles p = {pr_handle p, pr_read p} - {0}"

lemma spawn_handles:
  assumes "fresh_answer ans hs" "spawn ans hs = (p, hs')"
  shows "hs' = process_handles p \<union> hs" "process_handles p \<inter> hs = {}"
    "pr_handle p \<noteq> 0 \<longleftrightarrow> sw_pipe ans \<noteq> None \<and> sw_process ans \<noteq> None"
    "pr_handle p = 0 \<longleftrightarrow> p = no_process"
  using assms
  by (auto simp: spawn_def fresh_answer_def process_handles_def no_process_def Let_def split: option.splits prod.splits)

lemma kill_handles: "kill_process p hs = (p\<lparr>pr_handle := 0, pr_read := 0\<rparr>, hs - process_handles p)"
  by (cases p) (auto simp: kill_process_def process_handles_def)

section \<open>Finding a marker\<close>

lemma find_map: "find P (map f xs) = map_option f (find (P \<circ> f) xs)"
  by (induction xs) simp_all

lemma find_string_Cons:
  assumes "w \<noteq> []"
  shows "find_string w (c # t) 0 = (if take (length w) (c # t) = w then Some 0 else map_option Suc (find_string w t 0))"
proof (cases "length w \<le> Suc (length t)")
  case True
  have "[0..<Suc (length (c # t)) - length w] = 0 # map Suc [0..<Suc (length t) - length w]"
    using True by (simp add: upt_conv_Cons map_Suc_upt Suc_diff_le)
  then show ?thesis by (simp add: find_string_def find_map comp_def)
next
  case False
  then have "take (length w) (c # t) \<noteq> w" by (metis length_Cons length_take min.cobounded1 min_def nat_le_linear)
  with False assms show ?thesis by (simp add: find_string_def)
qed

lemma find_string_present: "find_string p (pre @ p @ post) 0 \<noteq> None"
proof -
  have "take (length p) (drop (length pre) (pre @ p @ post)) = p" by simp
  then show ?thesis
    by (auto simp: find_string_def find_None_iff intro!: exI [of _ "length pre"])
qed

lemma find_string_skip:
  "c \<notin> set u \<Longrightarrow> find_string (c # k) (u @ s) 0 = map_option (\<lambda>i. length u + i) (find_string (c # k) s 0)"
  by (induction u; cases "find_string (c # k) s 0") (auto simp: find_string_Cons)

lemma find_string_chars:
  assumes "find_string p s 0 \<noteq> None"
  shows "set p \<subseteq> set s"
proof -
  obtain i where "take (length p) (drop i s) = p"
    using assms by (auto simp: find_string_def find_Some_iff)
  then show ?thesis by (metis in_set_dropD in_set_takeD subsetI)
qed

section \<open>Reading the port\<close>

text \<open>A pipe that delivers whole lines: no piece ends in the middle of one.\<close>

definition delivers_lines :: "string list \<Rightarrow> string \<Rightarrow> bool" where
  "delivers_lines pieces t \<longleftrightarrow> concat pieces = t
     \<and> (\<forall>p \<in> set pieces. p \<noteq> [] \<and> length p \<le> 256 \<and> last p = CHR 0x0A)"

lemma read_loop_pieces:
  assumes "\<forall>p \<in> set pieces. p \<noteq> [] \<and> length p \<le> 256"
  shows "\<exists>j. read_loop marker acc pieces = acc @ concat (take j pieces)
    \<and> (find_string marker (acc @ concat (take j pieces)) 0 \<noteq> None \<or> length pieces \<le> j)"
  using assms
proof (induction pieces arbitrary: acc)
  case Nil
  show ?case by (simp add: read_loop.simps)
next
  case (Cons p ps)
  show ?case
  proof (cases "find_string marker acc 0 = None")
    case True
    then have "read_loop marker acc (p # ps) = read_loop marker (acc @ p) ps"
      using Cons.prems by (simp add: read_loop.simps [of marker acc])
    moreover obtain j where "read_loop marker (acc @ p) ps = (acc @ p) @ concat (take j ps)
        \<and> (find_string marker ((acc @ p) @ concat (take j ps)) 0 \<noteq> None \<or> length ps \<le> j)"
      using Cons.IH [of "acc @ p"] Cons.prems by auto
    ultimately show ?thesis by (intro exI [of _ "Suc j"]) simp
  next
    case False
    then show ?thesis by (intro exI [of _ 0]) (simp add: read_loop.simps [of marker acc])
  qed
qed

lemma cut_at_end:
  assumes "x @ y = u @ [c]" "c \<notin> set u" "x \<noteq> []" "last x = c"
  shows "y = []"
proof (cases y rule: rev_cases)
  case (snoc z d)
  then have "u = x @ z" using assms(1) by simp
  then show ?thesis using assms(2-4) last_in_set by force
qed

lemma last_concat_take:
  assumes "\<forall>p \<in> set pieces. p \<noteq> [] \<and> last p = c" "concat (take j pieces) \<noteq> []"
  shows "last (concat (take j pieces)) = c"
proof -
  obtain ps p where t: "take j pieces = ps @ [p]" using assms(2) by (cases "take j pieces" rule: rev_cases) auto
  then have "p \<in> set (take j pieces)" by simp
  then have "p \<in> set pieces" by (rule in_set_takeD)
  with assms(1) show ?thesis by (simp add: t)
qed

lemma read_whole_text:
  assumes t: "delivers_lines pieces t" "t = pre @ body @ [CHR 0x0A]"
    and marker: "g \<in> set marker" "g \<notin> set pre" and line: "CHR 0x0A \<notin> set body"
  shows "read_loop marker [] pieces = t"
proof -
  have plain: "\<forall>p \<in> set pieces. p \<noteq> [] \<and> length p \<le> 256" using t(1) by (auto simp: delivers_lines_def)
  obtain j where j: "read_loop marker [] pieces = concat (take j pieces)"
    "find_string marker (concat (take j pieces)) 0 \<noteq> None \<or> length pieces \<le> j"
    using read_loop_pieces [OF plain, of marker "[]"] by auto
  let ?x = "concat (take j pieces)" and ?y = "concat (drop j pieces)"
  have xy: "?x @ ?y = pre @ body @ [CHR 0x0A]"
    using t by (simp add: delivers_lines_def flip: concat_append)
  show ?thesis
  proof (cases "length pieces \<le> j")
    case True
    with j(1) t(1) show ?thesis by (simp add: delivers_lines_def)
  next
    case False
    with j(2) marker(1) find_string_chars have g: "g \<in> set ?x" by blast
    have "\<not> length ?x \<le> length pre"
    proof
      assume le: "length ?x \<le> length pre"
      have "?x = take (length ?x) (?x @ ?y)" by simp
      also have "\<dots> = take (length ?x) pre" using le by (simp add: xy)
      finally have "g \<in> set pre" using g by (metis in_set_takeD)
      with marker(2) show False ..
    qed
    then have "pre = take (length pre) ?x"
      using xy by (metis append_eq_append_conv_if append_eq_conv_conj nat_le_linear)
    then obtain x' where x': "?x = pre @ x'" by (metis append_take_drop_id)
    with xy \<open>\<not> length ?x \<le> length pre\<close> have eq: "x' @ ?y = body @ [CHR 0x0A]" "x' \<noteq> []" by auto
    have "?x \<noteq> []" using eq(2) x' by simp
    then have "last ?x = CHR 0x0A" using last_concat_take [of pieces "CHR 0x0A" j] t(1) by (auto simp: delivers_lines_def)
    then have "last x' = CHR 0x0A" using x' eq(2) by simp
    from cut_at_end [OF eq(1) line eq(2) this] have "?y = []" .
    with xy j(1) t(2) show ?thesis by simp
  qed
qed

lemma atoi_line: "atoi (CHR '' '' # dec_string n @ [CHR 0x0A]) = int n"
proof -
  obtain c r where d: "dec_string n = c # r" by (cases "dec_string n") (auto simp: dec_string.simps [of n] split: if_splits)
  have all: "list_all is_digit_char (dec_string n)" and v: "dec_text_value (dec_string n) = n" using dec_string_value by auto
  have t: "takeWhile is_digit_char (dec_string n @ [CHR 0x0A]) = dec_string n"
    using all by (subst takeWhile_append2) (auto simp: list_all_iff is_digit_char_def less_eq_char_def)
  have c: "is_digit_char c" using all by (simp add: d)
  then have "\<not> is_space c" "c \<noteq> CHR ''-''" "c \<noteq> CHR ''+''"
    by (auto simp: is_digit_char_def is_space_def less_eq_char_def)
  with t v show ?thesis by (simp add: atoi_def d is_space_def)
qed

text \<open>What a coordinator prints when it starts, with or without a loaded snapshot.\<close>

definition start_lines :: "string \<Rightarrow> bool" where
  "start_lines pre \<longleftrightarrow> pre = [] \<or> (\<exists>h. pre = ''LOADED digest='' @ digest_str h @ [CHR 0x0A])"

lemma digest_str_plain: "CHR ''L'' \<notin> set (digest_str h)" "CHR ''G'' \<notin> set (digest_str h)"
proof -
  have "list_all (\<lambda>d. hex_digit d \<noteq> CHR ''L'' \<and> hex_digit d \<noteq> CHR ''G'') [0..<16]" by code_simp
  then have "hex_digit d \<noteq> CHR ''L''" "hex_digit d \<noteq> CHR ''G''" if "d < 16" for d
    using that by (simp_all add: list_all_iff)
  moreover have "\<forall>c \<in> set (digest_str h). \<exists>d<16. c = hex_digit d"
    using hex_fixed_value [THEN conjunct2] by (simp add: digest_str_def digest_string_def list_all_iff)
  ultimately show "CHR ''L'' \<notin> set (digest_str h)" "CHR ''G'' \<notin> set (digest_str h)" by metis+
qed

lemma start_lines_marker:
  assumes "start_lines pre"
  shows "CHR ''G'' \<notin> set pre" "find_string ''LISTENING'' (pre @ ''LISTENING'' @ r) 0 = Some (length pre)"
proof -
  have here: "find_string ''LISTENING'' (''LISTENING'' @ r) 0 = Some 0" by (simp add: find_string_Cons)
  show "CHR ''G'' \<notin> set pre" using assms digest_str_plain(2) by (auto simp: start_lines_def)
  show "find_string ''LISTENING'' (pre @ ''LISTENING'' @ r) 0 = Some (length pre)"
  proof (cases "pre = []")
    case False
    then obtain h where pre: "pre = ''LOADED digest='' @ digest_str h @ [CHR 0x0A]"
      using assms by (auto simp: start_lines_def)
    have "CHR ''L'' \<notin> set (digest_str h @ [CHR 0x0A])" using digest_str_plain(1) by simp
    from find_string_skip [OF this, of "''ISTENING''" "''LISTENING'' @ r"] here
    have "find_string ''LISTENING'' (digest_str h @ CHR 0x0A # ''LISTENING'' @ r) 0 = Some (length (digest_str h) + 1)"
      by simp
    then show ?thesis by (simp add: pre find_string_Cons)
  qed (use here in simp)
qed

lemma dec_string_line: "CHR 0x0A \<notin> set (dec_string n)"
  using dec_string_value [of n] by (auto simp: list_all_iff is_digit_char_def less_eq_char_def)

text \<open>The port that is read is the port that is printed, if the pipe delivers whole lines.\<close>

lemma port_read:
  assumes "start_lines pre" "t = pre @ ''LISTENING '' @ dec_string n @ newline" "delivers_lines pieces t" "pr_read p \<noteq> 0"
  shows "read_until p ''LISTENING'' pieces = t" "first_port t = Some (int n)" "second_port t = int n"
proof -
  note m = start_lines_marker [OF assms(1)]
  have "read_loop ''LISTENING'' [] pieces = t"
  proof (rule read_whole_text [OF assms(3), of pre "''LISTENING '' @ dec_string n"])
    show "CHR ''G'' \<in> set ''LISTENING''" by simp
  qed (use m(1) dec_string_line assms(2) in \<open>auto simp: newline_def\<close>)
  then show "read_until p ''LISTENING'' pieces = t" using assms(4) by (simp add: read_until_def)
  have f: "find_string ''LISTENING'' t 0 = Some (length pre)" using m(2) by (simp add: assms(2))
  have d: "drop (length pre + 9) t = CHR '' '' # dec_string n @ [CHR 0x0A]" by (simp add: assms(2) newline_def)
  then have "length pre + 9 < length t" by (metis drop_eq_Nil list.distinct(1) not_le)
  then show "first_port t = Some (int n)" "second_port t = int n"
    using atoi_line [of n] by (simp_all add: first_port_def second_port_def f d)
qed

text \<open>A pipe that cuts the line in the digits gives another port, an empty one an exception.\<close>

lemma port_cut:
  "first_port (read_loop ''LISTENING'' [] [''LISTENING 70'', ''00'']) = Some 70"
  "first_port (read_loop ''LISTENING'' [] []) = None"
  by code_simp+

section \<open>Arguments\<close>

lemma printed_plain_word [simp]:
  "plain_word (dec_string n)" "plain_word (to_string i)"
proof -
  have "list_all (\<lambda>d. hex_digit d \<notin> {CHR '' '', CHR 0x09, CHR ''\"''}) [0..<16]" by code_simp
  then have d: "hex_digit d \<notin> {CHR '' '', CHR 0x09, CHR ''\"''}" if "d < 16" for d
    using that by (simp only: list_all_iff set_upt atLeastLessThan_iff) simp
  have "\<forall>c \<in> set (hex_fixed 16 n). \<exists>d<16. c = hex_digit d" for n
    using hex_fixed_value [of 16 n, THEN conjunct2] by (simp add: list_all_iff)
  with d have "\<forall>c \<in> set (hex_fixed 16 n). c \<notin> {CHR '' '', CHR 0x09, CHR ''\"''}" for n by metis
  then have "set (hex_fixed 16 n) \<inter> {CHR '' '', CHR 0x09, CHR ''\"''} = {}" for n by blast
  then show "plain_word (to_string i)" by (simp add: plain_word_def to_string_def)
  have "dec_string n \<noteq> []" by (simp add: dec_string.simps [of n])
  moreover have "set (dec_string n) \<inter> {CHR '' '', CHR 0x09, CHR ''\"''} = {}"
    using dec_string_value [of n] by (auto simp: list_all_iff is_digit_char_def less_eq_char_def)
  ultimately show "plain_word (dec_string n)" by (simp add: plain_word_def)
qed

lemma plain_words [simp]:
  "plain_word ''0''" "plain_word ''load''" "plain_word ''register''" "plain_word ''produce_root''" "plain_word ''produce_child''"
  by (simp_all add: plain_word_def)

lemma atoi_int_text: "0 \<le> i \<Longrightarrow> atoi (int_text i) = i"
proof -
  assume i: "0 \<le> i"
  let ?t = "dec_string (nat i)"
  obtain c r where d: "?t = c # r" by (cases ?t) (auto simp: dec_string.simps [of "nat i"] split: if_splits)
  have all: "list_all is_digit_char ?t" and v: "dec_text_value ?t = nat i" using dec_string_value by auto
  have t: "takeWhile is_digit_char ?t = ?t" using all by (simp add: takeWhile_eq_all_conv list_all_iff)
  have "is_digit_char c" using all by (simp add: d)
  then have "\<not> is_space c" "c \<noteq> CHR ''-''" "c \<noteq> CHR ''+''"
    by (auto simp: is_digit_char_def is_space_def less_eq_char_def)
  with i t v show ?thesis by (simp add: atoi_def int_text_def d)
qed

text \<open>A splitting that follows the rule.\<close>

fun split_blank :: "string \<Rightarrow> string \<Rightarrow> string list" where
  "split_blank [] w = (if w = [] then [] else [w])"
| "split_blank (c # s) w =
     (if c = CHR '' '' then (if w = [] then split_blank s [] else w # split_blank s []) else split_blank s (w @ [c]))"

definition blank_argv :: "string \<Rightarrow> string list" where
  "blank_argv line =
     (let exe = takeWhile (\<lambda>c. c \<noteq> CHR ''\"'') (tl line) in exe # split_blank (drop (length exe + 2) line) [])"

lemma split_blank_word:
  "CHR '' '' \<notin> set v \<Longrightarrow> split_blank (v @ s) w = split_blank s (w @ v)"
  by (induction v arbitrary: w) auto

lemma split_blank_unwords: "\<forall>w \<in> set ws. plain_word w \<Longrightarrow> split_blank (unwords ws) [] = ws"
  by (induction ws rule: unwords.induct)
    (auto simp: plain_word_def split_blank_word split_blank_word [of _ "[]", simplified])

lemma blank_argv_splits: "splits_words blank_argv"
  unfolding splits_words_def
proof (intro allI impI)
  fix exe ws assume a: "CHR ''\"'' \<notin> set exe \<and> (\<forall>w \<in> set ws. plain_word w)"
  then have "takeWhile (\<lambda>c. c \<noteq> CHR ''\"'') (exe @ CHR ''\"'' # CHR '' '' # unwords ws) = exe"
    by (subst takeWhile_append2) auto
  with a show "blank_argv (command_line exe (unwords ws)) = exe # ws"
    by (simp add: blank_argv_def command_line_def split_blank_unwords)
qed

end
