(* ===== verification/Mp_Proof.thy ===== *)
theory Mp_Proof
  imports Mp_Process
begin

text \<open>
  \<^verbatim>\<open>mp_proof.cpp\<close>: the multiprocess scenario.  The harness starts a coordinator, lets worker A
  publish, rolls the epoch, replays seven stale claims, lets worker B derive a state, saves, and
  recovers the coordinator from the file, and checks the replies on the way.  A process is its
  model in \<open>Coordinator\<close> and \<open>Worker\<close>, started by \<open>spawn\<close> on the arguments its command line is cut
  into: a request of the harness or of a worker is one handled frame.  The sleeps that wait for a
  worker are left out: a worker has run to its end before the next request.
\<close>

section \<open>The control connection\<close>

text \<open>
  The connection with the process at its other end: not connected (the files are all that is left),
  lost (a handler threw, which ends the coordinator), or open.
\<close>

datatype link = No_socket filesystem | Lost filesystem | Connected Coordinator

fun link_files :: "link \<Rightarrow> filesystem" where
  "link_files (No_socket fs) = fs"
| "link_files (Lost fs) = fs"
| "link_files (Connected c) = co_files c"

fun control_op :: "IoFaults \<Rightarrow> Op \<Rightarrow> byte list \<Rightarrow> link \<Rightarrow> string \<times> link" where
  "control_op io opcode payload (No_socket fs) = (''err:no-socket'', No_socket fs)"
| "control_op io opcode payload (Lost fs) = (''err:recv'', Lost fs)"
| "control_op io opcode payload (Connected c) =
     (case handle_request io (Op_val opcode) payload c of
        (None, c') \<Rightarrow> (''err:recv'', Lost (co_files c'))
      | (Some resp, c') \<Rightarrow> (resp, Connected c'))"

definition get_field :: "string \<Rightarrow> string \<Rightarrow> string" where
  "get_field s key =
     (case find_string (key @ ''='') s 0 of
        None \<Rightarrow> []
      | Some q \<Rightarrow>
          let q = q + length key + 1
          in case find_char (CHR '';'') s q of
               None \<Rightarrow> drop q s
             | Some e \<Rightarrow> substr s q (e - q))"

text \<open>\<^verbatim>\<open>s.rfind(p, 0) == 0\<close>.\<close>

definition starts_with :: "string \<Rightarrow> string \<Rightarrow> bool" where
  "starts_with p s \<longleftrightarrow> take (length p) s = p"

definition query_state :: "IoFaults \<Rightarrow> StateId \<Rightarrow> link \<Rightarrow> (string \<times> bool) \<times> link" where
  "query_state io i l =
     (let (full, l) = control_op io Op_Query (bytes_u64 (get i)) l
      in ((full, starts_with ''present'' full), l))"

section \<open>Candidates and stale replays\<close>

definition make_candidate :: "StateId \<Rightarrow> SubjectKind \<Rightarrow> StateId \<Rightarrow> AuthorityClaim \<Rightarrow> u64 \<Rightarrow> RecordData" where
  "make_candidate sid kind inp cl worker_hi = empty_record\<lparr>
     provenance_id := ScalarIdentifier (get sid),
     provenance_generation := claim_provenance_generation cl,
     subject_id := sid,
     subject_kind := kind,
     state_generation := claim_state_generation cl,
     producer_id := ScalarIdentifier (0x7000000000000000 OR worker_hi OR (get sid AND 0xFF)),
     producer_generation := ScalarIdentifier 1,
     execution_id := ScalarIdentifier (0x8000000000000000 OR get sid),
     attempt_id := claim_attempt_id cl,
     attempt_generation := claim_attempt_generation cl,
     model_id := ScalarIdentifier 0x9000000000000000,
     model_generation := (case claim_model_generation cl of None \<Rightarrow> ScalarIdentifier 1 | Some g \<Rightarrow> g),
     architecture := ''sm_120'', compute_capability := ''12.0'', abi := ''aarch64'',
     dtype := ''float16'', layout := ''rowmajor'', shape := ''1024x4096'',
     evidence := EV_MEASURED, validity := VS_VALID,
     coordinator_epoch := claim_coordinator_epoch cl,
     worker_id := claim_worker_id cl, worker_boot := claim_worker_boot cl,
     content_digest := ''sha256:mock:'' @ to_string sid,
     input_states := if valid inp then [inp] else []\<rparr>"

definition expect_reject ::
  "IoFaults \<Rightarrow> RecordData \<Rightarrow> AuthorityClaim \<Rightarrow> string \<Rightarrow> link \<Rightarrow> (bool \<times> link) option" where
  "expect_reject io cand stale_claim dim l =
     (case encode_publish_payload cand stale_claim of
        None \<Rightarrow> None
      | Some payload \<Rightarrow>
          let (r, l) = control_op io Op_PublishStale payload l;
              refused = starts_with ''err:'' r;
              refused = (if refused \<and> dim \<noteq> [] then find_string dim r 0 \<noteq> None else refused)
          in Some (refused, l))"

definition worker_A :: WorkerId where "worker_A = ScalarIdentifier 0xA001"
definition boot_A1 :: WorkerBootId where "boot_A1 = ScalarIdentifier 0xB0001"
definition boot_A2 :: WorkerBootId where "boot_A2 = ScalarIdentifier 0xB0002"
definition worker_B :: WorkerId where "worker_B = ScalarIdentifier 0xB001"
definition boot_B :: WorkerBootId where "boot_B = ScalarIdentifier 0xC0001"
definition state_S1 :: StateId where "state_S1 = ScalarIdentifier 0x1001"
definition state_S2 :: StateId where "state_S2 = ScalarIdentifier 0x1002"

definition current_claim :: AuthorityClaim where
  "current_claim = empty_claim\<lparr>claim_worker_id := worker_A, claim_worker_boot := boot_A2,
     claim_attempt_id := ScalarIdentifier 1, claim_attempt_generation := ScalarIdentifier 1,
     claim_state_generation := ScalarIdentifier 1, claim_provenance_generation := ScalarIdentifier 1,
     claim_coordinator_epoch := 2, claim_dependency_generation := Some (ScalarIdentifier 2)\<rparr>"

text \<open>The blocks (a) to (g): subject, claim, worker number and expected dimension of each replay.\<close>

definition stale_replays :: "(StateId \<times> AuthorityClaim \<times> u64 \<times> string) list" where
  "stale_replays =
     [(ScalarIdentifier 0x2001, current_claim\<lparr>claim_coordinator_epoch := 1\<rparr>, 1, ''CoordinatorEpoch''),
      (ScalarIdentifier 0x2002, current_claim\<lparr>claim_worker_boot := boot_A1\<rparr>, 2, ''WorkerBootId''),
      (ScalarIdentifier 0x2003, current_claim\<lparr>claim_attempt_id := ScalarIdentifier 999\<rparr>, 3, ''AttemptId''),
      (ScalarIdentifier 0x2004, current_claim\<lparr>claim_attempt_generation := ScalarIdentifier 999\<rparr>, 4,
       ''AttemptGeneration''),
      (ScalarIdentifier 0x2005, current_claim\<lparr>claim_state_generation := ScalarIdentifier 999\<rparr>, 5,
       ''StateGeneration''),
      (ScalarIdentifier 0x2006, current_claim\<lparr>claim_provenance_generation := ScalarIdentifier 999\<rparr>, 6,
       ''ProvenanceGeneration''),
      (ScalarIdentifier 0x2007, current_claim\<lparr>claim_dependency_generation := Some (ScalarIdentifier 1)\<rparr>, 7,
       ''DependencyGeneration'')]"

fun replay_all ::
  "IoFaults \<Rightarrow> (StateId \<times> AuthorityClaim \<times> u64 \<times> string) list \<Rightarrow> nat \<Rightarrow> link \<Rightarrow> (nat \<times> link) option" where
  "replay_all io [] n l = Some (n, l)"
| "replay_all io ((sid, st, hi, dim) # rest) n l =
     (case expect_reject io (make_candidate sid SK_KVState null_id st hi) st dim l of
        None \<Rightarrow> None
      | Some (refused, l) \<Rightarrow> replay_all io rest (if refused then n + 1 else n) l)"

section \<open>The scenario\<close>

text \<open>
  A worker process on the coordinator of a connection: its hello, and in a producing mode the
  publication of the record it builds from the reply.
\<close>

definition run_worker :: "IoFaults \<Rightarrow> string list \<Rightarrow> link \<Rightarrow> link" where
  "run_worker io args l =
     (let wid = ScalarIdentifier (hx (args ! 1)); boot = ScalarIdentifier (hx (args ! 2)); mode = args ! 3;
          sid = ScalarIdentifier (hx (args ! 4));
          inp = (if 6 \<le> length args then ScalarIdentifier (hx (args ! 5)) else null_id);
          (greeting, l) = control_op io Op_Hello (worker_hello wid boot) l
      in if mode = ''produce_root'' \<or> mode = ''produce_child'' then
           (case worker_publish_payload (kv_parse greeting) wid boot mode sid inp of
              None \<Rightarrow> l
            | Some payload \<Rightarrow> snd (control_op io Op_Publish payload l))
         else l)"

text \<open>What the system does during a run: children are numbered in the order they are spawned.\<close>

record MpEnv =
  me_init :: bool
  me_spawn :: "nat \<Rightarrow> SpawnAnswer"
  me_argv :: "string \<Rightarrow> string list"
  me_net :: "nat \<Rightarrow> NetEnv"
  me_pieces :: "nat \<Rightarrow> string \<Rightarrow> string list"

text \<open>The \<open>k\<close>-th child as a coordinator, and what its pipe delivers.\<close>

definition coordinator_process ::
  "MpEnv \<Rightarrow> nat \<Rightarrow> Proc \<Rightarrow> string \<Rightarrow> string \<Rightarrow> ReadFault \<Rightarrow> filesystem \<Rightarrow> coordinator_run option" where
  "coordinator_process env k p exe args fault fs =
     (if pr_handle p = 0 then None
      else map_option fst (coordinator_main Windows (me_net env k) fault
        (tl (me_argv env (command_line exe args))) fs \<lparr>hs_open = {}, hs_nonblocking = {}\<rparr>))"

definition piped :: "MpEnv \<Rightarrow> nat \<Rightarrow> coordinator_run option \<Rightarrow> string list" where
  "piped env k run = me_pieces env k (case run of None \<Rightarrow> [] | Some r \<Rightarrow> coordinator_output r)"

text \<open>A connection succeeds if the coordinator listens on the port, which is cut to 16 bits.\<close>

definition connect_to :: "int \<Rightarrow> coordinator_run option \<Rightarrow> filesystem \<Rightarrow> link" where
  "connect_to port run fs =
     (case run of
        Some (Coord_listening ls p c) \<Rightarrow> if word_of_int port = p \<and> p \<noteq> 0 then Connected c else No_socket fs
      | _ \<Rightarrow> No_socket fs)"

text \<open>A child as a worker, for a coordinator that listens on the port \<open>p\<close>.\<close>

definition worker_process ::
  "MpEnv \<Rightarrow> IoFaults \<Rightarrow> string \<Rightarrow> u16 \<Rightarrow> Proc \<Rightarrow> string \<Rightarrow> link \<Rightarrow> link" where
  "worker_process env io exe p child args l =
     (if pr_handle child = 0 then l
      else
        let args = tl (me_argv env (command_line exe args))
        in if length args < 5 \<or> word_of_int (atoi (args ! 0)) \<noteq> p then l else run_worker io args l)"

definition set_authority_op :: "IoFaults \<Rightarrow> string \<Rightarrow> link \<Rightarrow> bool \<times> link" where
  "set_authority_op io s l =
     (let (r, l) = control_op io Op_SetAuthority (bytes_of_string s) l in (r = ''ok'', l))"

text \<open>
  Each part returns the outcomes of its \<^verbatim>\<open>REQUIRE\<close>s; \<open>worker\<close> runs a worker on the text of its
  arguments.  Steps 1 to 3 also return the digest of S1.
\<close>

definition produce_S1 ::
  "IoFaults \<Rightarrow> (string \<Rightarrow> link \<Rightarrow> link) \<Rightarrow> int \<Rightarrow> link \<Rightarrow> bool list \<times> string \<times> link" where
  "produce_S1 io worker port l =
     (let (ok1, l) = set_authority_op io
            ''state_gen=1;prov_gen=1;dep_gen=1;model_gen=1;attempt=1;attempt_gen=1;policy_gen=1'' l;
          l = worker (int_text port @ '' '' @ to_string worker_A @ '' '' @ to_string boot_A1
            @ '' produce_root '' @ to_string state_S1) l;
          ((q1, p1), l) = query_state io state_S1 l
      in ([ok1, p1], get_field q1 ''derivation_digest'', l))"

definition roll_and_replay ::
  "IoFaults \<Rightarrow> (string \<Rightarrow> link \<Rightarrow> link) \<Rightarrow> int \<Rightarrow> link \<Rightarrow> (bool list \<times> link) option" where
  "roll_and_replay io worker port l =
     (let (er, l) = control_op io Op_RollEpoch [] l;
          (ok2, l) = set_authority_op io
            ''state_gen=1;prov_gen=1;dep_gen=2;model_gen=1;attempt=1;attempt_gen=1;policy_gen=1'' l;
          l = worker (int_text port @ '' '' @ to_string worker_A @ '' '' @ to_string boot_A2 @ '' register 0'') l
      in case replay_all io stale_replays 0 l of
           None \<Rightarrow> None
         | Some (rejected, l) \<Rightarrow> Some ([starts_with ''epoch=2'' er, ok2, rejected = 7], l))"

definition verify_unchanged :: "IoFaults \<Rightarrow> string \<Rightarrow> link \<Rightarrow> bool list \<times> link" where
  "verify_unchanged io captured l =
     (let ((q1b, p1b), l) = query_state io state_S1 l
      in ([p1b \<and> get_field q1b ''size'' = ''1'', get_field q1b ''derivation_digest'' = captured], l))"

definition derive_S2 :: "IoFaults \<Rightarrow> (string \<Rightarrow> link \<Rightarrow> link) \<Rightarrow> int \<Rightarrow> link \<Rightarrow> bool list \<times> link" where
  "derive_S2 io worker port l =
     (let (ok1, l) = set_authority_op io
            ''state_gen=1;prov_gen=2;dep_gen=2;model_gen=1;attempt=1;attempt_gen=1;policy_gen=1'' l;
          l = worker (int_text port @ '' '' @ to_string worker_B @ '' '' @ to_string boot_B
            @ '' produce_child '' @ to_string state_S2 @ '' '' @ to_string state_S1) l;
          ((q2, p2), l) = query_state io state_S2 l
      in ([ok1, p2, get_field q2 ''prov_gen'' = ''0x0000000000000002''], l))"

definition save_and_account :: "IoFaults \<Rightarrow> string \<Rightarrow> link \<Rightarrow> bool list \<times> string \<times> link" where
  "save_and_account io snapshot l =
     (let (save1, l) = control_op io Op_Save (bytes_of_string snapshot) l;
          (stats, l) = control_op io Op_Stats [] l
      in ([starts_with ''saved'' save1, atoi (get_field stats ''accepted'') = 2,
           atoi (get_field stats ''rejected'') = 7, get_field stats ''size'' = ''2''],
          get_field save1 ''digest'', l))"

definition recover ::
  "MpEnv \<Rightarrow> IoFaults \<Rightarrow> ReadFault \<Rightarrow> string \<Rightarrow> Proc \<Rightarrow> string \<Rightarrow> string \<Rightarrow> link \<Rightarrow> bool list \<times> link" where
  "recover env io fault exe coord2 snapshot D1 l =
     (let (stop, l) = control_op io Op_Shutdown [] l;
          fs = link_files l;
          run2 = coordinator_process env 4 coord2 exe (''0 '' @ snapshot @ '' load'') fault fs;
          port2 = second_port (read_until coord2 ''LISTENING'' (piped env 4 run2));
          l2 = connect_to port2 run2 fs;
          ((q1c, p1c), l2) = query_state io state_S1 l2;
          ((q2c, p2c), l2) = query_state io state_S2 l2;
          (save2, l2) = control_op io Op_Save (bytes_of_string (snapshot @ ''.verify'')) l2;
          D2 = get_field save2 ''digest''
      in ([0 < port2, p1c \<and> p2c, D2 \<noteq> [] \<and> D2 = D1], l2))"

text \<open>
  \<^verbatim>\<open>main\<close> on the arguments after the program name: the exit code, what is left at the other end of
  the last control connection, and the open handles.  \<open>None\<close> is an exception: a first coordinator
  that prints too little, or an error in the encoding of a candidate.  A child is spawned before the
  requests that precede it in the code, which do not depend on it.
\<close>

definition mp_proof_main ::
  "MpEnv \<Rightarrow> IoFaults \<Rightarrow> ReadFault \<Rightarrow> string list \<Rightarrow> filesystem \<Rightarrow> u64 set \<Rightarrow> (nat \<times> link \<times> u64 set) option" where
  "mp_proof_main env io fault args fs hs =
     (if length args < 3 then Some (2, No_socket fs, hs)
      else if \<not> me_init env then Some (1, No_socket fs, hs)
      else
        let coord_exe = args ! 0; worker_exe = args ! 1; snapshot = args ! 2;
            (coord, hs) = spawn (me_spawn env 0) hs
        in if pr_handle coord = 0 then Some (3, No_socket fs, hs)
           else
             let run = coordinator_process env 0 coord coord_exe ''0'' fault fs
             in case first_port (read_until coord ''LISTENING'' (piped env 0 run)) of
                  None \<Rightarrow> None
                | Some port \<Rightarrow>
                    let worker = worker_process env io worker_exe (word_of_int port);
                        (workerA, hs) = spawn (me_spawn env 1) hs;
                        (r1, captured, l) = produce_S1 io (worker workerA) port (connect_to port run fs);
                        (workerA, hs) = kill_process workerA hs;
                        (workerA2, hs) = spawn (me_spawn env 2) hs
                    in case roll_and_replay io (worker workerA2) port l of
                         None \<Rightarrow> None
                       | Some (r2, l) \<Rightarrow>
                           let (r3, l) = verify_unchanged io captured l;
                               (workerB, hs) = spawn (me_spawn env 3) hs;
                               (r4, l) = derive_S2 io (worker workerB) port l;
                               (r5, D1, l) = save_and_account io snapshot l;
                               (coord, hs) = kill_process coord hs;
                               (coord2, hs) = spawn (me_spawn env 4) hs;
                               (r6, l) = recover env io fault coord_exe coord2 snapshot D1 l;
                               g_failures = length (List.filter Not
                                 ((0 < port) # r1 @ (pr_handle workerA = 0) # r2 @ r3 @ r4 @ r5 @ r6));
                               (workerA2, hs) = kill_process workerA2 hs;
                               (workerB, hs) = kill_process workerB hs;
                               (coord2, hs) = kill_process coord2 hs
                           in Some (if g_failures \<noteq> 0 then 1 else 0, l, hs))"

section \<open>Refused replays\<close>

lemma starts_with_append [simp]: "starts_with p (p @ s)"
  by (simp add: starts_with_def)

text \<open>A well-formed candidate under a claim that is not accepted is refused with the dimension.\<close>

lemma stale_refused:
  assumes "record_ok d" "record_fits d" "record_strings d \<subseteq> short_strings"
    and "\<not> accepted (evaluate_claim (st_authority (co_store c)) (wire_claim cl))"
    and "v_dimension (evaluate_claim (st_authority (co_store c)) (wire_claim cl)) = dim"
  shows "expect_reject io d cl dim (Connected c) = Some (True, Connected (c\<lparr>co_rejected := co_rejected c + 1\<rparr>))"
proof -
  have "write_record d \<noteq> None" using assms(3) by (simp only: write_record_defined)
  then obtain payload where p: "encode_publish_payload d cl = Some payload"
    by (auto simp: encode_publish_payload_def)
  have dec: "decode_publish_payload payload = Some (d, wire_claim cl)"
    using decode_publish_encoded [OF p assms(1,2), of "[]"] by simp
  let ?v = "evaluate_claim (st_authority (co_store c)) (wire_claim cl)"
  have "publish_fenced d (wire_claim cl) (co_store c)
      = (Inr (failure (''stale authority ['' @ dim @ '']: '' @ v_detail ?v)), co_store c)"
    using assms(1,4,5) by (simp add: publish_fenced_alt)
  then have "handle_publish payload c
      = (Some (''err:'' @ ''stale authority ['' @ dim @ '']: '' @ v_detail ?v), c\<lparr>co_rejected := co_rejected c + 1\<rparr>)"
    by (simp add: handle_publish_def dec failure_def)
  then have "control_op io Op_PublishStale payload (Connected c)
      = (''err:'' @ ''stale authority ['' @ dim @ '']: '' @ v_detail ?v,
         Connected (c\<lparr>co_rejected := co_rejected c + 1\<rparr>))"
    by (simp add: handle_request_def)
  with find_string_present [of dim "''err:stale authority [''" "'']: '' @ v_detail ?v"] p
  show ?thesis by (simp add: expect_reject_def starts_with_def)
qed

text \<open>The authority the replays of the scenario meet.\<close>

definition scenario_authority :: "AuthorityState \<Rightarrow> bool" where
  "scenario_authority a \<longleftrightarrow> a_epoch a = 2 \<and> boot_of a worker_A = Some boot_A2
     \<and> a_attempt_id a = ScalarIdentifier 1 \<and> a_attempt_generation a = ScalarIdentifier 1
     \<and> a_state_generation a = ScalarIdentifier 1 \<and> a_provenance_generation a = ScalarIdentifier 1
     \<and> a_dependency_generation a = ScalarIdentifier 2"

lemma candidate_ok:
  assumes "(sid, cl, hi, dim) \<in> set stale_replays"
  shows "record_ok (make_candidate sid SK_KVState null_id cl hi)"
    "record_fits (make_candidate sid SK_KVState null_id cl hi)"
    "record_strings (make_candidate sid SK_KVState null_id cl hi) \<subseteq> short_strings"
proof -
  have sid: "valid sid" "valid (claim_provenance_generation cl)" "valid (claim_state_generation cl)"
    using assms by (auto simp: stale_replays_def current_claim_def empty_claim_def)
  then have "get sid \<noteq> 0" by (simp add: valid_def)
  with sid show "record_ok (make_candidate sid SK_KVState null_id cl hi)"
    by (simp add: record_ok_def make_candidate_def empty_record_def or_not_zero)
  show "record_fits (make_candidate sid SK_KVState null_id cl hi)"
    by (simp add: record_fits_def make_candidate_def empty_record_def kMaxVecLen_def)
  show "record_strings (make_candidate sid SK_KVState null_id cl hi) \<subseteq> short_strings"
    by (simp add: record_strings_def make_candidate_def empty_record_def short_strings_def kMaxStringLen_def)
qed

lemma replay_verdict:
  assumes "scenario_authority a" "(sid, cl, hi, dim) \<in> set stale_replays"
  shows "\<not> accepted (evaluate_claim a (wire_claim cl)) \<and> v_dimension (evaluate_claim a (wire_claim cl)) = dim"
proof -
  note a = assms(1) [unfolded scenario_authority_def worker_A_def boot_A2_def]
  have "first_violation (fence_table a (wire_claim cl)) = Some dim"
    using assms(2) a unfolding stale_replays_def list.set
    by (elim insertE emptyE)
      (simp_all add: fence_table_def boot_stale_def stale_def stale_opt_def wire_claim_def wire_opt_def
        current_claim_def empty_claim_def worker_A_def boot_A2_def boot_A1_def boot_of_def null_id_def)
  then show ?thesis using evaluate_claim_table [of a "wire_claim cl"] by simp
qed

lemma replays_refused:
  assumes "set rs \<subseteq> set stale_replays" "scenario_authority (st_authority (co_store c))"
  shows "replay_all io rs n (Connected c)
    = Some (n + length rs, Connected (c\<lparr>co_rejected := co_rejected c + of_nat (length rs)\<rparr>))"
  using assms
proof (induction rs arbitrary: n c)
  case (Cons r rs)
  obtain sid cl hi dim where r: "r = (sid, cl, hi, dim)" by (metis prod.exhaust)
  then have mem: "(sid, cl, hi, dim) \<in> set stale_replays" using Cons.prems(1) by simp
  note v = replay_verdict [OF Cons.prems(2) mem]
  have "expect_reject io (make_candidate sid SK_KVState null_id cl hi) cl dim (Connected c)
      = Some (True, Connected (c\<lparr>co_rejected := co_rejected c + 1\<rparr>))"
    using stale_refused [OF candidate_ok [OF mem]] v by blast
  moreover have "replay_all io rs (n + 1) (Connected (c\<lparr>co_rejected := co_rejected c + 1\<rparr>))
      = Some (n + 1 + length rs, Connected (c\<lparr>co_rejected := co_rejected c + 1 + of_nat (length rs)\<rparr>))"
    using Cons.IH [of "c\<lparr>co_rejected := co_rejected c + 1\<rparr>" "n + 1"] Cons.prems by simp
  ultimately show ?case by (simp add: r add.assoc)
qed simp

section \<open>Fields of a reply\<close>

lemma find_char_drop: "find_char c s n = map_option ((+) n) (find_char c (drop n s) 0)"
proof -
  have "[n..<length s] = map ((+) n) [0..<length s - n]" by (intro nth_equalityI) auto
  moreover have "find (\<lambda>i. s ! (n + i) = c) [0..<length s - n] = find (\<lambda>i. drop n s ! i = c) [0..<length s - n]"
    by (rule find_cong) auto
  ultimately show ?thesis by (simp add: find_char_def find_map comp_def)
qed

lemma find_char_takeWhile:
  "(case find_char c s 0 of None \<Rightarrow> s | Some e \<Rightarrow> take e s) = takeWhile (\<lambda>x. x \<noteq> c) s"
proof (cases "c \<in> set s")
  case True
  then obtain a b where s: "s = a @ c # b" "c \<notin> set a" by (metis split_list_first)
  then show ?thesis using find_char_here [of c a "[]" b] by (subst s(1), subst takeWhile_append2) (auto simp: s(1))
next
  case False
  then have "takeWhile (\<lambda>x. x \<noteq> c) s = s" by (subst takeWhile_eq_all_conv) auto
  moreover have "find_char c s 0 = None" using find_char_none [OF False, of "[]"] by simp
  ultimately show ?thesis by (simp only: option.case)
qed

text \<open>\<^verbatim>\<open>get_field\<close> by recursion on the text.\<close>

lemma get_field_Nil: "get_field [] key = []"
  by (simp add: get_field_def find_string_def)

lemma get_field_Cons:
  "get_field (c # t) key =
    (if take (length key + 1) (c # t) = key @ ''='' then takeWhile (\<lambda>x. x \<noteq> CHR '';'') (drop (length key) t)
     else get_field t key)"
proof -
  have cut: "(case find_char (CHR '';'') s n of None \<Rightarrow> drop n s | Some e \<Rightarrow> substr s n (e - n))
      = takeWhile (\<lambda>x. x \<noteq> CHR '';'') (drop n s)" for s n
    using find_char_takeWhile [where c = "CHR '';''" and s = "drop n s"]
    by (subst find_char_drop) (simp add: substr_def split: option.splits)
  show ?thesis
    by (simp add: get_field_def find_string_Cons Let_def cut split: option.split)
qed

lemma get_field_skip: "k \<notin> set u \<Longrightarrow> get_field (u @ s) (k # key) = get_field s (k # key)"
  by (induction u) (auto simp: get_field_Cons)

lemma get_field_key_value: "get_field = key_value"
  by (simp add: fun_eq_iff get_field_def key_value_def)

section \<open>Setting the authority\<close>

definition rolled_to :: "u64 \<Rightarrow> u64 \<Rightarrow> AuthorityState \<Rightarrow> AuthorityState" where
  "rolled_to prov dep a = a\<lparr>
     a_state_generation := ScalarIdentifier 1, a_provenance_generation := ScalarIdentifier prov,
     a_dependency_generation := ScalarIdentifier dep, a_model_generation := ScalarIdentifier 1,
     a_attempt_id := ScalarIdentifier 1, a_attempt_generation := ScalarIdentifier 1,
     a_policy_generation := ScalarIdentifier 1\<rparr>"

lemma set_authority_values:
  assumes "hx (key_value t ''state_gen'') = 1" "hx (key_value t ''prov_gen'') = p" "hx (key_value t ''dep_gen'') = d"
    "hx (key_value t ''model_gen'') = 1" "hx (key_value t ''attempt'') = 1" "hx (key_value t ''attempt_gen'') = 1"
    "hx (key_value t ''policy_gen'') = 1" "p \<noteq> 0" "d \<noteq> 0"
  shows "set_authority t s = s\<lparr>st_authority := rolled_to p d (st_authority s)\<rparr>"
proof -
  have "set_authority t s = store_set_policy_generation (ScalarIdentifier 1)
      (store_begin_attempt (ScalarIdentifier 1) (ScalarIdentifier 1)
        (store_set_model_generation (ScalarIdentifier 1) (store_set_dependency_generation (ScalarIdentifier d)
          (store_roll_provenance_generation (ScalarIdentifier p)
            (store_roll_state_generation (ScalarIdentifier 1) s)))))"
    using assms(8,9) by (simp add: set_authority_def Let_def assms(1-7) when_set_def)
  also have "\<dots> = s\<lparr>st_authority := rolled_to p d (st_authority s)\<rparr>"
    unfolding store_authority_defs rolled_to_def authority_ops
    by (rule ProvenanceStore.equality) simp_all
  finally show ?thesis .
qed

lemma hx_numerals: "hx ''1'' = 1" "hx ''2'' = 2"
  using hx_printed(2) [of 1] hx_printed(2) [of 2] strtoull16_dec_string [of 1] strtoull16_dec_string [of 2]
  by (simp_all add: dec_string.simps hex_digit_def)

lemma scenario_texts:
  "set_authority ''state_gen=1;prov_gen=1;dep_gen=1;model_gen=1;attempt=1;attempt_gen=1;policy_gen=1'' s
    = s\<lparr>st_authority := rolled_to 1 1 (st_authority s)\<rparr>"
  "set_authority ''state_gen=1;prov_gen=1;dep_gen=2;model_gen=1;attempt=1;attempt_gen=1;policy_gen=1'' s
    = s\<lparr>st_authority := rolled_to 1 2 (st_authority s)\<rparr>"
  "set_authority ''state_gen=1;prov_gen=2;dep_gen=2;model_gen=1;attempt=1;attempt_gen=1;policy_gen=1'' s
    = s\<lparr>st_authority := rolled_to 2 2 (st_authority s)\<rparr>"
  by (rule set_authority_values;
    simp add: get_field_key_value [symmetric] get_field_Cons get_field_Nil hx_numerals)+

lemma set_authority_op_value [simp]:
  "set_authority_op io t (Connected c) = (True, Connected (c\<lparr>co_store := set_authority t (co_store c)\<rparr>))"
  by (simp add: set_authority_op_def handle_request_def handle_set_authority_def)

end
