(* ===== verification/Wire_Session.thy ===== *)
theory Wire_Session
  imports Mp_Proof
begin

text \<open>
  The processes on the wire.  The loop of one connection of \<^verbatim>\<open>coordinator.cpp\<close> is shown to serve the
  frames of its stream one after the other, and \<^verbatim>\<open>main\<close> of \<^verbatim>\<open>worker.cpp\<close> at the other end of that
  connection to do what \<open>run_worker\<close> of \<open>Mp_Proof\<close> says, whatever the segments the bytes arrive in.
\<close>

section \<open>Frames on a stream\<close>

definition frame_bytes :: "Op \<Rightarrow> byte list \<Rightarrow> byte list" where
  "frame_bytes opcode payload =
     (if kMaxFrame < frame_length payload then [] else bytes_u32 (frame_length payload) @ Op_val opcode # payload)"

lemma parse_frame_shorter:
  "parse_frame p = Some (op, payload) \<Longrightarrow> 5 + length payload \<le> length p"
proof -
  assume f: "parse_frame p = Some (op, payload)"
  then have "unat (or_bytes 0 (take 4 p) :: u32) \<noteq> 0" by (auto simp: parse_frame_def Let_def unat_eq_0 split: if_splits)
  with f show ?thesis by (auto simp: parse_frame_def Let_def split: if_splits)
qed

function frames_of :: "byte list \<Rightarrow> (byte \<times> byte list) list" where
  "frames_of p =
     (case parse_frame p of
        None \<Rightarrow> []
      | Some (op, payload) \<Rightarrow> (op, payload) # frames_of (drop (5 + length payload) p))"
  by pat_completeness auto
termination
  by (relation "measure length") (auto dest!: parse_frame_shorter)

declare frames_of.simps [simp del]

lemma parse_frame_bytes:
  assumes "length payload < 2 ^ 25"
  shows "parse_frame (frame_bytes opcode payload @ rest) = Some (Op_val opcode, payload)"
    "length (frame_bytes opcode payload) = 5 + length payload" "\<not> kMaxFrame < frame_length payload"
proof -
  have len: "unat (frame_length payload) = length payload + 1"
  proof -
    have "frame_length payload = of_nat (length payload + 1)" by (simp add: frame_length_def)
    moreover have "unat (of_nat (length payload + 1) :: u32) = length payload + 1"
      using assms by (simp only: unat_of_nat) (simp add: take_bit_nat_eq_self)
    ultimately show ?thesis by simp
  qed
  then show le: "\<not> kMaxFrame < frame_length payload"
    using assms by (simp add: kMaxFrame_def word_less_nat_alt)
  have "frame_length payload \<noteq> 0" using len by auto
  with le len show "parse_frame (frame_bytes opcode payload @ rest) = Some (Op_val opcode, payload)"
    by (simp add: frame_bytes_def parse_frame_def Let_def nth_append)
  show "length (frame_bytes opcode payload) = 5 + length payload"
    using le by (simp add: frame_bytes_def bytes_u32_def)
qed

lemma frames_of_bytes:
  assumes "length payload < 2 ^ 25"
  shows "frames_of (frame_bytes opcode payload @ rest) = (Op_val opcode, payload) # frames_of rest"
  using parse_frame_bytes [OF assms] by (simp add: frames_of.simps [of "frame_bytes opcode payload @ rest"])

lemma frames_of_Nil [simp]: "frames_of [] = []"
  by (simp add: frames_of.simps parse_frame_def)

section \<open>Sockets that take everything\<close>

definition ample :: "nat \<Rightarrow> Socket \<Rightarrow> bool" where
  "ample n s \<longleftrightarrow> n \<le> length (so_quota s) \<and> (\<forall>q \<in> set (so_quota s). 0 < q)"

lemma ample_mono: "ample n s \<Longrightarrow> m \<le> n \<Longrightarrow> ample m s"
  by (simp add: ample_def)

lemma send_all_ample:
  assumes "ample (length bs + n) s"
  shows "\<exists>s'. send_all sock_send bs s = (True, s') \<and> ample n s'"
  using assms
proof (induction bs arbitrary: s rule: length_induct)
  case (1 bs)
  show ?case
  proof (cases "bs = []")
    case True
    with 1 show ?thesis by (simp add: send_all.simps)
  next
    case False
    with "1.prems" obtain q qs where q: "so_quota s = q # qs" "0 < q" "length bs + n \<le> Suc (length qs)" "\<forall>q \<in> set qs. 0 < q"
      by (cases "so_quota s") (auto simp: ample_def)
    obtain k s1 where k: "sock_send bs s = (k, s1)" by (rule prod.exhaust)
    with q False have k': "0 < k" "so_quota s1 = qs" "k \<le> length bs" by (auto simp: sock_send_def)
    then have "length (drop k bs) < length bs" "ample (length (drop k bs) + n) s1"
      using q by (auto simp: ample_def)
    with "1.IH" obtain s' where "send_all sock_send (drop k bs) s1 = (True, s')" "ample n s'" by blast
    with False k k' show ?thesis by (auto simp: send_all.simps [of sock_send bs])
  qed
qed

lemma send_frame_ample:
  assumes "ample (length (frame_bytes opcode payload) + n) s"
  obtains s' where "send_frame sock_send (Op_val opcode) payload s = (\<not> kMaxFrame < frame_length payload, s')"
    "so_in s' = so_in s" "so_out s' = so_out s @ frame_bytes opcode payload" "ample n s'"
proof (cases "kMaxFrame < frame_length payload")
  case True
  with assms show thesis by (intro that [of s]) (simp_all add: send_frame_def frame_bytes_def)
next
  case False
  with assms have a: "ample (length (bytes_u32 (frame_length payload)) + (length [Op_val opcode] + (length payload + n))) s"
    by (simp add: frame_bytes_def ac_simps)
  obtain s1 where s1: "send_all sock_send (bytes_u32 (frame_length payload)) s = (True, s1)"
    "ample (length [Op_val opcode] + (length payload + n)) s1" using send_all_ample [OF a] by blast
  obtain s2 where s2: "send_all sock_send [Op_val opcode] s1 = (True, s2)" "ample (length payload + n) s2"
    using send_all_ample [OF s1(2)] by blast
  obtain s3 where s3: "send_all sock_send payload s2 = (True, s3)" "ample n s3"
    using send_all_ample [OF s2(2)] by blast
  have f: "send_frame sock_send (Op_val opcode) payload s = (True, s3)"
    using False s1(1) s2(1) s3(1) by (cases "payload = []") (simp_all add: send_frame_def send_all.simps [of sock_send "[]"])
  from segments.send_frame_sent [OF this] False s3(2) send_frame_keeps_in [of "Op_val opcode" payload s] f
  show thesis by (intro that [of s3]) (simp_all add: frame_bytes_def)
qed

lemma recv_all_keeps:
  "recv_all sock_recv n s = (got, s') \<Longrightarrow> so_out s' = so_out s \<and> so_quota s' = so_quota s"
proof (induction n arbitrary: s got s' rule: less_induct)
  case (less n)
  obtain bs s1 where r: "sock_recv n s = (bs, s1)" by (rule prod.exhaust)
  have one: "so_out s1 = so_out s" "so_quota s1 = so_quota s"
    using r by (auto simp: sock_recv_def split: list.splits if_splits)
  show ?case
  proof (cases "n = 0 \<or> bs = []")
    case True
    with less.prems r one show ?thesis by (auto simp: recv_all.simps [of sock_recv n] split: if_splits)
  next
    case False
    obtain got1 s2 where r2: "recv_all sock_recv (n - length bs) s1 = (got1, s2)" by (rule prod.exhaust)
    with less.prems r False have "s' = s2" by (auto simp: recv_all.simps [of sock_recv n] split: option.splits)
    with less.IH [OF _ r2] False one show ?thesis by auto
  qed
qed

lemma recv_frame_keeps:
  assumes "recv_frame sock_recv s = (got, s')"
  shows "so_out s' = so_out s" "so_quota s' = so_quota s"
  using assms by (auto simp: recv_frame_def Let_def dest!: recv_all_keeps split: prod.splits option.splits if_splits)

lemma ample_recv: "recv_frame sock_recv s = (got, s') \<Longrightarrow> ample n s' = ample n s"
  by (simp add: ample_def recv_frame_keeps)

section \<open>Serving a list of requests\<close>

fun serve ::
  "(nat \<Rightarrow> IoFaults) \<Rightarrow> nat \<Rightarrow> (byte \<times> byte list) list \<Rightarrow> Coordinator \<Rightarrow> conn_end \<times> string list \<times> Coordinator" where
  "serve ios k [] c = (Conn_closed, [], c)"
| "serve ios k ((op, payload) # reqs) c =
     (if co_stopping c then (Conn_closed, [], c)
      else case handle_request (ios k) op payload c of
          (None, c) \<Rightarrow> (Conn_threw, [], c)
        | (Some reply, c) \<Rightarrow>
            if op = Op_val Op_Shutdown then (Conn_returned, [reply], c)
            else (case serve ios (Suc k) reqs c of (e, replies, c) \<Rightarrow> (e, reply # replies, c)))"

definition reply_bytes :: "string list \<Rightarrow> byte list" where
  "reply_bytes replies = concat (map (\<lambda>r. frame_bytes Op_Respond (bytes_of_string r)) replies)"

lemma connection_serves:
  assumes "serve ios k (frames_of (so_pending sock)) c = (e, replies, c')"
  shows "\<exists>sock'. handle_connection ios k sock c = Some (e, sock', c')
    \<and> (ample (length (reply_bytes replies)) sock \<longrightarrow> so_out sock' = so_out sock @ reply_bytes replies)"
  using assms
proof (induction "length (so_pending sock)" arbitrary: k sock c replies rule: less_induct)
  case less
  note frames = frames_of.simps [of "so_pending sock"]
  obtain got sock1 where r: "recv_frame sock_recv sock = (got, sock1)" by (rule prod.exhaust)
  note keep = recv_frame_keeps [OF r] and cut = recv_frame_cut [of sock, unfolded r]
  show ?case
  proof (cases "co_stopping c \<or> got = None")
    case True
    with less.prems r cut keep have "(e, replies, c') = (Conn_closed, [], c)"
      by (cases "frames_of (so_pending sock)") (auto simp: frames)
    with True r keep show ?thesis by (auto simp: handle_connection.simps [of ios k sock c] reply_bytes_def)
  next
    case False
    then obtain op payload where f: "got = Some (op, payload)" by auto
    let ?rest = "frames_of (so_pending sock1)"
    have "parse_frame (so_pending sock) = Some (op, payload)" "so_pending sock1 = drop (5 + length payload) (so_pending sock)"
      using cut f by auto
    then have fr: "frames_of (so_pending sock) = (op, payload) # ?rest" by (simp add: frames)
    obtain rep c1 where h: "handle_request (ios k) op payload c = (rep, c1)" by (rule prod.exhaust)
    show ?thesis
    proof (cases rep)
      case None
      with False r f h less.prems fr keep show ?thesis
        by (auto simp: handle_connection.simps [of ios k sock c] reply_bytes_def)
    next
      case (Some reply)
      obtain ok sock2 where s: "send_frame sock_send (Op_val Op_Respond) (bytes_of_string reply) sock1 = (ok, sock2)"
        by (rule prod.exhaust)
      have pend: "so_pending sock2 = so_pending sock1"
        using send_frame_keeps_in [of "Op_val Op_Respond" "bytes_of_string reply" sock1] s by (simp add: so_pending_def)
      have sent: "so_out sock2 = so_out sock @ reply_bytes [reply] \<and> ample n sock2"
        if "ample (length (reply_bytes [reply]) + n) sock" for n
        using send_frame_ample [of Op_Respond "bytes_of_string reply" n sock1] that s keep
        by (auto simp: reply_bytes_def ample_def)
      show ?thesis
      proof (cases "op = Op_val Op_Shutdown")
        case True
        with False r f h Some s less.prems fr sent [of 0] show ?thesis
          by (auto simp: handle_connection.simps [of ios k sock c])
      next
        case more: False
        obtain e2 rs c2 where srv: "serve ios (Suc k) ?rest c1 = (e2, rs, c2)" by (metis prod_cases3)
        have out: "e = e2" "replies = reply # rs" "c' = c2"
          using less.prems fr False h Some more srv by simp_all
        have "length (so_pending sock2) < length (so_pending sock)"
          using recv_frame_progress [of sock "(op, payload)" sock1] r f pend by simp
        from less.hyps [OF this, of "Suc k" c1 rs] srv out pend
        obtain sock' where ih: "handle_connection ios (Suc k) sock2 c1 = Some (e, sock', c')"
          "ample (length (reply_bytes rs)) sock2 \<longrightarrow> so_out sock' = so_out sock2 @ reply_bytes rs" by auto
        have split: "reply_bytes replies = reply_bytes [reply] @ reply_bytes rs" by (simp add: out reply_bytes_def)
        have "handle_connection ios k sock c = Some (e, sock', c')"
          using False more r f h Some s ih(1) by (simp add: handle_connection.simps [of ios k sock c])
        with ih(2) sent [of "length (reply_bytes rs)"] split show ?thesis by auto
      qed
    qed
  qed
qed

section \<open>Both ends\<close>

abbreviation arg_worker :: "string list \<Rightarrow> WorkerId" where "arg_worker args \<equiv> ScalarIdentifier (hx (args ! 1))"
abbreviation arg_boot :: "string list \<Rightarrow> WorkerBootId" where "arg_boot args \<equiv> ScalarIdentifier (hx (args ! 2))"
abbreviation arg_state :: "string list \<Rightarrow> StateId" where "arg_state args \<equiv> ScalarIdentifier (hx (args ! 4))"
abbreviation arg_input :: "string list \<Rightarrow> StateId" where
  "arg_input args \<equiv> (if 6 \<le> length args then ScalarIdentifier (hx (args ! 5)) else null_id)"
abbreviation producing :: "string list \<Rightarrow> bool" where
  "producing args \<equiv> args ! 3 = ''produce_root'' \<or> args ! 3 = ''produce_child''"

abbreviation arg_hello :: "string list \<Rightarrow> byte list" where
  "arg_hello args \<equiv> worker_hello (arg_worker args) (arg_boot args)"
abbreviation arg_payload :: "string \<Rightarrow> string list \<Rightarrow> byte list option" where
  "arg_payload greeting args \<equiv> worker_publish_payload (kv_parse greeting)
     (arg_worker args) (arg_boot args) (args ! 3) (arg_state args) (arg_input args)"

lemma drain_keeps_out [simp]: "so_out (drain s) = so_out s"
proof (induction s rule: drain.induct)
  case (1 s)
  then show ?case by (auto simp: drain.simps [of s] recv_frame_keeps split: prod.split option.split)
qed

lemma worker_payload_length:
  assumes "worker_publish_payload auth wid boot mode sid inp = Some payload"
  shows "length payload \<le> 1104"
  using assms worker_record_length [of auth wid boot mode sid inp]
  by (auto simp: worker_publish_payload_def encode_publish_payload_def)

lemma length_hello [simp]: "length (worker_hello wid boot) = 16"
  by (simp add: worker_hello_def)

definition worker_wire :: "string list \<Rightarrow> byte list \<Rightarrow> byte list \<Rightarrow> nat option \<Rightarrow> string list \<Rightarrow> bool" where
  "worker_wire args received sent code lines \<longleftrightarrow>
     (case parse_frame received of
        None \<Rightarrow> sent = frame_bytes Op_Hello (arg_hello args)
      | Some (op, resp) \<Rightarrow>
          if producing args then
            (\<exists>payload. arg_payload (string_of_bytes resp) args = Some payload
              \<and> sent = frame_bytes Op_Hello (arg_hello args) @ frame_bytes Op_Publish payload
              \<and> (\<forall>op' resp'. parse_frame (drop (5 + length resp) received) = Some (op', resp') \<longrightarrow>
                  code = Some 0
                  \<and> lines = [''WORKER_PUBLISH '' @ to_string (arg_state args) @ '' '' @ string_of_bytes resp']))
          else sent = frame_bytes Op_Hello (arg_hello args)
            \<and> code = Some 0 \<and> lines = [''WORKER_REGISTER '' @ to_string (arg_boot args)])"

lemma worker_on_wire:
  assumes "5 \<le> length args" "so_out w = []" "ample 2000 w"
    and "worker_main True args (Some w) = (code, lines, Some w')"
  shows "worker_wire args (so_pending w) (so_out w') code lines"
proof -
  let ?hello = "arg_hello args"
  have hl: "length ?hello < 2 ^ 25" by simp
  have "ample (length (frame_bytes Op_Hello ?hello) + 1900) w"
    by (rule ample_mono [OF assms(3)]) (use parse_frame_bytes(2) [OF hl, of Op_Hello] in simp)
  then obtain w1 where w1: "send_frame sock_send (Op_val Op_Hello) ?hello w = (True, w1)"
    "so_in w1 = so_in w" "so_out w1 = frame_bytes Op_Hello ?hello" "ample 1900 w1"
    using parse_frame_bytes(3) [OF hl] assms(2) by (elim send_frame_ample) simp
  obtain got w2 where r: "recv_frame sock_recv w1 = (got, w2)" by (rule prod.exhaust)
  have "so_pending w1 = so_pending w" using w1(2) by (simp add: so_pending_def)
  note cut = recv_frame_cut [of w1, unfolded r this] and keep = recv_frame_keeps [OF r] and a2 = ample_recv [OF r]
  show ?thesis
  proof (cases got)
    case None
    with assms(1,4) w1 r cut keep show ?thesis
      by (simp add: worker_wire_def worker_main_def)
  next
    case (Some f)
    obtain op resp where f: "f = (op, resp)" by (rule prod.exhaust)
    have here: "parse_frame (so_pending w) = Some (op, resp)" "so_pending w2 = drop (5 + length resp) (so_pending w)"
      using cut Some f by auto
    show ?thesis
    proof (cases "producing args")
      case False
      with assms(1,4) w1(1,3) r keep(1) show ?thesis
        unfolding worker_wire_def here(1) by (auto simp: worker_main_def Some f Let_def)
    next
      case True
      obtain payload where p: "arg_payload (string_of_bytes resp) args = Some payload"
        using worker_payload_exists by blast
      have pl: "length payload < 2 ^ 25" using worker_payload_length [OF p] by simp
      have "ample (length (frame_bytes Op_Publish payload) + 0) w2"
        by (rule ample_mono [of 1900])
          (use w1(4) a2 worker_payload_length [OF p] parse_frame_bytes(2) [OF pl, of Op_Publish] in simp_all)
      then obtain w3 where w3: "send_frame sock_send (Op_val Op_Publish) payload w2 = (True, w3)"
        "so_in w3 = so_in w2" "so_out w3 = so_out w2 @ frame_bytes Op_Publish payload"
        using parse_frame_bytes(3) [OF pl] by (elim send_frame_ample) simp
      obtain got2 w4 where r2: "recv_frame sock_recv w3 = (got2, w4)" by (rule prod.exhaust)
      have "so_pending w3 = so_pending w2" using w3(2) by (simp add: so_pending_def)
      note cut2 = recv_frame_cut [of w3, unfolded r2 this] and keep2 = recv_frame_keeps [OF r2]
      have main: "worker_main True args (Some w) = (case got2 of
          None \<Rightarrow> (Some 5, [], Some w4)
        | Some (op', resp') \<Rightarrow> (Some 0, [''WORKER_PUBLISH '' @ to_string (arg_state args) @ '' ''
            @ string_of_bytes resp'], Some (drain w4)))"
        using True
        by (simp only: worker_main_def Let_def not_less [THEN iffD2, OF assms(1)] not_True_eq_False if_False option.case prod.case bool.case
            w1(1) r Some f p w3(1) r2 simp_thms if_True not_not)
      have "so_out w' = frame_bytes Op_Hello ?hello @ frame_bytes Op_Publish payload"
        using assms(4) main w1(3) w3(3) keep(1) keep2(1) by (cases got2) auto
      moreover have "code = Some 0 \<and> lines = [''WORKER_PUBLISH '' @ to_string (arg_state args) @ '' '' @ string_of_bytes resp']"
        if "parse_frame (drop (5 + length resp) (so_pending w)) = Some (op', resp')" for op' resp'
        using assms(4) main cut2 that here(2) by (cases got2) auto
      ultimately show ?thesis
        unfolding worker_wire_def here(1) option.case prod.case if_P [OF True] using p by blast
    qed
  qed
qed

text \<open>Every reply of the session is short.\<close>

definition short_verdict :: "FenceVerdict \<Rightarrow> bool" where
  "short_verdict v \<longleftrightarrow> length (v_dimension v) + length (v_detail v) \<le> 200"

lemma short_verdict_intros:
  "length dim + length det \<le> 200 \<Longrightarrow> short_verdict (reject dim det)"
  "short_verdict v \<Longrightarrow> short_verdict v' \<Longrightarrow> short_verdict (if b then v else v')"
  "(\<And>v. w = Some v \<Longrightarrow> short_verdict v) \<Longrightarrow> short_verdict v'
    \<Longrightarrow> short_verdict (case w of None \<Rightarrow> v' | Some v \<Rightarrow> v)"
  by (simp_all add: short_verdict_def reject_def split: option.split)

lemma boot_check_short: "boot_check a cl = Some v \<Longrightarrow> short_verdict v"
  by (auto simp: boot_check_def short_verdict_def reject_def split: if_splits option.splits)

lemma unat_text_short: "length (dec_string (unat (v :: u64))) + length (dec_string (unat (v' :: u64))) \<le> 40"
  using length_dec_string [of "unat v" 19] length_dec_string [of "unat v'" 19] unat_u64_less [of v] unat_u64_less [of v']
  by simp

lemma evaluate_claim_short: "short_verdict (evaluate_claim a cl)"
  unfolding evaluate_claim_def using unat_text_short [of "claim_coordinator_epoch cl" "a_epoch a"]
  by (intro short_verdict_intros) (auto dest: boot_check_short simp: short_verdict_def)

lemma worker_reply_short:
  assumes inv: "store_inv (co_store c)" and sid: "valid sid"
    and p: "worker_publish_payload auth wid boot mode sid inp = Some payload"
    and r: "handle_request io (Op_val Op_Publish) payload c = (r, c')"
  shows "\<exists>reply. r = Some reply \<and> length reply \<le> 300"
proof -
  let ?d = "worker_record auth wid boot mode sid inp" and ?cl = "wire_claim (worker_claim auth wid boot)"
  note ok = worker_record_ok [OF sid]
  have dec: "decode_publish_payload payload = Some (?d, ?cl)"
    using decode_publish_encoded [of ?d "worker_claim auth wid boot" payload "[]"] p ok
    by (simp add: worker_publish_payload_def)
  have h: "handle_publish payload c = (r, c')" using r by (simp add: handle_request_def)
  have "length (insertion_error ?d (co_store c)) \<le> 100"
    by (auto simp: insertion_error_def worker_record_def empty_record_def split: option.split)
  moreover have "publish_validated ?d (co_store c) = insert_validated ?d (co_store c)"
    using ok(1) by (simp add: publish_validated_def validate_record_None_iff [symmetric])
  ultimately show ?thesis
    using h dec ok(1) evaluate_claim_short [of "st_authority (co_store c)" ?cl]
      publish_validated_cases [OF inv, of ?d] insert_refused [of ?d "co_store c"]
    by (cases "insertable ?d (co_store c)") (auto simp: handle_publish_def publish_fenced_alt failure_def short_verdict_def split: if_splits)
qed

lemma greeting_short: "length (authority_summary s) \<le> 255"
  by (simp add: authority_summary_def in_buffer_def Let_def)

lemma request_faults:
  "op \<noteq> Op_val Op_Save \<Longrightarrow> handle_request io op payload c = handle_request io' op payload c"
  by (simp add: handle_request_def)

lemma reply_bytes_length: "\<forall>r \<in> set replies. length r \<le> 300 \<Longrightarrow> length (reply_bytes replies) \<le> 305 * length replies"
proof (induction replies)
  case (Cons r rs)
  have "length (frame_bytes Op_Respond (bytes_of_string r)) = 5 + length r"
    using parse_frame_bytes(2) [of "bytes_of_string r" Op_Respond] Cons.prems by simp
  with Cons show ?case by (auto simp: reply_bytes_def)
qed (simp add: reply_bytes_def)

lemma served:
  assumes "serve ios k (frames_of (so_pending s)) c = (e, replies, c')" "\<forall>r \<in> set replies. length r \<le> 300"
    and "length replies \<le> 2" "so_out s = []" "ample 2000 s" "handle_connection ios k s c = Some (e', s', c2)"
  shows "e' = e" "c2 = c'" "so_out s' = reply_bytes replies"
proof -
  have "ample (length (reply_bytes replies)) s"
    by (rule ample_mono [OF assms(5)]) (use reply_bytes_length [OF assms(2)] assms(3) in simp)
  with connection_serves [OF assms(1)] assms(4,6)
  show "e' = e" "c2 = c'" "so_out s' = reply_bytes replies" by auto
qed

lemma reply_bytes_parse:
  assumes "length r \<le> 300"
  shows "parse_frame (reply_bytes (r # rs)) = Some (Op_val Op_Respond, bytes_of_string r)"
    "drop (5 + length r) (reply_bytes (r # rs)) = reply_bytes rs"
  using parse_frame_bytes(1,2) [of "bytes_of_string r" Op_Respond] assms by (simp_all add: reply_bytes_def)

definition fresh_socket :: "Socket \<Rightarrow> bool" where
  "fresh_socket s \<longleftrightarrow> so_out s = [] \<and> ample 2000 s"

abbreviation greeted :: "string list \<Rightarrow> Coordinator \<Rightarrow> Coordinator" where
  "greeted args c \<equiv> c\<lparr>co_store := store_register_boot (arg_worker args) (arg_boot args) (co_store c)\<rparr>"
abbreviation greeting :: "string list \<Rightarrow> Coordinator \<Rightarrow> string" where
  "greeting args c \<equiv> authority_summary (co_store (greeted args c))"
abbreviation hello_frame :: "string list \<Rightarrow> byte list" where
  "hello_frame args \<equiv> frame_bytes Op_Hello (arg_hello args)"

lemma hello_handled: "handle_request io (Op_val Op_Hello) (arg_hello args) c = (Some (greeting args c), greeted args c)"
proof -
  obtain g c1 where h: "handle_request io (Op_val Op_Hello) (arg_hello args) c = (Some g, c1)"
    by (simp add: handle_request_def handle_hello_def Let_def)
  from hello_registers [OF h] h show ?thesis by simp
qed

lemma greeting_fits: "length (greeting args c) \<le> 300"
  using greeting_short [of "co_store (greeted args c)"] by simp

lemma serves_hello:
  assumes "\<not> co_stopping c"
  shows "serve ios 0 (frames_of (hello_frame args @ rest)) c =
    (case serve ios 1 (frames_of rest) (greeted args c) of (e, replies, c') \<Rightarrow> (e, greeting args c # replies, c'))"
  using assms frames_of_bytes [of "arg_hello args" Op_Hello rest] hello_handled [of _ args c]
  by (simp del: One_nat_def) simp

lemma serves_publication:
  assumes "store_inv (co_store c)" "\<not> co_stopping c" "valid (arg_state args)" "arg_payload g args = Some payload"
  shows "\<exists>reply c2. (\<forall>io. handle_request io (Op_val Op_Publish) payload (greeted args c) = (Some reply, c2))
    \<and> length reply \<le> 300 \<and> (reply = ''ok'' \<longleftrightarrow> co_accepted c2 = co_accepted c + 1)
    \<and> serve ios 0 (frames_of (hello_frame args @ frame_bytes Op_Publish payload)) c
      = (Conn_closed, [greeting args c, reply], c2)"
proof -
  have inv: "store_inv (co_store (greeted args c))" using request_inv [OF assms(1) hello_handled] .
  obtain r c2 where pub: "handle_request ok_io (Op_val Op_Publish) payload (greeted args c) = (r, c2)" by (rule prod.exhaust)
  obtain reply where reply: "r = Some reply" "length reply \<le> 300"
    using worker_reply_short [OF inv assms(3,4) pub] by blast
  have all: "handle_request io (Op_val Op_Publish) payload (greeted args c) = (Some reply, c2)" for io
    using request_faults [of "Op_val Op_Publish" io payload "greeted args c" ok_io] pub reply(1) by simp
  have "reply = ''ok'' \<longleftrightarrow> co_accepted c2 = co_accepted c + 1"
    using publish_request [OF inv _ pub] reply(1) by (auto simp: is_publish_def)
  moreover have "frames_of (frame_bytes Op_Publish payload) = [(Op_val Op_Publish, payload)]"
    using frames_of_bytes [of payload Op_Publish "[]"] worker_payload_length [OF assms(4)] by simp
  then have "serve ios 1 (frames_of (frame_bytes Op_Publish payload)) (greeted args c) = (Conn_closed, [reply], c2)"
    using assms(2) all by simp
  then have "serve ios 0 (frames_of (hello_frame args @ frame_bytes Op_Publish payload)) c
      = (Conn_closed, [greeting args c, reply], c2)"
    by (simp add: serves_hello [OF assms(2)] del: One_nat_def)
  ultimately show ?thesis using all reply(2) by blast
qed

section \<open>Properties\<close>

text \<open>
  C34: a connection is its requests.  However the network cuts the stream, the loop of
  \<^verbatim>\<open>handle_connection\<close> returns, and ends in the way, with the state and with the replies of serving
  the requests in the stream one after the other; if the socket takes what it is offered, the bytes
  sent are the frames of the replies, and nothing else.
\<close>

theorem connection_serves_requests:
  assumes "serve ios k (frames_of (so_pending sock)) c = (e, replies, c')"
  shows "\<exists>sock'. handle_connection ios k sock c = Some (e, sock', c')
    \<and> (ample (length (reply_bytes replies)) sock \<longrightarrow> so_out sock' = so_out sock @ reply_bytes replies)"
  using assms by (rule connection_serves)

definition patient_socket :: "nat \<Rightarrow> byte list list \<Rightarrow> Socket" where
  "patient_socket n segs = \<lparr>so_in = segs, so_quota = replicate n 1, so_out = []\<rparr>"

lemma patient_socket_facts [simp]:
  "so_out (patient_socket n segs) = []" "ample m (patient_socket n segs) \<longleftrightarrow> m \<le> n"
  "so_pending (patient_socket n segs) = concat (takeWhile (\<lambda>c. c \<noteq> []) segs)"
  by (auto simp: patient_socket_def ample_def so_pending_def)

theorem connection_serves_requests_witness:
  "\<exists>sock' c'. handle_connection (\<lambda>k. ok_io) 0 (patient_socket 100 [[1, 0], [0, 0, 4, 1, 0, 0], [0, 9]])
      (initial_coordinator (\<lambda>p. None)) = Some (Conn_returned, sock', c')
    \<and> so_out sock' = reply_bytes [''epoch=2'', ''bye''] \<and> store_epoch (co_store c') = 2"
proof -
  let ?c = "initial_coordinator (\<lambda>p. None)"
    and ?s = "patient_socket 100 [[1, 0], [0, 0, 4, 1, 0, 0], [0, 9]]"
  have frames: "frames_of (so_pending ?s) = [(Op_val Op_RollEpoch, []), (Op_val Op_Shutdown, [])]"
    by (simp add: frames_of.simps parse_frame_def kMaxFrame_def)
  obtain c' where srv: "serve (\<lambda>k. ok_io) 0 (frames_of (so_pending ?s)) ?c = (Conn_returned, [''epoch=2'', ''bye''], c')"
    and epoch: "store_epoch (co_store c') = 2"
    unfolding frames
    by (simp add: handle_request_def handle_roll_epoch_def store_roll_epoch_def roll_epoch_def initial_coordinator_def
        empty_store_def initial_authority_def unsigned_text_def store_epoch_def dec_string.simps hex_digit_def)
  have "length (reply_bytes [''epoch=2'', ''bye'']) \<le> 100"
    using reply_bytes_length [of "[''epoch=2'', ''bye'']"] by (simp add: reply_bytes_def frame_bytes_def bytes_u32_def)
  with connection_serves_requests [OF srv] epoch show ?thesis by auto
qed

text \<open>What the coordinator has sent when the stream held only the hello, or a publication after it.\<close>

lemma hello_on_wire:
  assumes "\<not> co_stopping c" "fresh_socket s" "handle_connection ios 0 s c = Some (e, s', c')"
    and "so_pending s = hello_frame args @ []"
  shows "e = Conn_closed" "c' = greeted args c" "so_out s' = reply_bytes [greeting args c]"
proof -
  have "serve ios 0 (frames_of (so_pending s)) c = (Conn_closed, [greeting args c], greeted args c)"
    unfolding assms(4) serves_hello [OF assms(1)] by simp
  from served [OF this _ _ _ _ assms(3)] assms(2) greeting_fits [of args c]
  show "e = Conn_closed" "c' = greeted args c" "so_out s' = reply_bytes [greeting args c]"
    by (auto simp: fresh_socket_def)
qed

lemma publication_on_wire:
  assumes "store_inv (co_store c)" "\<not> co_stopping c" "valid (arg_state args)" "arg_payload g args = Some payload"
    and "fresh_socket s" "handle_connection ios 0 s c = Some (e, s', c')"
    and "so_pending s = hello_frame args @ frame_bytes Op_Publish payload"
  obtains reply where "\<forall>io. handle_request io (Op_val Op_Publish) payload (greeted args c) = (Some reply, c')"
    "length reply \<le> 300" "reply = ''ok'' \<longleftrightarrow> co_accepted c' = co_accepted c + 1"
    "e = Conn_closed" "so_out s' = reply_bytes [greeting args c, reply]"
proof -
  obtain reply c2 where pub: "\<forall>io. handle_request io (Op_val Op_Publish) payload (greeted args c) = (Some reply, c2)"
    and reply: "length reply \<le> 300" "reply = ''ok'' \<longleftrightarrow> co_accepted c2 = co_accepted c + 1"
    and srv: "serve ios 0 (frames_of (so_pending s)) c = (Conn_closed, [greeting args c, reply], c2)"
    using serves_publication [OF assms(1-4), of ios] unfolding assms(7) by blast
  have "e = Conn_closed" "c' = c2" "so_out s' = reply_bytes [greeting args c, reply]"
    using served [OF srv _ _ _ _ assms(6)] assms(5) reply(1) greeting_fits [of args c] by (auto simp: fresh_socket_def)
  with pub reply show thesis by (intro that) simp_all
qed

text \<open>
  C26: the two processes over the wire.  If what the worker sends is what the coordinator's
  connection receives and the other way round, both sockets take what they are offered and the
  bytes arrive in any segments, then the worker exits with 0, the connection ends without an
  exception, the coordinator is left exactly as by the hello and the publication handled as two
  requests, and the worker prints \<^verbatim>\<open>ok\<close> if and only if the coordinator counted an acceptance.
\<close>

theorem session_over_the_wire:
  assumes "store_inv (co_store c)" "\<not> co_stopping c"
    and "5 \<le> length args" "producing args \<longrightarrow> valid (arg_state args)"
    and "fresh_socket w" "worker_main True args (Some w) = (code, lines, Some w')"
    and "fresh_socket s" "handle_connection ios 0 s c = Some (e, s', c')"
    and "so_pending s = so_out w'" "so_pending w = so_out s'"
  shows "code = Some 0 \<and> e = Conn_closed \<and> run_worker io args (Connected c) = Connected c'
    \<and> (lines = [''WORKER_PUBLISH '' @ to_string (arg_state args) @ '' ok''] \<longleftrightarrow> co_accepted c' = co_accepted c + 1)"
proof -
  note fresh = assms(5,7) [unfolded fresh_socket_def] and g = greeting_fits [of args c]
  have worker: "worker_wire args (so_pending w) (so_pending s) code lines"
    using worker_on_wire [OF assms(3) _ _ assms(6)] fresh(1) assms(9) by simp
  note only_hello = hello_on_wire [OF assms(2,7,8), of args, folded assms(10)]
  show ?thesis
  proof (cases "producing args")
    case False
    then have "so_pending s = hello_frame args @ []" using worker by (auto simp: worker_wire_def split: option.splits)
    note out = only_hello [OF this]
    have "code = Some 0 \<and> lines = [''WORKER_REGISTER '' @ to_string (arg_boot args)]"
      using worker False reply_bytes_parse(1) [OF g, of "[]"] out by (simp add: worker_wire_def)
    then show ?thesis
      using False out hello_handled [of io args c] by (simp add: run_worker_def)
  next
    case True
    then have sid: "valid (arg_state args)" using assms(4) by blast
    have "parse_frame (so_pending w) \<noteq> None"
    proof
      assume none: "parse_frame (so_pending w) = None"
      then have "so_pending s = hello_frame args @ []" using worker by (simp add: worker_wire_def)
      from only_hello(3) [OF this] none show False using reply_bytes_parse(1) [OF g, of "[]"] by simp
    qed
    then obtain op resp payload where f: "parse_frame (so_pending w) = Some (op, resp)"
      and p: "arg_payload (string_of_bytes resp) args = Some payload"
      and sent: "so_pending s = hello_frame args @ frame_bytes Op_Publish payload"
      and told: "\<forall>op' resp'. parse_frame (drop (5 + length resp) (so_pending w)) = Some (op', resp') \<longrightarrow> code = Some 0
        \<and> lines = [''WORKER_PUBLISH '' @ to_string (arg_state args) @ '' '' @ string_of_bytes resp']"
      using worker True by (auto simp: worker_wire_def)
    obtain reply where pub: "\<forall>io. handle_request io (Op_val Op_Publish) payload (greeted args c) = (Some reply, c')"
      and reply: "length reply \<le> 300" "reply = ''ok'' \<longleftrightarrow> co_accepted c' = co_accepted c + 1"
      and out: "e = Conn_closed" "so_pending w = reply_bytes [greeting args c, reply]"
      using publication_on_wire [OF assms(1,2) sid p assms(7,8) sent] assms(10) by metis
    have resp: "resp = bytes_of_string (greeting args c)"
      using f reply_bytes_parse(1) [OF g, of "[reply]"] by (simp add: out(2))
    have "code = Some 0 \<and> lines = [''WORKER_PUBLISH '' @ to_string (arg_state args) @ '' '' @ reply]"
      using told reply_bytes_parse(2) [OF g, of "[reply]"] reply_bytes_parse(1) [OF reply(1), of "[]"]
      by (simp add: out(2) resp)
    then show ?thesis
      using True out(1) hello_handled [of io args c] p pub reply(2) by (auto simp: run_worker_def resp)
  qed
qed

definition ends_with_socket :: "nat option \<times> string list \<times> Socket option \<Rightarrow> bool" where
  "ends_with_socket out \<longleftrightarrow> snd (snd out) \<noteq> None"

lemma ends_with_socket_intros:
  "ends_with_socket (code, lines, Some w)"
  "ends_with_socket a \<Longrightarrow> ends_with_socket b \<Longrightarrow> ends_with_socket (if p then a else b)"
  "(\<And>v. ends_with_socket (f v)) \<Longrightarrow> ends_with_socket n \<Longrightarrow> ends_with_socket (case x of None \<Rightarrow> n | Some v \<Rightarrow> f v)"
  "(\<And>v. ends_with_socket (g v)) \<Longrightarrow> (\<And>v. ends_with_socket (h v))
    \<Longrightarrow> ends_with_socket (case y of (b, v) \<Rightarrow> (case b of True \<Rightarrow> g v | False \<Rightarrow> h v))"
  "(\<And>op resp v. ends_with_socket (k op resp v)) \<Longrightarrow> (\<And>v. ends_with_socket (l v))
    \<Longrightarrow> ends_with_socket (case z of (None, v) \<Rightarrow> l v | (Some (op, resp), v) \<Rightarrow> k op resp v)"
  by (auto simp: ends_with_socket_def split: prod.split option.split bool.split)

lemma worker_main_keeps_socket: "\<exists>code lines w'. worker_main ready args (Some w) = (code, lines, Some w')"
proof -
  have "ends_with_socket (worker_main ready args (Some w))"
    unfolding worker_main_def Let_def option.case by (intro ends_with_socket_intros)
  then show ?thesis by (cases "worker_main ready args (Some w)") (auto simp: ends_with_socket_def)
qed

lemma session_exists:
  assumes "store_inv (co_store c)" "\<not> co_stopping c" "5 \<le> length args" "producing args" "valid (arg_state args)"
  shows "\<exists>w code lines w' s e s' c'. fresh_socket w \<and> fresh_socket s
    \<and> worker_main True args (Some w) = (code, lines, Some w') \<and> handle_connection ios 0 s c = Some (e, s', c')
    \<and> so_pending s = so_out w' \<and> so_pending w = so_out s'"
proof -
  obtain payload where p: "arg_payload (greeting args c) args = Some payload" using worker_payload_exists by blast
  obtain reply c' where reply: "length reply \<le> 300"
    and srv: "serve ios 0 (frames_of (hello_frame args @ frame_bytes Op_Publish payload)) c
      = (Conn_closed, [greeting args c, reply], c')"
    using serves_publication [OF assms(1,2,5) p] by blast
  define s where "s = patient_socket 2000 [hello_frame args, frame_bytes Op_Publish payload]"
  define w where "w = patient_socket 2000 [reply_bytes [greeting args c, reply]]"
  note g = greeting_fits [of args c]
  have "hello_frame args \<noteq> []" "frame_bytes Op_Publish payload \<noteq> []"
    using parse_frame_bytes(2) [of "arg_hello args" Op_Hello] parse_frame_bytes(2) [of payload Op_Publish]
      worker_payload_length [OF p] by auto
  then have s: "so_pending s = hello_frame args @ frame_bytes Op_Publish payload" "fresh_socket s"
    by (simp_all add: s_def fresh_socket_def)
  have "reply_bytes [greeting args c, reply] \<noteq> []" using parse_frame_shorter [OF reply_bytes_parse(1) [OF g, of "[reply]"]] by auto
  then have w: "so_pending w = reply_bytes [greeting args c, reply]" "fresh_socket w"
    by (simp_all add: w_def fresh_socket_def)
  obtain e s' c2 where run: "handle_connection ios 0 s c = Some (e, s', c2)" using connection_returns by (metis surj_pair)
  have "so_out s' = so_pending w"
    using served(3) [OF srv [folded s(1)] _ _ _ _ run] s(2) g reply by (simp add: fresh_socket_def w(1))
  moreover obtain code lines w' where main: "worker_main True args (Some w) = (code, lines, Some w')"
    using worker_main_keeps_socket by blast
  have "so_out w' = so_pending s"
    using worker_on_wire [OF assms(3) _ _ main] w(2) p reply_bytes_parse(1) [OF g, of "[reply]"] assms(4)
    by (auto simp: worker_wire_def fresh_socket_def w(1) s(1))
  ultimately show ?thesis using s(2) w(2) run main by metis
qed

definition demo_args :: "string list" where
  "demo_args = [''0'', to_string (ScalarIdentifier 7 :: WorkerId), to_string (ScalarIdentifier 9 :: WorkerBootId),
     ''produce_root'', to_string (ScalarIdentifier 3 :: StateId)]"

theorem session_over_the_wire_witness:
  "\<exists>w w' lines s s' c'. worker_main True demo_args (Some w) = (Some 0, lines, Some w')
    \<and> handle_connection (\<lambda>k. ok_io) 0 s (initial_coordinator (\<lambda>p. None)) = Some (Conn_closed, s', c')
    \<and> so_pending s = so_out w' \<and> so_pending w = so_out s'"
proof -
  let ?c = "initial_coordinator (\<lambda>p. None)" and ?args = demo_args
  have c: "store_inv (co_store ?c)" "\<not> co_stopping ?c"
    by (simp_all add: initial_coordinator_def store_inv_empty)
  have args: "5 \<le> length ?args" "producing ?args" "valid (arg_state ?args)"
    by (simp_all add: demo_args_def hx_printed valid_def)
  obtain w code lines w' s e s' c' where run: "fresh_socket w" "fresh_socket s"
    "worker_main True ?args (Some w) = (code, lines, Some w')" "handle_connection (\<lambda>k. ok_io) 0 s ?c = Some (e, s', c')"
    "so_pending s = so_out w'" "so_pending w = so_out s'"
    using session_exists [OF c args, of "\<lambda>k. ok_io"] by blast
  from session_over_the_wire [OF c args(1) _ run(1,3,2,4,5,6)] args(3) run show ?thesis by blast
qed

end
