(* ===== verification/Store_Contents.thy ===== *)
theory Store_Contents
  imports Coordinator
begin

text \<open>
  The contents of a store that was built by publishing a list of records: what the store holds,
  what a further publication adds, and that such a store is within the bounds of the file format.
  The proof programs (\<open>Mp_Scenario\<close>, \<open>Cuda_Proof\<close>) and the examples (\<open>Examples\<close>, \<open>Ingestion\<close>) follow
  their stores with it.
\<close>

section \<open>What a store holds\<close>

definition stored :: "(RecordData \<Rightarrow> 'k) \<Rightarrow> (RecordData \<Rightarrow> 'v) \<Rightarrow> RecordData list \<Rightarrow> ('k, 'v) mapping" where
  "stored k v ds = fold (\<lambda>d. Mapping.update (k d) (v d)) ds Mapping.empty"

lemma stored_snoc: "stored k v (ds @ [d]) = Mapping.update (k d) (v d) (stored k v ds)"
  by (simp add: stored_def)

lemma keys_stored: "Mapping.keys (stored k v ds) = k ` set ds"
  by (induction ds rule: rev_induct) (simp_all add: stored_snoc stored_def [of k v "[]"])

lemma lookup_stored: "Mapping.lookup (stored k v ds) = map_of (rev (map (\<lambda>d. (k d, v d)) ds))"
proof (induction ds rule: rev_induct)
  case (snoc d ds)
  then show ?case by (auto simp: stored_snoc lookup_update' fun_eq_iff)
qed (simp add: stored_def lookup_empty fun_eq_iff)

text \<open>The records in the order of their publication, and the live status.\<close>

definition contains :: "RecordData list \<Rightarrow> (StateId, RecordStatus) mapping \<Rightarrow> ProvenanceStore \<Rightarrow> bool" where
  "contains ds m s \<longleftrightarrow> store_inv s
     \<and> st_records s = stored subject_id (\<lambda>d. d) ds
     \<and> prov_to_state s = stored provenance_id subject_id ds
     \<and> st_status s = m
     \<and> st_workers s \<subseteq> worker_id ` set ds"

lemma contains_empty: "contains [] Mapping.empty empty_store"
  using store_inv_empty by (simp add: contains_def stored_def empty_store_def)

lemma contains_authority:
  assumes "contains ds m s" "Mapping.keys (a_boot (st_authority s)) \<subseteq> Mapping.keys (a_boot a)"
  shows "contains ds m (s\<lparr>st_authority := a\<rparr>)"
  using assms store_inv_authority [of s a] by (simp add: contains_def)

lemma contains_publish:
  assumes s: "contains ds m s" and d: "record_ok d" "subject_id d \<notin> subject_id ` set ds"
      "provenance_id d \<notin> provenance_id ` set ds" "set (input_states d) \<subseteq> subject_id ` set ds" "parent_provenance d = []"
  obtains s' where "publish_validated d s = (Inr \<lparr>po_ok = True, po_error = [], po_record = Some d\<rparr>, s')"
    "contains (ds @ [d]) (Mapping.update (subject_id d) (status_of_record d) m) s'"
    "st_authority s' = st_authority s"
proof -
  have inv: "store_inv s" using s by (simp add: contains_def)
  have "insertable d s" using s d(2-5) by (simp add: insertable_def contains_def keys_stored)
  with publish_validated_cases [OF inv, of d] d(1) obtain g where g:
    "publish_validated d s = (Inr \<lparr>po_ok = True, po_error = [], po_record = Some d\<rparr>, store_record d (s\<lparr>st_graph := g\<rparr>))"
    "store_inv (store_record d (s\<lparr>st_graph := g\<rparr>))" by blast
  moreover have "contains (ds @ [d]) (Mapping.update (subject_id d) (status_of_record d) m) (store_record d (s\<lparr>st_graph := g\<rparr>))"
    using s g(2) by (auto simp: contains_def store_record_def index_insert_def stored_snoc Let_def)
  ultimately show thesis
    by (intro that [of "store_record d (s\<lparr>st_graph := g\<rparr>)"]) (simp_all add: store_record_def index_insert_def Let_def)
qed

lemma contains_record:
  assumes "contains ds m s" "d \<in> set ds" "distinct (map subject_id ds)"
  shows "find_record s (subject_id d) = Some d" "store_size s = length ds"
proof -
  have "map_of (rev (map (\<lambda>d. (subject_id d, d)) ds)) (subject_id d) = Some d"
    using assms(2,3) by (subst map_of_eq_Some_iff) (auto simp: rev_map [symmetric] comp_def)
  then show "find_record s (subject_id d) = Some d"
    using assms(1) by (simp add: contains_def find_record_def lookup_stored)
  show "store_size s = length ds"
    using assms(1) distinct_card [OF assms(3)] by (simp add: store_size_def contains_def keys_stored)
qed

lemma contains_edges:
  assumes "contains ds m s" "distinct (map subject_id ds)" "\<forall>d \<in> set ds. parent_provenance d = []"
  shows "edges (st_graph s) = {(p, subject_id d) | p d. d \<in> set ds \<and> p \<in> set (input_states d)}"
proof -
  have look: "Mapping.lookup (st_records s) i = Some r \<longleftrightarrow> r \<in> set ds \<and> subject_id r = i" for i r
    using assms(1,2)
    by (simp add: contains_def lookup_stored map_of_eq_Some_iff rev_map [symmetric] comp_def) auto
  have "edges (st_graph s) = derivation_edges (st_records s) (prov_to_state s)"
    using assms(1) by (simp add: contains_def store_inv_def graph_agrees_def)
  then show ?thesis
    using assms(3) by (auto simp: derivation_edges_def look record_parents_def)
qed

section \<open>The size of a snapshot\<close>

lemma length_put_seq: "put_seq ws = Some bs \<Longrightarrow> length bs = sum_list (map (\<lambda>w. length (the w)) ws)"
  by (induction ws arbitrary: bs) (auto split: option.splits)

lemma length_the_put_seq_le:
  assumes "put_seq ws \<noteq> None" "\<forall>w \<in> set ws. length (the w) \<le> k"
  shows "length (the (put_seq ws)) \<le> k * length ws"
proof -
  obtain bs where bs: "put_seq ws = Some bs" using assms(1) by auto
  have "sum_list (map (\<lambda>w. length (the w)) ws) \<le> k * length ws" using assms(2) by (induction ws) auto
  with length_put_seq [OF bs] bs show ?thesis by simp
qed

lemma length_the_put_list_le:
  assumes "put_list f xs \<noteq> None" "\<forall>x \<in> set xs. length (the (f x)) \<le> k"
  shows "length (the (put_list f xs)) \<le> 4 + k * length xs"
proof -
  obtain bs where bs: "put_seq (map f xs) = Some bs"
    using assms(1) by (auto simp: put_list_def put_u32_def split: option.splits)
  have "length (the (put_seq (map f xs))) \<le> k * length (map f xs)"
    by (rule length_the_put_seq_le) (use bs assms(2) in auto)
  with bs show ?thesis by (simp add: put_list_def put_u32_def bytes_u32_def)
qed

text \<open>Records and status details that are far below the bounds of the format.\<close>

definition small_record :: "RecordData \<Rightarrow> bool" where
  "small_record d \<longleftrightarrow> record_fits d \<and> record_strings d \<subseteq> short_strings \<and> length (the (write_record d)) \<le> 1000"

definition short_details :: "(StateId, RecordStatus) mapping \<Rightarrow> bool" where
  "short_details m \<longleftrightarrow> (\<forall>i st. Mapping.lookup m i = Some st \<longrightarrow> length (rs_detail st) \<le> 100)"

lemma contains_snapshot:
  assumes s: "contains ds m s"
  shows "set (sn_records (store_snapshot s)) \<subseteq> set ds"
    "length (sn_records (store_snapshot s)) \<le> length ds"
    "length (Mapping.ordered_entries (sn_status (store_snapshot s))) \<le> length ds"
    "length (Mapping.ordered_entries (as_boots (sn_authority (store_snapshot s)))) \<le> length ds"
proof -
  have recs: "st_records s = stored subject_id (\<lambda>d. d) ds" "Mapping.keys m = Mapping.keys (st_records s)" "st_status s = m"
    and workers: "st_workers s \<subseteq> worker_id ` set ds" using s by (auto simp: contains_def store_inv_def)
  have len: "length (Mapping.ordered_entries m) \<le> length ds" if "Mapping.keys m \<subseteq> f ` set ds"
    for m :: "('k::{linorder,finite}, 'v) mapping" and f :: "RecordData \<Rightarrow> 'k"
  proof -
    have "card (Mapping.keys m) \<le> card (f ` set ds)" by (rule card_mono) (use that in auto)
    also have "\<dots> \<le> length ds" using card_image_le [of "set ds" f] card_length [of ds] by simp
    finally show ?thesis by (simp add: length_ordered_entries)
  qed
  show "set (sn_records (store_snapshot s)) \<subseteq> set ds"
    using map_of_SomeD
    by (fastforce simp: store_snapshot_def recs in_ordered_entries lookup_stored simp del: set_ordered_entries)
  show "length (sn_records (store_snapshot s)) \<le> length ds"
    "length (Mapping.ordered_entries (sn_status (store_snapshot s))) \<le> length ds"
    using len [of "stored subject_id (\<lambda>d. d) ds" subject_id] len [of m subject_id]
    by (simp_all add: store_snapshot_def recs keys_stored)
  have "Mapping.keys (as_boots (sn_authority (store_snapshot s))) \<subseteq> st_workers s"
    by (auto simp: store_snapshot_def lookup_Some_iff lookup_snapshot_boots split: if_splits)
  with workers show "length (Mapping.ordered_entries (as_boots (sn_authority (store_snapshot s)))) \<le> length ds"
    by (intro len) blast
qed

lemma boots_length:
  fixes m :: "(WorkerId, WorkerBootId) mapping"
  shows "length (the (put_list (\<lambda>(w, b). put_seq [put_u64 (get w), put_u64 (get b)]) (Mapping.ordered_entries m)))
    \<le> 4 + 16 * length (Mapping.ordered_entries m)"
proof (rule length_the_put_list_le)
  show "put_list (\<lambda>(w, b). put_seq [put_u64 (get w), put_u64 (get b)]) (Mapping.ordered_entries m) \<noteq> None"
    by (simp only: put_list_defined in_put_images not_False_eq_True)
qed (auto simp: put_u64_def bytes_u64_def)

lemma statuses_length:
  assumes "\<forall>p \<in> set sts. length (rs_detail (snd p)) \<le> 100"
  shows "length (the (put_list put_status sts)) \<le> 4 + 200 * length sts"
proof (rule length_the_put_list_le)
  have "rs_detail (snd p) \<in> short_strings" if "p \<in> set sts" for p
    using assms that by (fastforce simp: short_strings_def kMaxStringLen_def)
  then show "put_list put_status sts \<noteq> None" unfolding put_list_defined in_put_images by auto
qed (use assms in \<open>force simp: put_status_def put_u64_def put_u8_def put_str_def bytes_u64_def bytes_u32_def
      kMaxStringLen_def\<close>)

lemma encoded_length:
  assumes bs: "encode_snapshot sn = Some bs"
  shows "length bs = 108 + length (the (put_seq (map write_record (sn_records sn))))
    + length (the (put_list put_status (Mapping.ordered_entries (sn_status sn))))
    + length (the (put_list (\<lambda>(w, b). put_seq [put_u64 (get w), put_u64 (get b)])
        (Mapping.ordered_entries (as_boots (sn_authority sn)))))"
proof -
  have "write_authority (sn_authority sn) \<noteq> None"
    using bs by (auto simp: encode_snapshot_def split: option.splits)
  then obtain au where au: "write_authority (sn_authority sn) = Some au" by (meson not_Some_eq)
  show ?thesis
    using length_put_seq [OF bs [unfolded encode_snapshot_def]] length_put_seq [OF au [unfolded write_authority_def]]
    by (simp add: au put_u64_def put_u32_def bytes_u64_def bytes_u32_def)
qed

lemma contains_fits:
  assumes s: "contains ds m s" and w: "list_all small_record ds" and n: "length ds \<le> 1000"
    and detail: "short_details m"
  shows "store_fits s" "encode_snapshot (store_snapshot s) \<noteq> None"
proof -
  let ?sn = "store_snapshot s"
  note sn = contains_snapshot [OF s]
  let ?boot = "\<lambda>(w :: WorkerId, b :: WorkerBootId). put_seq [put_u64 (get w), put_u64 (get b)]"
  let ?boots = "Mapping.ordered_entries (as_boots (sn_authority ?sn))"
    and ?stats = "Mapping.ordered_entries (sn_status ?sn)"
  have small: "small_record d" if "d \<in> set (sn_records ?sn)" for d using that sn(1) w by (auto simp: list_all_iff)
  have short: "length (rs_detail (snd p)) \<le> 100" if "p \<in> set ?stats" for p
  proof -
    have "(fst p, snd p) \<in> set (Mapping.ordered_entries m)"
      using that s by (simp add: store_snapshot_def contains_def del: set_ordered_entries)
    then show ?thesis using detail unfolding in_ordered_entries short_details_def by blast
  qed
  have "snapshot_strings ?sn \<subseteq> short_strings"
    using small short by (fastforce simp: snapshot_strings_def small_record_def short_strings_def kMaxStringLen_def
        simp del: set_ordered_entries)
  then show enc: "encode_snapshot ?sn \<noteq> None" using encode_snapshot_defined by blast
  have boots: "length (the (put_list ?boot ?boots)) \<le> 4 + 16 * length ds"
    using boots_length [of "as_boots (sn_authority ?sn)"] sn(4) by linarith
  have stats: "length (the (put_list put_status ?stats)) \<le> 4 + 200 * length ds"
    using statuses_length [of ?stats] short sn(3) by fastforce
  have "length (the (put_seq (map write_record (sn_records ?sn)))) \<le> 1000 * length (map write_record (sn_records ?sn))"
    by (rule length_the_put_seq_le) (use small write_record_defined in \<open>auto simp: put_seq_refuses small_record_def\<close>)
  then have recs: "length (the (put_seq (map write_record (sn_records ?sn)))) \<le> 1000 * length ds"
    using sn(2) unfolding length_map by linarith
  obtain bs where bs: "encode_snapshot ?sn = Some bs" using enc by auto
  have "length bs \<le> 3000000" using encoded_length [OF bs] boots stats recs n by linarith
  moreover have "list_all record_fits (sn_records ?sn)"
    using small by (auto simp: list_all_iff small_record_def)
  moreover have "store_size s \<le> length ds"
    using s card_image_le [of "set ds" subject_id] card_length [of ds]
    by (simp add: store_size_def contains_def keys_stored)
  moreover have "card (st_workers s) \<le> length ds"
  proof -
    have "card (st_workers s) \<le> card (worker_id ` set ds)"
      using s by (intro card_mono) (simp_all add: contains_def)
    also have "\<dots> \<le> length ds" using card_image_le [of "set ds" worker_id] card_length [of ds] by simp
    finally show ?thesis .
  qed
  ultimately show "store_fits s"
    using \<open>snapshot_strings ?sn \<subseteq> short_strings\<close> n bs
    by (simp add: store_fits_def kMaxRecords_def kMaxVecLen_def kMaxPayloadLen_def)
qed

section \<open>Stores built by publications\<close>

text \<open>An exception ends the program that did not catch it.\<close>

definition returned :: "(store_exn + 'a) \<times> ProvenanceStore \<Rightarrow> ('a \<times> ProvenanceStore) option" where
  "returned r = (case r of (Inl e, s) \<Rightarrow> None | (Inr v, s) \<Rightarrow> Some (v, s))"

definition restored :: "StoreSnapshot \<Rightarrow> ProvenanceStore option" where
  "restored sn = (case restore sn empty_store of Some (Inr u, r) \<Rightarrow> Some r | _ \<Rightarrow> None)"

lemma returned_simps [simp]: "returned (Inr v, s) = Some (v, s)" "returned (Inl e, s) = None"
  by (simp_all add: returned_def)

text \<open>The store after publishing records under an authority, and records that follow their inputs.\<close>

definition built :: "AuthorityState \<Rightarrow> RecordData list \<Rightarrow> ProvenanceStore" where
  "built a ds = fold (\<lambda>d s. snd (publish d s)) ds (empty_store\<lparr>st_authority := a\<rparr>)"

definition publishable :: "RecordData list \<Rightarrow> RecordData \<Rightarrow> bool" where
  "publishable ds d \<longleftrightarrow> record_ok d \<and> parent_provenance d = [] \<and> validity d = VS_VALID
     \<and> subject_id d \<notin> subject_id ` set ds \<and> provenance_id d \<notin> provenance_id ` set ds
     \<and> set (input_states d) \<subseteq> subject_id ` set ds"

fun all_publishable :: "RecordData list \<Rightarrow> RecordData list \<Rightarrow> bool" where
  "all_publishable ds [] \<longleftrightarrow> True"
| "all_publishable ds (e # es) \<longleftrightarrow> publishable ds e \<and> all_publishable (ds @ [e]) es"

lemma all_publishable_append:
  "all_publishable ds (es @ fs) \<longleftrightarrow> all_publishable ds es \<and> all_publishable (ds @ es) fs"
  by (induction es arbitrary: ds) auto

lemma built_snoc: "built a (ds @ [d]) = snd (publish d (built a ds))"
  by (simp add: built_def)

definition holds :: "RecordData list \<Rightarrow> ProvenanceStore \<Rightarrow> bool" where
  "holds ds s \<longleftrightarrow> contains ds (stored subject_id status_of_record ds) s
     \<and> distinct (map subject_id ds) \<and> (\<forall>d \<in> set ds. validity d = VS_VALID \<and> parent_provenance d = [])"

lemma holds_publish:
  assumes "holds ds s" "publishable ds d"
  obtains s' where "publish d s = (Inr \<lparr>po_ok = True, po_error = [], po_record = Some d\<rparr>, s')"
    "holds (ds @ [d]) s'" "st_authority s' = st_authority s"
proof -
  have d: "record_ok d" "subject_id d \<notin> subject_id ` set ds" "provenance_id d \<notin> provenance_id ` set ds"
    "set (input_states d) \<subseteq> subject_id ` set ds" "parent_provenance d = []"
    using assms(2) by (auto simp: publishable_def)
  have "contains ds (stored subject_id status_of_record ds) s" using assms(1) by (simp add: holds_def)
  then obtain s' where "publish_validated d s = (Inr \<lparr>po_ok = True, po_error = [], po_record = Some d\<rparr>, s')"
    "contains (ds @ [d]) (Mapping.update (subject_id d) (status_of_record d) (stored subject_id status_of_record ds)) s'"
    "st_authority s' = st_authority s"
    by (rule contains_publish [OF _ d])
  with assms show thesis
    by (intro that [of s']) (auto simp: holds_def publish_def publishable_def stored_snoc)
qed

lemma built_holds:
  assumes "all_publishable [] ds"
  shows "holds ds (built a ds) \<and> st_authority (built a ds) = a"
  using assms
proof (induction ds rule: rev_induct)
  case Nil
  have "contains [] Mapping.empty (empty_store\<lparr>st_authority := a\<rparr>)"
    by (rule contains_authority [OF contains_empty]) (simp add: empty_store_def initial_authority_def)
  then show ?case by (simp add: holds_def built_def stored_def)
next
  case (snoc d ds)
  then have "holds ds (built a ds)" "publishable ds d" by (simp_all add: all_publishable_append)
  then show ?case
    by (rule holds_publish) (use snoc in \<open>simp add: built_snoc all_publishable_append\<close>)
qed

lemma publish_built:
  assumes "all_publishable [] (ds @ [d])"
  shows "publish d (built a ds) = (Inr \<lparr>po_ok = True, po_error = [], po_record = Some d\<rparr>, built a (ds @ [d]))"
proof -
  have "holds ds (built a ds)" "publishable ds d"
    using assms built_holds [of ds a] by (simp_all add: all_publishable_append)
  then show ?thesis by (rule holds_publish) (simp add: built_snoc)
qed

lemma publish_nth:
  assumes "all_publishable [] ds" "k < length ds"
  shows "publish (ds ! k) (built a (take k ds))
    = (Inr \<lparr>po_ok = True, po_error = [], po_record = Some (ds ! k)\<rparr>, built a (take (Suc k) ds))"
proof -
  have "ds = (take k ds @ [ds ! k]) @ drop (Suc k) ds" using assms(2) by (simp add: id_take_nth_drop [symmetric])
  then have "all_publishable [] ((take k ds @ [ds ! k]) @ drop (Suc k) ds)" using assms(1) by simp
  then have "all_publishable [] (take k ds @ [ds ! k])" by (simp only: all_publishable_append)
  from publish_built [OF this, of a] show ?thesis using assms(2) by (simp add: take_Suc_conv_app_nth)
qed

lemma publish_fenced_built:
  assumes "all_publishable [] (ds @ [d])" "accepted (evaluate_claim a claim)"
  shows "publish_fenced d claim (built a ds)
    = (Inr \<lparr>po_ok = True, po_error = [], po_record = Some d\<rparr>, built a (ds @ [d]))"
  using publish_built [OF assms(1), of a] built_holds [of ds a] assms
  by (simp add: publish_fenced_alt publish_def all_publishable_append)

lemma status_fields [simp]:
  "rs_validity (status_of_record d) = validity d" "rs_detail (status_of_record d) = record_note d"
  by (simp_all add: status_of_record_def)

lemma holds_reuse:
  assumes "holds ds s" "d \<in> set ds"
  shows "check_reuse s (subject_id d) q = evaluate_reuse d q"
proof -
  let ?m = "stored subject_id status_of_record ds"
  have s: "contains ds ?m s" "distinct (map subject_id ds)" using assms(1) by (simp_all add: holds_def)
  have m: "rs_validity st = VS_VALID" if "Mapping.lookup ?m i = Some st" for i st
  proof -
    have "(i, st) \<in> set (rev (map (\<lambda>d. (subject_id d, status_of_record d)) ds))"
      using that unfolding lookup_stored by (rule map_of_SomeD)
    then show ?thesis using assms(1) by (auto simp: holds_def)
  qed
  have "Mapping.lookup (st_records s) (subject_id d) = Some d"
    using contains_record(1) [OF s(1) assms(2) s(2)] by (simp add: find_record_def)
  moreover have "subject_id d \<in> Mapping.keys ?m" using assms(2) by (simp add: keys_stored)
  then obtain st where "Mapping.lookup ?m (subject_id d) = Some st" unfolding lookup_Some_iff by blast
  then have "Mapping.lookup (st_status s) (subject_id d) = Some st" "rs_validity st = VS_VALID"
    using m s(1) by (auto simp: contains_def)
  moreover have "with_validity (st_status s) VS_INVALIDATED = {}" "with_validity (st_status s) VS_STALE = {}"
    using m s(1) by (force simp: with_validity_def contains_def)+
  ultimately show ?thesis
    by (simp add: check_reuse_def any_with_validity_iff escalate_def Let_def)
qed

lemma built_facts:
  assumes "all_publishable [] ds"
  shows "store_size (built a ds) = length ds" "store_inv (built a ds)" "st_authority (built a ds) = a"
    "d \<in> set ds \<Longrightarrow> find_record (built a ds) (subject_id d) = Some d"
    "d \<in> set ds \<Longrightarrow> check_reuse (built a ds) (subject_id d) q = evaluate_reuse d q"
proof -
  have h: "holds ds (built a ds)" and a: "st_authority (built a ds) = a" using built_holds [OF assms] by auto
  then have c: "contains ds (stored subject_id status_of_record ds) (built a ds)" "distinct (map subject_id ds)"
    by (simp_all add: holds_def)
  show "store_inv (built a ds)" using c by (simp add: contains_def)
  show "st_authority (built a ds) = a" by fact
  show "d \<in> set ds \<Longrightarrow> find_record (built a ds) (subject_id d) = Some d"
    using contains_record(1) [OF c(1) _ c(2)] .
  show "d \<in> set ds \<Longrightarrow> check_reuse (built a ds) (subject_id d) q = evaluate_reuse d q"
    using holds_reuse [OF h] .
  show "store_size (built a ds) = length ds"
  proof (cases ds)
    case Nil
    then show ?thesis by (simp add: built_def store_size_def empty_store_def)
  next
    case (Cons d es)
    then show ?thesis using contains_record(2) [OF c(1) _ c(2), of d] by simp
  qed
qed

text \<open>Such a store survives a snapshot: the recovered one has the same size and digest.\<close>

lemma restored_store:
  assumes "store_inv s" "store_epoch s \<noteq> 0"
  obtains r where "restored (store_snapshot s) = Some r" "store_size r = store_size s"
    "store_digest (store_snapshot r) = store_digest (store_snapshot s)"
proof -
  obtain r where r: "restore (store_snapshot s) empty_store = Some (Inr (), r)"
    "r = s\<lparr>st_authority := persisted_authority s, st_runtime_generation := st_runtime_generation empty_store,
        by_validity := by_validity r\<rparr>"
    using restore_snapshot_result [OF assms(1), of empty_store] by blast
  have eq: "st_records r = st_records s" "st_status r = st_status s" "st_authority r = persisted_authority s"
    by (subst r(2), simp)+
  have "as_epoch (authority_snapshot r) = as_epoch (authority_snapshot s)"
    using assms(2) by (simp add: authority_snapshot_def eq persisted_authority_def store_epoch_def Let_def)
  then have "store_digest (store_snapshot r) = store_digest (store_snapshot s)"
    by (simp add: store_digest_def store_snapshot_def eq)
  with r(1) show thesis by (intro that [of r]) (simp_all add: restored_def store_size_def eq)
qed

lemma built_fits:
  assumes ok: "all_publishable [] ds" and small: "list_all small_record ds" "length ds \<le> 1000"
    and plain: "list_all (\<lambda>d. record_note d = []) ds"
  shows "store_fits (built a ds)" "\<exists>bs. encode_snapshot (store_snapshot (built a ds)) = Some bs
    \<and> decode_snapshot bs = Inr (store_snapshot (built a ds))"
proof -
  let ?m = "stored subject_id status_of_record ds" and ?s = "built a ds"
  have c: "contains ds ?m ?s" using built_holds [OF ok, of a] by (simp add: holds_def)
  have "length (rs_detail st) \<le> 100" if "Mapping.lookup ?m i = Some st" for i st
  proof -
    have "(i, st) \<in> set (rev (map (\<lambda>d. (subject_id d, status_of_record d)) ds))"
      using that unfolding lookup_stored by (rule map_of_SomeD)
    then show ?thesis using plain by (auto simp: list_all_iff)
  qed
  then have d: "short_details ?m" by (simp add: short_details_def)
  note fits = contains_fits [OF c small d]
  show "store_fits ?s" by (rule fits)
  obtain bs where bs: "encode_snapshot (store_snapshot ?s) = Some bs" using fits(2) by auto
  have "decode_snapshot bs = Inr (store_snapshot ?s)"
    using decode_reads [OF reads_body [OF bs store_snapshot_fits [OF built_facts(2) [OF ok] fits(1)]], of "[]"] by simp
  with bs show "\<exists>bs. encode_snapshot (store_snapshot ?s) = Some bs \<and> decode_snapshot bs = Inr (store_snapshot ?s)" by blast
qed

end
