(* ===== verification/Mp_Scenario.thy ===== *)
theory Mp_Scenario
  imports Mp_Proof Store_Contents
begin

text \<open>
  The run of \<^verbatim>\<open>mp_proof.cpp\<close>: what its coordinator holds after each part of the scenario, up to the
  restart from the saved file, and the theorem that every check of the harness succeeds.
\<close>

section \<open>The coordinator during the scenario\<close>

text \<open>The records in the order of their publication, the authority, the two counters and the files.\<close>

definition serving ::
  "RecordData list \<Rightarrow> AuthorityState \<Rightarrow> i64 \<Rightarrow> i64 \<Rightarrow> filesystem \<Rightarrow> Coordinator \<Rightarrow> bool" where
  "serving ds a acc rej fs c \<longleftrightarrow> contains ds (stored subject_id status_of_record ds) (co_store c)
     \<and> st_authority (co_store c) = a \<and> co_accepted c = acc \<and> co_rejected c = rej \<and> co_files c = fs"

lemma serving_initial: "serving [] initial_authority 0 0 fs (initial_coordinator fs)"
  using contains_empty by (simp add: serving_def initial_coordinator_def stored_def) (simp add: empty_store_def)

lemma serving_authority:
  assumes "serving ds a acc rej fs c" "Mapping.keys (a_boot a) \<subseteq> Mapping.keys (a_boot a')"
  shows "serving ds a' acc rej fs (c\<lparr>co_store := (co_store c)\<lparr>st_authority := a'\<rparr>\<rparr>)"
  using assms contains_authority [of ds _ "co_store c" a'] by (simp add: serving_def)

definition greeting_of :: "AuthorityState \<Rightarrow> string" where
  "greeting_of a = authority_summary (empty_store\<lparr>st_authority := a\<rparr>)"

lemma authority_summary_greeting: "authority_summary s = greeting_of (st_authority s)"
  by (simp add: greeting_of_def authority_summary_def store_authority_def authority_snapshot_def Let_def)

lemma hello_link:
  "control_op io Op_Hello (worker_hello wid boot) (Connected c)
    = (greeting_of (register_boot wid boot (st_authority (co_store c))),
       Connected (c\<lparr>co_store := (co_store c)\<lparr>st_authority := register_boot wid boot (st_authority (co_store c))\<rparr>\<rparr>))"
proof -
  obtain greeting c1 where h: "handle_request io (Op_val Op_Hello) (worker_hello wid boot) c = (Some greeting, c1)"
    by (simp add: handle_request_def handle_hello_def Let_def)
  with hello_registers [OF h] show ?thesis
    by (simp add: authority_summary_greeting store_register_boot_def)
qed

text \<open>The steps of the scenario.\<close>

lemma serving_set_authority:
  assumes "serving ds a acc rej fs c" "\<And>s. set_authority t s = s\<lparr>st_authority := rolled_to p d (st_authority s)\<rparr>"
  obtains c' where "set_authority_op io t (Connected c) = (True, Connected c')" "serving ds (rolled_to p d a) acc rej fs c'"
proof
  have a: "st_authority (co_store c) = a" using assms(1) by (simp add: serving_def)
  show "set_authority_op io t (Connected c)
      = (True, Connected (c\<lparr>co_store := (co_store c)\<lparr>st_authority := rolled_to p d a\<rparr>\<rparr>))"
    by (simp add: assms(2) a)
qed (use serving_authority [OF assms(1), of "rolled_to p d a"] in \<open>simp add: rolled_to_def\<close>)

lemma serving_roll:
  assumes "serving ds a acc rej fs c"
  obtains c' where "control_op io Op_RollEpoch [] (Connected c) = (''epoch='' @ unsigned_text (a_epoch a + 1), Connected c')"
    "serving ds (a\<lparr>a_epoch := a_epoch a + 1\<rparr>) acc rej fs c'"
proof
  show "control_op io Op_RollEpoch [] (Connected c) = (''epoch='' @ unsigned_text (a_epoch a + 1),
      Connected (c\<lparr>co_store := (co_store c)\<lparr>st_authority := a\<lparr>a_epoch := a_epoch a + 1\<rparr>\<rparr>\<rparr>))"
    using assms by (simp add: handle_request_def handle_roll_epoch_def store_roll_epoch_def roll_epoch_def serving_def Let_def)
qed (use serving_authority [OF assms, of "a\<lparr>a_epoch := a_epoch a + 1\<rparr>"] in simp)

lemma serving_register:
  assumes "serving ds a acc rej fs c"
  obtains c' where "run_worker io [p, to_string wid, to_string boot, ''register'', x] (Connected c) = Connected c'"
    "serving ds (register_boot wid boot a) acc rej fs c'"
proof
  have a: "st_authority (co_store c) = a" using assms by (simp add: serving_def)
  show "run_worker io [p, to_string wid, to_string boot, ''register'', x] (Connected c)
      = Connected (c\<lparr>co_store := (co_store c)\<lparr>st_authority := register_boot wid boot a\<rparr>\<rparr>)"
    by (simp add: run_worker_def hx_printed hello_link a del: control_op.simps)
qed (use serving_authority [OF assms, of "register_boot wid boot a"] in \<open>auto simp: register_boot_def\<close>)

lemma serving_replays:
  assumes "serving ds a acc rej fs c" "scenario_authority a"
  obtains c' where "replay_all io stale_replays 0 (Connected c) = Some (7, Connected c')"
    "serving ds a acc (rej + 7) fs c'"
  using replays_refused [of stale_replays c io 0] assms
  by (simp add: serving_def stale_replays_def)

text \<open>The record a worker publishes after its hello, and its publication.\<close>

definition published_record ::
  "AuthorityState \<Rightarrow> WorkerId \<Rightarrow> WorkerBootId \<Rightarrow> string \<Rightarrow> StateId \<Rightarrow> StateId \<Rightarrow> RecordData" where
  "published_record a wid boot mode sid inp =
     worker_record (kv_parse (greeting_of (register_boot wid boot a))) wid boot mode sid inp"

lemma worker_record_sel [simp]:
  "subject_id (worker_record auth wid boot mode sid inp) = sid"
  "provenance_id (worker_record auth wid boot mode sid inp) = ScalarIdentifier (get sid)"
  "worker_id (worker_record auth wid boot mode sid inp) = wid"
  "parent_provenance (worker_record auth wid boot mode sid inp) = []"
  "input_states (worker_record auth wid boot mode sid inp)
    = (if mode = ''produce_child'' \<and> valid inp then [inp] else [])"
  by (simp_all add: worker_record_def empty_record_def)

lemma serving_publishes:
  assumes s: "serving ds a acc rej fs c" and ids: "valid wid" "valid sid" and epoch: "unat (a_epoch a) < 10"
    and new: "sid \<notin> subject_id ` set ds" "ScalarIdentifier (get sid) \<notin> provenance_id ` set ds"
    and inputs: "mode = ''produce_child'' \<Longrightarrow> inp \<in> subject_id ` set ds" "mode = ''produce_root'' \<or> mode = ''produce_child''"
    and args: "hx (args ! 1) = get wid" "hx (args ! 2) = get boot" "args ! 3 = mode" "hx (args ! 4) = get sid"
      "inp = (if 6 \<le> length args then ScalarIdentifier (hx (args ! 5)) else null_id)"
  obtains c' where "run_worker io args (Connected c) = Connected c'"
    "serving (ds @ [published_record a wid boot mode sid inp]) (register_boot wid boot a) (acc + 1) rej fs c'"
proof -
  let ?a = "register_boot wid boot a"
  let ?c = "c\<lparr>co_store := (co_store c)\<lparr>st_authority := ?a\<rparr>\<rparr>"
  let ?d = "published_record a wid boot mode sid inp"
  let ?claim = "worker_claim (kv_parse (greeting_of ?a)) wid boot"
  have a: "st_authority (co_store c) = a" using s by (simp add: serving_def)
  have sc: "serving ds ?a acc rej fs ?c"
    using serving_authority [OF s, of ?a] by (auto simp: register_boot_def)
  obtain payload where p: "worker_publish_payload (kv_parse (greeting_of ?a)) wid boot mode sid inp = Some payload"
    using worker_payload_exists by blast
  have dec: "decode_publish_payload payload = Some (?d, wire_claim ?claim)"
    using decode_publish_encoded [of ?d ?claim payload "[]"] p worker_record_ok [OF ids(2)]
    by (simp add: worker_publish_payload_def published_record_def)
  have "a_epoch ?a = a_epoch a" "boot_of ?a wid = Some boot" by (simp_all add: register_boot_def boot_of_def)
  then have acc: "accepted (evaluate_claim ?a (wire_claim ?claim))"
    using worker_claim_accepted [of wid "co_store ?c" boot] ids(1) epoch
    by (simp add: authority_summary_greeting)
  obtain s' where pub: "publish_validated ?d (co_store ?c) = (Inr \<lparr>po_ok = True, po_error = [], po_record = Some ?d\<rparr>, s')"
    "contains (ds @ [?d]) (Mapping.update sid (status_of_record ?d) (stored subject_id status_of_record ds)) s'"
    "st_authority s' = ?a"
  proof (rule contains_publish [of ds _ "co_store ?c" ?d])
    show "contains ds (stored subject_id status_of_record ds) (co_store ?c)" using sc by (simp add: serving_def)
    show "record_ok ?d" using worker_record_ok [OF ids(2)] by (simp add: published_record_def)
  qed (use new inputs in \<open>auto simp: published_record_def\<close>)
  let ?c' = "c\<lparr>co_store := s', co_accepted := acc + 1, co_log := co_log c @ [published_line ?d]\<rparr>"
  have "publish_fenced ?d (wire_claim ?claim) (co_store ?c) = (Inr \<lparr>po_ok = True, po_error = [], po_record = Some ?d\<rparr>, s')"
    using acc pub(1) by (simp add: publish_fenced_alt)
  then have "handle_request io (Op_val Op_Publish) payload ?c = (Some ''ok'', ?c')"
    using s dec by (simp add: handle_request_def handle_publish_def serving_def)
  then have "snd (control_op io Op_Publish payload (Connected ?c)) = Connected ?c'" by simp
  then have "run_worker io args (Connected c) = Connected ?c'"
    unfolding run_worker_def args(1-4) args(5) [symmetric] Let_def ScalarIdentifier.collapse hello_link a
    using inputs(2) by (simp only: prod.case p option.case if_True)
  moreover have "serving (ds @ [?d]) ?a (acc + 1) rej fs ?c'"
    using sc pub(2,3) by (simp add: serving_def stored_snoc published_record_def)
  ultimately show thesis by (rule that)
qed

section \<open>The records of workers\<close>

definition from_worker :: "RecordData \<Rightarrow> bool" where
  "from_worker d \<longleftrightarrow> (\<exists>auth wid boot mode sid inp. d = worker_record auth wid boot mode sid inp)"

lemma from_worker_published [simp]: "from_worker (published_record a wid boot mode sid inp)"
  unfolding from_worker_def published_record_def by blast

lemma from_worker_facts:
  assumes "from_worker d"
  shows "record_fits d" "record_strings d \<subseteq> short_strings" "length (the (write_record d)) \<le> 1000"
    "record_note d = []" "validity d = VS_VALID" "evidence d = EV_MEASURED" "subject_kind d \<in> {SK_TensorState, SK_KVState}"
proof -
  obtain auth wid boot mode sid inp where d: "d = worker_record auth wid boot mode sid inp"
    using assms by (auto simp: from_worker_def)
  show "record_fits d" by (simp add: d record_fits_def worker_record_def empty_record_def kMaxVecLen_def)
  show "record_strings d \<subseteq> short_strings"
    by (simp add: d record_strings_def worker_record_def empty_record_def short_strings_def kMaxStringLen_def)
  show "length (the (write_record d)) \<le> 1000" unfolding d by (rule worker_record_length)
  show "record_note d = []" "validity d = VS_VALID" "evidence d = EV_MEASURED" "subject_kind d \<in> {SK_TensorState, SK_KVState}"
    by (auto simp: d worker_record_def empty_record_def)
qed

lemma serving_fits:
  assumes "serving ds a acc rej fs c" "\<forall>d \<in> set ds. from_worker d" "length ds \<le> 1000"
  shows "store_fits (co_store c)" "encode_snapshot (store_snapshot (co_store c)) \<noteq> None"
proof -
  have c: "contains ds (stored subject_id status_of_record ds) (co_store c)" using assms(1) by (simp add: serving_def)
  have small: "list_all small_record ds"
    using assms(2) from_worker_facts(1-3) by (auto simp: list_all_iff small_record_def)
  have "short_details (stored subject_id status_of_record ds)"
    using assms(2) from_worker_facts(4) map_of_SomeD
    by (fastforce simp: short_details_def lookup_stored status_of_record_def)
  then show "store_fits (co_store c)" "encode_snapshot (store_snapshot (co_store c)) \<noteq> None"
    using contains_fits [OF c small assms(3)] by simp_all
qed

section \<open>Replies\<close>

definition query_reply :: "RecordData \<Rightarrow> nat \<Rightarrow> string" where
  "query_reply d n = ''present;kind='' @ name_of_SubjectKind (subject_kind d)
     @ '';validity='' @ name_of_ValidityState (validity d)
     @ '';derivation_digest='' @ derivation_digest d
     @ '';prov_gen='' @ to_string (provenance_generation d)
     @ '';state_gen='' @ to_string (state_generation d)
     @ '';model_gen='' @ to_string (model_generation d)
     @ '';evidence='' @ name_of_EvidenceClass (evidence d)
     @ '';size='' @ dec_string n"

lemma hex_plain:
  assumes "list_all (\<lambda>c. \<exists>d<16. c = hex_digit d) s"
  shows "CHR ''s'' \<notin> set s" "CHR ''p'' \<notin> set s" "CHR '';'' \<notin> set s"
proof -
  have "list_all (\<lambda>d. hex_digit d \<noteq> CHR ''s'' \<and> hex_digit d \<noteq> CHR ''p'' \<and> hex_digit d \<noteq> CHR '';'') [0..<16]"
    by code_simp
  then have "hex_digit d \<noteq> CHR ''s''" "hex_digit d \<noteq> CHR ''p''" "hex_digit d \<noteq> CHR '';''" if "d < 16" for d
    using that by (simp_all add: list_all_iff)
  with assms show "CHR ''s'' \<notin> set s" "CHR ''p'' \<notin> set s" "CHR '';'' \<notin> set s"
    by (auto simp: list_all_iff) metis+
qed

lemma printed_chars [simp]:
  "CHR ''s'' \<notin> set (to_string i)" "CHR ''p'' \<notin> set (to_string i)" "CHR '';'' \<notin> set (to_string i)"
  "CHR ''s'' \<notin> set (digest_str h)" "CHR ''p'' \<notin> set (digest_str h)" "CHR '';'' \<notin> set (digest_str h)"
  using hex_plain [OF conjunct2 [OF hex_fixed_value]]
  by (simp_all add: to_string_def digest_str_def digest_string_def)

lemma length_printed [simp]: "length (to_string i) = 18" "length (digest_str h) = 16"
  by (simp_all add: to_string_def digest_str_def digest_string_def)

lemma worker_names:
  "name_of_SubjectKind SK_TensorState = ''TensorState''" "name_of_SubjectKind SK_KVState = ''KVState''"
  "name_of_ValidityState VS_VALID = ''VALID''" "name_of_EvidenceClass EV_MEASURED = ''MEASURED''"
  by code_simp+

lemma takeWhile_field: "c \<notin> set t \<Longrightarrow> takeWhile (\<lambda>x. x \<noteq> c) (t @ c # r) = t"
  by (subst takeWhile_append2) auto

lemma query_reply_facts:
  assumes "from_worker d" "n < 10"
  shows "length (query_reply d n) \<le> 255" "starts_with ''present'' (query_reply d n)"
    "get_field (query_reply d n) ''size'' = dec_string n"
    "get_field (query_reply d n) ''prov_gen'' = to_string (provenance_generation d)"
proof -
  note w = from_worker_facts(5-7) [OF assms(1)]
  note small = dec_string.simps [of n] hex_digit_plain(6) [of n] takeWhile_field
  show "length (query_reply d n) \<le> 255"
    using w assms(2) by (auto simp: query_reply_def worker_names derivation_digest_def small)
  show "starts_with ''present'' (query_reply d n)"
    by (simp add: query_reply_def starts_with_def)
  show "get_field (query_reply d n) ''size'' = dec_string n"
    using w assms(2)
    by (auto simp: query_reply_def worker_names derivation_digest_def get_field_Cons get_field_skip small get_field_Nil)
  show "get_field (query_reply d n) ''prov_gen'' = to_string (provenance_generation d)"
    using w assms(2)
    by (auto simp: query_reply_def worker_names derivation_digest_def get_field_Cons get_field_skip small get_field_Nil)
qed

text \<open>Queries, statistics, saving and recovering.\<close>

lemma bytes_u64_request: "8 \<le> length (bytes_u64 v)" "fst (read_u64 (new_reader (bytes_u64 v))) = v"
proof -
  show "8 \<le> length (bytes_u64 v)" by (simp add: bytes_u64_def)
  show "fst (read_u64 (new_reader (bytes_u64 v))) = v"
    using u64_codec.get_put [of v "bytes_u64 v" "new_reader (bytes_u64 v)" "[]"]
    by (simp add: read_u64_def put_u64_def)
qed

lemma serving_query:
  assumes s: "serving ds a acc rej fs c" and d: "d \<in> set ds" "distinct (map subject_id ds)"
    and w: "from_worker d" "length ds < 10"
  shows "query_state io (subject_id d) (Connected c) = ((query_reply d (length ds), True), Connected c)"
proof -
  let ?s = "co_store c"
  have c: "contains ds (stored subject_id status_of_record ds) ?s" using s by (simp add: serving_def)
  note rec = contains_record [OF c d]
  have "map_of (rev (map (\<lambda>d. (subject_id d, status_of_record d)) ds)) (subject_id d) = Some (status_of_record d)"
    using d by (subst map_of_eq_Some_iff) (auto simp: rev_map [symmetric] comp_def)
  then have "validity_of ?s (subject_id d) = validity d"
    using c by (simp add: contains_def validity_of_def lookup_stored status_of_record_def)
  moreover obtain r where "read_u64 (new_reader (bytes_u64 (get (subject_id d)))) = (get (subject_id d), r)"
    using bytes_u64_request(2) by (metis prod.collapse)
  ultimately have "handle_query (bytes_u64 (get (subject_id d))) c = (Some (in_buffer 256 (query_reply d (length ds))), c)"
    using bytes_u64_request(1) [of "get (subject_id d)"]
    by (simp add: handle_query_def query_reply_def rec)
  then show ?thesis
    using query_reply_facts(1,2) [OF w]
    by (simp add: query_state_def handle_request_def in_buffer_def)
qed

lemma small_texts:
  "signed_text 2 = ''2''" "signed_text 7 = ''7''" "unsigned_text 2 = ''2''" "dec_string 2 = ''2''"
  "atoi ''2'' = 2" "atoi ''7'' = 7"
proof -
  show "signed_text 2 = ''2''" "signed_text 7 = ''7''" "unsigned_text 2 = ''2''" "dec_string 2 = ''2''"
    by (simp_all add: signed_text_def unsigned_text_def dec_string.simps hex_digit_def)
  show "atoi ''2'' = 2" "atoi ''7'' = 7" by code_simp+
qed

lemma serving_stats:
  assumes s: "serving ds a 2 7 fs c" and d: "distinct (map subject_id ds)" "length ds = 2" and "a_epoch a = 2"
  obtains stats where "control_op io Op_Stats [] (Connected c) = (stats, Connected c)"
    "get_field stats ''accepted'' = ''2''" "get_field stats ''rejected'' = ''7''" "get_field stats ''size'' = ''2''"
proof
  let ?stats = "''accepted=2;rejected=7;epoch=2;prov_gen='' @ to_string (a_provenance_generation a) @ '';size=2''"
  have "store_size (co_store c) = 2"
    using s distinct_card [OF d(1)] d(2) by (simp add: serving_def contains_def store_size_def keys_stored)
  then show "control_op io Op_Stats [] (Connected c) = (?stats, Connected c)"
    using s assms(4)
    by (simp add: handle_request_def handle_stats_def serving_def store_epoch_def store_authority_def authority_snapshot_def
        Let_def small_texts in_buffer_def)
qed (simp_all add: get_field_Cons get_field_skip get_field_Nil)

lemma serving_save:
  assumes s: "serving ds a acc rej fs c" and w: "\<forall>d \<in> set ds. from_worker d" "length ds \<le> 1000"
  obtains c' fs' where "control_op ok_io Op_Save (bytes_of_string path) (Connected c)
      = (''saved;digest='' @ store_digest (store_snapshot (co_store c)), Connected c')"
    "serving ds a acc rej fs' c'" "save_file (store_snapshot (co_store c)) path ok_io fs = (Saved, fs')"
    "co_store c' = co_store c"
proof -
  obtain bs where "encode_snapshot (store_snapshot (co_store c)) = Some bs"
    using serving_fits(2) [OF s w] by auto
  then obtain fs' where "save_file (store_snapshot (co_store c)) path ok_io fs = (Saved, fs')"
    by (simp add: save_file_def ok_io_def Let_def)
  with s show thesis
    by (intro that [of "c\<lparr>co_files := fs'\<rparr>" fs']) (simp_all add: handle_request_def handle_save_def serving_def Let_def)
qed

lemma saved_field: "get_field (''saved;digest='' @ store_digest sn) ''digest'' = store_digest sn" "store_digest sn \<noteq> []"
proof -
  have plain: "CHR '';'' \<notin> set (store_digest sn)" unfolding store_digest_def by (rule printed_chars(6))
  then have "takeWhile (\<lambda>x. x \<noteq> CHR '';'') (store_digest sn) = store_digest sn"
    by (subst takeWhile_eq_all_conv) auto
  then show "get_field (''saved;digest='' @ store_digest sn) ''digest'' = store_digest sn"
    by (simp only: append.simps get_field_Cons) simp
  have "length (store_digest sn) = 16" unfolding store_digest_def by (rule length_printed(2))
  then show "store_digest sn \<noteq> []" by auto
qed

lemma serving_recover:
  assumes s: "serving ds a acc rej fs c" and w: "\<forall>d \<in> set ds. from_worker d" "length ds \<le> 1000"
    and saved: "save_file (store_snapshot (co_store c)) path io fs0 = (Saved, fs')" and "a_epoch a \<noteq> 0"
  obtains c2 where "start_coordinator (Some path) No_fault fs' = Some (Serving c2)"
    "co_log c2 = [''LOADED digest='' @ store_digest (store_snapshot (co_store c))]"
    "serving ds (persisted_authority (co_store c)) 0 0 fs' c2"
    "store_digest (store_snapshot (co_store c2)) = store_digest (store_snapshot (co_store c))"
proof -
  let ?s = "co_store c"
  have inv: "store_inv ?s" using s by (simp add: serving_def contains_def)
  note loaded = load_saved_store [OF inv serving_fits(1) [OF s w] saved]
  obtain s' where s': "restore (store_snapshot ?s) empty_store = Some (Inr (), s')" "store_inv s'"
    "s' = ?s\<lparr>st_authority := persisted_authority ?s, st_runtime_generation := st_runtime_generation empty_store,
        by_validity := by_validity s'\<rparr>"
    using restore_snapshot_result [OF inv, of empty_store] by blast
  have eq: "st_records s' = st_records ?s" "st_status s' = st_status ?s" "prov_to_state s' = prov_to_state ?s"
    "st_authority s' = persisted_authority ?s" "st_workers s' = st_workers ?s"
    by (subst s'(3), simp)+
  have "a_epoch (persisted_authority ?s) = a_epoch (st_authority ?s)"
    using s assms(5) by (simp add: persisted_authority_def serving_def)
  then have "store_digest (store_snapshot s') = store_digest (store_snapshot ?s)"
    by (simp add: store_digest_def store_snapshot_def authority_snapshot_def eq Let_def)
  with s s'(1,2) eq loaded show thesis
    by (intro that [of "(initial_coordinator fs')\<lparr>co_store := s',
        co_log := [''LOADED digest='' @ store_digest (store_snapshot ?s)]\<rparr>"])
      (simp_all add: start_coordinator_def initial_coordinator_def serving_def contains_def)
qed


section \<open>The parts of the scenario\<close>

definition record_S1 :: RecordData where
  "record_S1 = published_record (rolled_to 1 1 initial_authority) worker_A boot_A1 ''produce_root'' state_S1 null_id"

definition authority_2 :: AuthorityState where
  "authority_2 = register_boot worker_A boot_A2
     (rolled_to 1 2 ((register_boot worker_A boot_A1 (rolled_to 1 1 initial_authority))\<lparr>a_epoch := 2\<rparr>))"

definition record_S2 :: RecordData where
  "record_S2 = published_record (rolled_to 2 2 authority_2) worker_B boot_B ''produce_child'' state_S2 state_S1"

definition authority_3 :: AuthorityState where
  "authority_3 = register_boot worker_B boot_B (rolled_to 2 2 authority_2)"

lemmas scenario_ids = worker_A_def boot_A1_def boot_A2_def worker_B_def boot_B_def state_S1_def state_S2_def

lemma record_sel [simp]:
  "subject_id record_S1 = state_S1" "provenance_id record_S1 = ScalarIdentifier 0x1001" "from_worker record_S1"
  "subject_id record_S2 = state_S2" "from_worker record_S2"
  unfolding record_S1_def record_S2_def
  by (simp_all only: from_worker_published) (simp_all only: published_record_def worker_record_sel state_S1_def
      ScalarIdentifier.sel)

lemma authority_epochs [simp]: "a_epoch authority_2 = 2" "a_epoch authority_3 = 2"
  by (simp_all add: authority_2_def authority_3_def register_boot_def rolled_to_def)

text \<open>A launcher of workers that gives each the words of its text as arguments.\<close>

definition runs_workers :: "IoFaults \<Rightarrow> int \<Rightarrow> (string \<Rightarrow> link \<Rightarrow> link) \<Rightarrow> bool" where
  "runs_workers io port worker \<longleftrightarrow> (\<forall>args l. 4 \<le> length args \<and> (\<forall>w \<in> set args. plain_word w)
     \<longrightarrow> worker (unwords (int_text port # args)) l = run_worker io (int_text port # args) l)"

lemma produce_S1_value:
  assumes "serving [] initial_authority 0 0 fs c" and w: "runs_workers io port worker"
  obtains c' where "produce_S1 io worker port (Connected c)
      = ([True, True], get_field (query_reply record_S1 1) ''derivation_digest'', Connected c')"
    "serving [record_S1] (register_boot worker_A boot_A1 (rolled_to 1 1 initial_authority)) 1 0 fs c'"
proof -
  let ?a = "rolled_to 1 1 initial_authority"
  obtain c1 where c1: "set_authority_op io
      ''state_gen=1;prov_gen=1;dep_gen=1;model_gen=1;attempt=1;attempt_gen=1;policy_gen=1'' (Connected c)
      = (True, Connected c1)" "serving [] ?a 0 0 fs c1"
    by (rule serving_set_authority [OF assms(1) scenario_texts(1)])
  let ?args = "[int_text port, to_string worker_A, to_string boot_A1, ''produce_root'', to_string state_S1]"
  obtain c2 where c2: "run_worker io ?args (Connected c1) = Connected c2"
    "serving [record_S1] (register_boot worker_A boot_A1 ?a) 1 0 fs c2"
  proof (rule serving_publishes [OF c1(2), of worker_A state_S1 "''produce_root''" null_id ?args boot_A1])
    fix c' assume "run_worker io ?args (Connected c1) = Connected c'"
      "serving ([] @ [published_record ?a worker_A boot_A1 ''produce_root'' state_S1 null_id])
        (register_boot worker_A boot_A1 ?a) (0 + 1) 0 fs c'"
    then show thesis by (intro that) (simp_all add: record_S1_def)
  qed (simp_all add: scenario_ids valid_def rolled_to_def initial_authority_def hx_printed)
  have "query_state io state_S1 (Connected c2) = ((query_reply record_S1 1, True), Connected c2)"
    using serving_query [OF c2(2), of record_S1 io] by simp
  moreover have "worker (unwords ?args) (Connected c1) = Connected c2"
    using w c2(1) by (simp add: runs_workers_def del: unwords.simps)
  ultimately show thesis using c1(1) c2(2) by (intro that [of c2]) (simp_all add: produce_S1_def)
qed


lemma roll_and_replay_value:
  assumes s: "serving ds a acc rej fs c" and epoch: "a_epoch a = 1" and w: "runs_workers io port worker"
  obtains c' where "roll_and_replay io worker port (Connected c) = Some ([True, True, True], Connected c')"
    "serving ds (register_boot worker_A boot_A2 (rolled_to 1 2 (a\<lparr>a_epoch := 2\<rparr>))) acc (rej + 7) fs c'"
proof -
  obtain c1 where c1: "control_op io Op_RollEpoch [] (Connected c) = (''epoch='' @ unsigned_text (a_epoch a + 1), Connected c1)"
    "serving ds (a\<lparr>a_epoch := a_epoch a + 1\<rparr>) acc rej fs c1"
    by (rule serving_roll [OF s])
  have er: "starts_with ''epoch=2'' (''epoch='' @ unsigned_text (a_epoch a + 1))"
    by (simp add: epoch small_texts starts_with_def)
  obtain c2 where c2: "set_authority_op io
      ''state_gen=1;prov_gen=1;dep_gen=2;model_gen=1;attempt=1;attempt_gen=1;policy_gen=1'' (Connected c1)
      = (True, Connected c2)" "serving ds (rolled_to 1 2 (a\<lparr>a_epoch := a_epoch a + 1\<rparr>)) acc rej fs c2"
    by (rule serving_set_authority [OF c1(2) scenario_texts(2)])
  obtain c3 where c3: "run_worker io [int_text port, to_string worker_A, to_string boot_A2, ''register'', ''0''] (Connected c2)
      = Connected c3"
    "serving ds (register_boot worker_A boot_A2 (rolled_to 1 2 (a\<lparr>a_epoch := a_epoch a + 1\<rparr>))) acc rej fs c3"
    by (rule serving_register [OF c2(2)])
  have "scenario_authority (register_boot worker_A boot_A2 (rolled_to 1 2 (a\<lparr>a_epoch := a_epoch a + 1\<rparr>)))"
    by (simp add: scenario_authority_def register_boot_def rolled_to_def boot_of_def epoch)
  from serving_replays [OF c3(2) this] obtain c4 where c4: "replay_all io stale_replays 0 (Connected c3) = Some (7, Connected c4)"
    "serving ds (register_boot worker_A boot_A2 (rolled_to 1 2 (a\<lparr>a_epoch := a_epoch a + 1\<rparr>))) acc (rej + 7) fs c4" .
  have "worker (unwords [int_text port, to_string worker_A, to_string boot_A2, ''register'', ''0'']) (Connected c2) = Connected c3"
    using w c3(1) by (simp add: runs_workers_def del: unwords.simps)
  with c1(1) c2(1) c4 er epoch show thesis
    by (intro that [of c4]) (simp_all add: roll_and_replay_def del: control_op.simps)
qed

lemma verify_unchanged_value:
  assumes s: "serving [record_S1] a acc rej fs c"
  shows "verify_unchanged io (get_field (query_reply record_S1 1) ''derivation_digest'') (Connected c)
    = ([True, True], Connected c)"
  using serving_query [OF s, of record_S1 io] query_reply_facts(3) [of record_S1 1]
  by (simp add: verify_unchanged_def dec_string.simps hex_digit_def)

lemma record_S2_generation: "provenance_generation record_S2 = ScalarIdentifier 2"
proof -
  let ?s = "empty_store\<lparr>st_authority := authority_3\<rparr>"
  have "unat (a_epoch (st_authority ?s)) < 10 ^ 17" by simp
  note summary_numbers(5) [OF this]
  moreover have "a_provenance_generation authority_3 = ScalarIdentifier 2"
    by (simp add: authority_3_def register_boot_def rolled_to_def)
  ultimately have "kv_number (kv_parse (greeting_of authority_3)) ''prov_gen'' = 2"
    by (simp add: greeting_of_def)
  then show ?thesis
    unfolding record_S2_def published_record_def authority_3_def [symmetric]
    by (simp add: worker_record_def or_one_def)
qed

lemma printed_2: "to_string (ScalarIdentifier 2) = ''0x0000000000000002''"
  by code_simp

lemma derive_S2_value:
  assumes s: "serving [record_S1] authority_2 acc rej fs c" and w: "runs_workers io port worker"
  obtains c' where "derive_S2 io worker port (Connected c) = ([True, True, True], Connected c')"
    "serving [record_S1, record_S2] authority_3 (acc + 1) rej fs c'"
proof -
  let ?a = "rolled_to 2 2 authority_2"
  obtain c1 where c1: "set_authority_op io
      ''state_gen=1;prov_gen=2;dep_gen=2;model_gen=1;attempt=1;attempt_gen=1;policy_gen=1'' (Connected c)
      = (True, Connected c1)" "serving [record_S1] ?a acc rej fs c1"
    by (rule serving_set_authority [OF s scenario_texts(3)])
  let ?args = "[int_text port, to_string worker_B, to_string boot_B, ''produce_child'', to_string state_S2, to_string state_S1]"
  have epoch: "a_epoch ?a = 2" by (simp add: rolled_to_def)
  obtain c2 where c2: "run_worker io ?args (Connected c1) = Connected c2"
    "serving [record_S1, record_S2] authority_3 (acc + 1) rej fs c2"
  proof (rule serving_publishes [OF c1(2), of worker_B state_S2 "''produce_child''" state_S1 ?args boot_B])
    fix c' assume "run_worker io ?args (Connected c1) = Connected c'"
      "serving ([record_S1] @ [published_record ?a worker_B boot_B ''produce_child'' state_S2 state_S1])
        (register_boot worker_B boot_B ?a) (acc + 1) rej fs c'"
    then show thesis by (intro that) (simp_all add: record_S2_def authority_3_def)
  qed (simp_all add: scenario_ids valid_def epoch hx_printed)
  have "query_state io state_S2 (Connected c2) = ((query_reply record_S2 2, True), Connected c2)"
    using serving_query [OF c2(2), of record_S2 io] by (simp add: scenario_ids numeral_2_eq_2)
  moreover have "get_field (query_reply record_S2 2) ''prov_gen'' = ''0x0000000000000002''"
    using query_reply_facts(4) [of record_S2 2] by (simp add: record_S2_generation printed_2)
  moreover have "worker (unwords ?args) (Connected c1) = Connected c2"
    using w c2(1) by (simp add: runs_workers_def del: unwords.simps)
  ultimately show thesis
    using c1(1) c2(2) by (intro that [of c2]) (simp_all add: derive_S2_def)
qed

lemma from_workers: "\<forall>d \<in> set [record_S1, record_S2]. from_worker d" "length [record_S1, record_S2] \<le> 1000"
  "distinct (map subject_id [record_S1, record_S2])"
  by (simp_all add: scenario_ids)

lemma save_and_account_value:
  assumes s: "serving [record_S1, record_S2] authority_3 2 7 fs c"
  obtains c' fs' where "save_and_account ok_io path (Connected c)
      = ([True, True, True, True], store_digest (store_snapshot (co_store c)), Connected c')"
    "serving [record_S1, record_S2] authority_3 2 7 fs' c'"
    "save_file (store_snapshot (co_store c)) path ok_io fs = (Saved, fs')" "co_store c' = co_store c"
proof -
  obtain c1 fs' where c1: "control_op ok_io Op_Save (bytes_of_string path) (Connected c)
      = (''saved;digest='' @ store_digest (store_snapshot (co_store c)), Connected c1)"
    "serving [record_S1, record_S2] authority_3 2 7 fs' c1"
    "save_file (store_snapshot (co_store c)) path ok_io fs = (Saved, fs')" "co_store c1 = co_store c"
    by (rule serving_save [OF s from_workers(1,2)])
  obtain stats where "control_op ok_io Op_Stats [] (Connected c1) = (stats, Connected c1)"
    "get_field stats ''accepted'' = ''2''" "get_field stats ''rejected'' = ''7''" "get_field stats ''size'' = ''2''"
    by (rule serving_stats [OF c1(2) from_workers(3)]) simp_all
  moreover have "starts_with ''saved'' (''saved;digest='' @ store_digest (store_snapshot (co_store c)))"
    by (simp add: starts_with_def)
  ultimately show thesis
    using c1 saved_field(1) [of "store_snapshot (co_store c)"]
    by (intro that [of c1 fs']) (simp_all add: save_and_account_def small_texts del: control_op.simps)
qed

section \<open>The environment\<close>

text \<open>A network on which a coordinator listens on the port \<open>p\<close>.\<close>

definition net_serves :: "NetEnv \<Rightarrow> u16 \<Rightarrow> bool" where
  "net_serves net p \<longleftrightarrow> ne_init net \<and> ne_socket net \<noteq> invalid_socket \<and> unat (ne_socket net) < 2 ^ 31
     \<and> ne_bind net 0 \<and> ne_listen net \<and> ne_sock_name net = Some (htons p) \<and> p \<noteq> 0"

lemma coordinator_listens:
  assumes net: "net_serves net p" and start: "start_coordinator snapshot fault fs = Some (Serving c)"
    and args: "args \<noteq> []" "args ! 0 = ''0''"
      "snapshot = (if 3 \<le> length args \<and> args ! 2 = ''load'' then Some (args ! 1) else None)"
  shows "\<exists>ls t. coordinator_main Windows net fault args fs \<lparr>hs_open = {}, hs_nonblocking = {}\<rparr>
    = Some (Coord_listening ls p c, t)"
proof -
  have zero: "atoi ''0'' = 0" "htons 0 = 0" by code_simp+
  have ls: "0 \<le> sint (ucast (ne_socket net) :: i32)" using small_handle(1) net by (simp add: net_serves_def)
  show ?thesis
    using args(1,2) start [unfolded args(3)] net ls
    by (auto simp: coordinator_main_def net_init_def net_serves_def listen_socket_def local_port_def zero Let_def)
qed

text \<open>
  An undisturbed run: every child is spawned with handles of its own, command lines are cut at their
  blanks, pipes deliver whole lines, and the two coordinators listen on the ports \<open>p\<close> and \<open>p2\<close>.
\<close>

definition answer_handles :: "SpawnAnswer \<Rightarrow> u64 set" where
  "answer_handles ans =
     (case sw_pipe ans of None \<Rightarrow> {} | Some (rd, wr) \<Rightarrow> {rd, wr})
     \<union> (case sw_process ans of None \<Rightarrow> {} | Some (h, th, pid) \<Rightarrow> {h, th})"

definition undisturbed :: "MpEnv \<Rightarrow> u16 \<Rightarrow> u16 \<Rightarrow> u64 set \<Rightarrow> bool" where
  "undisturbed env p p2 hs \<longleftrightarrow> me_init env \<and> splits_words (me_argv env)
     \<and> (\<forall>k < 5. sw_pipe (me_spawn env k) \<noteq> None \<and> sw_process (me_spawn env k) \<noteq> None
         \<and> fresh_answer (me_spawn env k) hs
         \<and> (\<forall>j < k. answer_handles (me_spawn env j) \<inter> answer_handles (me_spawn env k) = {}))
     \<and> net_serves (me_net env 0) p \<and> net_serves (me_net env 4) p2
     \<and> (\<forall>k t. t \<noteq> [] \<and> last t = CHR 0x0A \<and> length t \<le> 256 \<longrightarrow> delivers_lines (me_pieces env k t) t)"

text \<open>The five children under such an environment.\<close>

definition child_of :: "MpEnv \<Rightarrow> nat \<Rightarrow> Proc" where
  "child_of env k = fst (spawn (me_spawn env k) {})"

lemma child_spawned:
  assumes "undisturbed env p p2 hs" "k < 5" "hs' \<inter> answer_handles (me_spawn env k) = {}"
  shows "spawn (me_spawn env k) hs' = (child_of env k, process_handles (child_of env k) \<union> hs')"
    "pr_handle (child_of env k) \<noteq> 0" "pr_read (child_of env k) \<noteq> 0"
    "process_handles (child_of env k) \<subseteq> answer_handles (me_spawn env k)"
    "process_handles (child_of env k) \<inter> hs = {}"
proof -
  obtain rd wr h th pid where a: "sw_pipe (me_spawn env k) = Some (rd, wr)" "sw_process (me_spawn env k) = Some (h, th, pid)"
    "fresh_answer (me_spawn env k) hs"
    using assms(1,2) unfolding undisturbed_def by (metis not_None_eq prod_cases3 surj_pair)
  have c: "child_of env k = \<lparr>pr_handle = h, pr_read = rd, pr_pid = pid\<rparr>" by (simp add: child_of_def spawn_def a)
  show "spawn (me_spawn env k) hs' = (child_of env k, process_handles (child_of env k) \<union> hs')"
    using a assms(3) by (auto simp: c spawn_def fresh_answer_def process_handles_def answer_handles_def)
  show "pr_handle (child_of env k) \<noteq> 0" "pr_read (child_of env k) \<noteq> 0"
    "process_handles (child_of env k) \<subseteq> answer_handles (me_spawn env k)"
    "process_handles (child_of env k) \<inter> hs = {}"
    using a by (auto simp: c fresh_answer_def process_handles_def answer_handles_def)
qed

lemma children_apart:
  assumes u: "undisturbed env p p2 hs" and "k < 5"
  shows "hs \<inter> answer_handles (me_spawn env k) = {}"
    "j < 5 \<Longrightarrow> j \<noteq> k \<Longrightarrow> process_handles (child_of env j) \<inter> answer_handles (me_spawn env k) = {}"
proof -
  have d: "answer_handles (me_spawn env i) \<inter> answer_handles (me_spawn env l) = {}" if "i < l" "l < 5" for i l
    using u that unfolding undisturbed_def by blast
  have new: "hs \<inter> answer_handles (me_spawn env i) = {}" if i: "i < 5" for i
  proof -
    obtain rd wr h th pid where "sw_pipe (me_spawn env i) = Some (rd, wr)" "sw_process (me_spawn env i) = Some (h, th, pid)"
      "fresh_answer (me_spawn env i) hs"
      using u i unfolding undisturbed_def by (metis not_None_eq prod_cases3 surj_pair)
    then show ?thesis by (simp add: fresh_answer_def answer_handles_def)
  qed
  show "hs \<inter> answer_handles (me_spawn env k) = {}" by (rule new [OF assms(2)])
  show "process_handles (child_of env j) \<inter> answer_handles (me_spawn env k) = {}" if "j < 5" "j \<noteq> k"
  proof -
    have "process_handles (child_of env j) \<subseteq> answer_handles (me_spawn env j)"
      by (rule child_spawned(4) [OF u \<open>j < 5\<close> new [OF \<open>j < 5\<close>]])
    moreover have "answer_handles (me_spawn env j) \<inter> answer_handles (me_spawn env k) = {}"
    proof (cases "j < k")
      case True
      from d [OF this \<open>k < 5\<close>] show ?thesis .
    next
      case False
      then have "k < j" using that(2) by simp
      from d [OF this \<open>j < 5\<close>] show ?thesis by (simp only: Int_commute)
    qed
    ultimately show ?thesis by blast
  qed
qed

lemma child_coordinator:
  assumes u: "undisturbed env p p2 hs" and k: "k = 0 \<and> q = p \<or> k = 4 \<and> q = p2" and exe: "CHR ''\"'' \<notin> set exe"
    and start: "start_coordinator snapshot fault fs = Some (Serving c)" "start_lines (loaded_lines c)"
    and ws: "ws \<noteq> []" "ws ! 0 = ''0''"
      "snapshot = (if 3 \<le> length ws \<and> ws ! 2 = ''load'' then Some (ws ! 1) else None)" "\<forall>w \<in> set ws. plain_word w"
  defines "run \<equiv> coordinator_process env k (child_of env k) exe (unwords ws) fault fs"
  shows "first_port (read_until (child_of env k) ''LISTENING'' (piped env k run)) = Some (int (unat q))"
    "second_port (read_until (child_of env k) ''LISTENING'' (piped env k run)) = int (unat q)"
    "connect_to (int (unat q)) run fs' = Connected c" "q \<noteq> 0"
proof -
  have k5: "k < 5" and net: "net_serves (me_net env k) q" and argv: "splits_words (me_argv env)"
    and pieces: "t \<noteq> [] \<Longrightarrow> last t = CHR 0x0A \<Longrightarrow> length t \<le> 256 \<Longrightarrow> delivers_lines (me_pieces env k t) t" for t
    using u k by (auto simp: undisturbed_def)
  note child = child_spawned(2,3) [OF u k5 children_apart(1) [OF u k5]]
  show q: "q \<noteq> 0" using net by (simp add: net_serves_def)
  have "me_argv env (command_line exe (unwords ws)) = exe # ws" using argv exe ws(4) by (simp add: splits_words_def)
  then obtain ls where run: "run = Some (Coord_listening ls q c)"
    using coordinator_listens [OF net start(1) ws(1-3)] child(1) by (auto simp: run_def coordinator_process_def)
  let ?t = "loaded_lines c @ ''LISTENING '' @ dec_string (unat q) @ newline"
  have "unat q < 10 ^ Suc 4" using unsigned_less [of q, where ?'a = nat] by simp
  from length_dec_string [OF this] have "length (dec_string (unat q)) \<le> 5" by simp
  moreover have "length (loaded_lines c) \<le> 100"
    using start(2) by (auto simp: start_lines_def digest_str_def digest_string_def)
  ultimately have "delivers_lines (me_pieces env k ?t) ?t" by (intro pieces) (simp_all add: newline_def)
  note port = port_read [OF start(2) refl this child(2)]
  show "first_port (read_until (child_of env k) ''LISTENING'' (piped env k run)) = Some (int (unat q))"
    "second_port (read_until (child_of env k) ''LISTENING'' (piped env k run)) = int (unat q)"
    using port by (simp_all add: run piped_def)
  show "connect_to (int (unat q)) run fs' = Connected c" using q by (simp add: connect_to_def run)
qed

lemma int_text_plain: "0 \<le> i \<Longrightarrow> plain_word (int_text i)"
  by (simp add: int_text_def)

lemma children_run_workers:
  assumes u: "undisturbed env p p2 hs" and "k < 5" "CHR ''\"'' \<notin> set exe"
  shows "runs_workers io (int (unat p)) (worker_process env io exe p (child_of env k))"
  unfolding runs_workers_def
proof (intro allI impI)
  fix args l assume a: "4 \<le> length args \<and> (\<forall>w \<in> set args. plain_word w)"
  let ?ws = "int_text (int (unat p)) # args"
  have "me_argv env (command_line exe (unwords ?ws)) = exe # ?ws"
    using u assms(3) a int_text_plain [of "int (unat p)"] by (simp add: undisturbed_def splits_words_def del: unwords.simps)
  then show "worker_process env io exe p (child_of env k) (unwords ?ws) l = run_worker io ?ws l"
    using a child_spawned(2) [OF u assms(2) children_apart(1) [OF u assms(2)]] atoi_int_text [of "int (unat p)"]
    by (simp add: worker_process_def Let_def del: unwords.simps)
qed

section \<open>The harness\<close>

lemma recover_value:
  assumes u: "undisturbed env p p2 hs" and path: "plain_word path" "CHR ''\"'' \<notin> set exe"
    and s: "serving [record_S1, record_S2] authority_3 2 7 fs' c"
    and saved: "save_file (store_snapshot (co_store c)) path ok_io fs = (Saved, fs')"
  obtains c' where "recover env ok_io No_fault exe (child_of env 4) path (store_digest (store_snapshot (co_store c))) (Connected c)
      = ([True, True, True], Connected c')" "st_records (co_store c') = stored subject_id (\<lambda>d. d) [record_S1, record_S2]"
proof -
  have stop: "control_op ok_io Op_Shutdown [] (Connected c) = (''bye'', Connected (c\<lparr>co_stopping := True\<rparr>))"
    by (simp add: handle_request_def)
  have fs: "co_files (c\<lparr>co_stopping := True\<rparr>) = fs'" using s by (simp add: serving_def)
  obtain c2 where c2: "start_coordinator (Some path) No_fault fs' = Some (Serving c2)"
    "co_log c2 = [''LOADED digest='' @ store_digest (store_snapshot (co_store c))]"
    "serving [record_S1, record_S2] (persisted_authority (co_store c)) 0 0 fs' c2"
    "store_digest (store_snapshot (co_store c2)) = store_digest (store_snapshot (co_store c))"
    by (rule serving_recover [OF s from_workers(1,2) saved]) simp
  have lines: "start_lines (loaded_lines c2)"
    by (auto simp: start_lines_def loaded_lines_def c2(2) newline_def store_digest_def)
  let ?run = "coordinator_process env 4 (child_of env 4) exe (''0 '' @ path @ '' load'') No_fault fs'"
  have coord2: "second_port (read_until (child_of env 4) ''LISTENING'' (piped env 4 ?run)) = int (unat p2)"
    "connect_to (int (unat p2)) ?run fs' = Connected c2" "p2 \<noteq> 0"
    using child_coordinator(2-4) [OF u _ path(2) c2(1) lines, of 4 p2 "[''0'', path, ''load'']"] path(1) by simp_all
  have q: "query_state ok_io state_S1 (Connected c2) = ((query_reply record_S1 2, True), Connected c2)"
    "query_state ok_io state_S2 (Connected c2) = ((query_reply record_S2 2, True), Connected c2)"
    using serving_query [OF c2(3), of record_S1 ok_io] serving_query [OF c2(3), of record_S2 ok_io] from_workers(3)
    by (simp_all add: numeral_2_eq_2)
  obtain c3 fs3 where c3: "control_op ok_io Op_Save (bytes_of_string (path @ ''.verify'')) (Connected c2)
      = (''saved;digest='' @ store_digest (store_snapshot (co_store c2)), Connected c3)"
    "serving [record_S1, record_S2] (persisted_authority (co_store c)) 0 0 fs3 c3"
    by (rule serving_save [OF c2(3) from_workers(1,2)])
  have "st_records (co_store c3) = stored subject_id (\<lambda>d. d) [record_S1, record_S2]"
    using c3(2) by (simp add: serving_def contains_def)
  moreover have "0 < unat p2" using coord2(3) by (simp add: unat_gt_0)
  then have "0 < int (unat p2)" by (simp only: of_nat_0_less_iff)
  ultimately show thesis
    using stop q c3(1) c2(4) saved_field [of "store_snapshot (co_store c)"]
    by (intro that [of c3])
      (simp_all only: recover_def Let_def stop prod.case fs link_files.simps coord2(1,2) q c3(1) c2(4) list.inject \<open>0 < int (unat p2)\<close> saved_field HOL.simp_thms)
qed

text \<open>The handles that are open when a child is spawned; at the end they are those of before.\<close>

lemma spawned_handles:
  assumes u: "undisturbed env p p2 hs" and ph: "\<And>k. ph k = process_handles (child_of env k)"
  shows "spawn (me_spawn env 0) hs = (child_of env 0, ph 0 \<union> hs)"
    "spawn (me_spawn env 1) (ph 0 \<union> hs) = (child_of env 1, ph 1 \<union> (ph 0 \<union> hs))"
    "spawn (me_spawn env 2) (ph 1 \<union> (ph 0 \<union> hs) - ph 1) = (child_of env 2, ph 2 \<union> (ph 1 \<union> (ph 0 \<union> hs) - ph 1))"
    "spawn (me_spawn env 3) (ph 2 \<union> (ph 1 \<union> (ph 0 \<union> hs) - ph 1))
      = (child_of env 3, ph 3 \<union> (ph 2 \<union> (ph 1 \<union> (ph 0 \<union> hs) - ph 1)))"
    "spawn (me_spawn env 4) (ph 3 \<union> (ph 2 \<union> (ph 1 \<union> (ph 0 \<union> hs) - ph 1)) - ph 0)
      = (child_of env 4, ph 4 \<union> (ph 3 \<union> (ph 2 \<union> (ph 1 \<union> (ph 0 \<union> hs) - ph 1)) - ph 0))"
    "(pr_handle (child_of env 0) = 0) = False"
    "ph 4 \<union> (ph 3 \<union> (ph 2 \<union> (ph 1 \<union> (ph 0 \<union> hs) - ph 1)) - ph 0) - ph 2 - ph 3 - ph 4 = hs"
proof -
  have apart: "hs' \<inter> answer_handles (me_spawn env k) = {}"
    if "k < 5" "hs' \<subseteq> (\<Union>j \<in> {..<5} - {k}. ph j) \<union> hs" for k hs'
    using children_apart [OF u that(1)] that(2) unfolding ph by blast
  have spawned: "spawn (me_spawn env k) hs' = (child_of env k, ph k \<union> hs')" "pr_handle (child_of env k) \<noteq> 0"
    if "k < 5" "hs' \<subseteq> (\<Union>j \<in> {..<5} - {k}. ph j) \<union> hs" for k hs'
    using child_spawned(1,2) [OF u that(1) apart [OF that]] unfolding ph .
  show "spawn (me_spawn env 0) hs = (child_of env 0, ph 0 \<union> hs)"
    "spawn (me_spawn env 1) (ph 0 \<union> hs) = (child_of env 1, ph 1 \<union> (ph 0 \<union> hs))"
    "spawn (me_spawn env 2) (ph 1 \<union> (ph 0 \<union> hs) - ph 1) = (child_of env 2, ph 2 \<union> (ph 1 \<union> (ph 0 \<union> hs) - ph 1))"
    "spawn (me_spawn env 3) (ph 2 \<union> (ph 1 \<union> (ph 0 \<union> hs) - ph 1))
      = (child_of env 3, ph 3 \<union> (ph 2 \<union> (ph 1 \<union> (ph 0 \<union> hs) - ph 1)))"
    "spawn (me_spawn env 4) (ph 3 \<union> (ph 2 \<union> (ph 1 \<union> (ph 0 \<union> hs) - ph 1)) - ph 0)
      = (child_of env 4, ph 4 \<union> (ph 3 \<union> (ph 2 \<union> (ph 1 \<union> (ph 0 \<union> hs) - ph 1)) - ph 0))"
    by (rule spawned(1); force)+
  show "(pr_handle (child_of env 0) = 0) = False" using spawned(2) [of 0 "{}"] by simp
  have "ph k \<inter> hs = {}" if "k < 5" for k unfolding ph by (rule child_spawned(5) [OF u that apart [OF that, of "{}"]]) simp
  then have "ph 0 \<inter> hs = {}" "ph 1 \<inter> hs = {}" "ph 2 \<inter> hs = {}" "ph 3 \<inter> hs = {}" "ph 4 \<inter> hs = {}"
    by (simp_all del: One_nat_def)
  then show "ph 4 \<union> (ph 3 \<union> (ph 2 \<union> (ph 1 \<union> (ph 0 \<union> hs) - ph 1)) - ph 0) - ph 2 - ph 3 - ph 4 = hs"
    by blast
qed

lemma mp_proof_until_recovery:
  assumes u: "undisturbed env p p2 hs" and exe: "CHR ''\"'' \<notin> set coord_exe" "CHR ''\"'' \<notin> set worker_exe"
  obtains c fs0 fs' where "serving [record_S1, record_S2] authority_3 2 7 fs' c"
    "save_file (store_snapshot (co_store c)) path ok_io fs0 = (Saved, fs')"
    "\<forall>r6 l. recover env ok_io No_fault coord_exe (child_of env 4) path (store_digest (store_snapshot (co_store c))) (Connected c)
        = (r6, l) \<longrightarrow>
      mp_proof_main env ok_io No_fault [coord_exe, worker_exe, path] fs hs
        = Some (if list_all (\<lambda>b. b) r6 then 0 else 1, l, hs)"
proof -
  let ?c0 = "initial_coordinator fs" and ?d1 = "get_field (query_reply record_S1 1) ''derivation_digest''"
    and ?a1 = "register_boot worker_A boot_A1 (rolled_to 1 1 initial_authority)"
    and ?p = "int (unat p)" and ?child = "child_of env"
    and ?worker = "\<lambda>k. worker_process env ok_io worker_exe p (child_of env k)"
  have start: "start_coordinator None No_fault fs = Some (Serving ?c0)" by (simp add: start_coordinator_def)
  have lines: "start_lines (loaded_lines ?c0)" by (simp add: start_lines_def loaded_lines_def initial_coordinator_def)
  let ?run = "coordinator_process env 0 (?child 0) coord_exe ''0'' No_fault fs"
  have coord: "first_port (read_until (?child 0) ''LISTENING'' (piped env 0 ?run)) = Some ?p"
    "connect_to ?p ?run fs = Connected ?c0" "p \<noteq> 0"
    using child_coordinator(1,3,4) [OF u _ exe(1) start lines, of 0 p "[''0'']"] by simp_all
  note workers = children_run_workers [OF u _ exe(2), of _ ok_io]
  obtain c1 where c1: "produce_S1 ok_io (?worker 1) ?p (Connected ?c0) = ([True, True], ?d1, Connected c1)"
    "serving [record_S1] ?a1 1 0 fs c1"
    by (rule produce_S1_value [OF serving_initial workers [of 1]]) simp
  have "a_epoch ?a1 = 1" by (simp add: register_boot_def rolled_to_def initial_authority_def)
  with c1(2) obtain c2 where c2: "roll_and_replay ok_io (?worker 2) ?p (Connected c1) = Some ([True, True, True], Connected c2)"
    "serving [record_S1] authority_2 1 7 fs c2"
    unfolding authority_2_def by (rule roll_and_replay_value [OF _ _ workers [of 2]]) simp_all
  obtain c3 where c3: "derive_S2 ok_io (?worker 3) ?p (Connected c2) = ([True, True, True], Connected c3)"
    "serving [record_S1, record_S2] authority_3 2 7 fs c3"
    by (rule derive_S2_value [OF c2(2) workers [of 3]]) simp_all
  obtain c4 fs' where c4: "save_and_account ok_io path (Connected c3)
      = ([True, True, True, True], store_digest (store_snapshot (co_store c3)), Connected c4)"
    "serving [record_S1, record_S2] authority_3 2 7 fs' c4"
    "save_file (store_snapshot (co_store c3)) path ok_io fs = (Saved, fs')" "co_store c4 = co_store c3"
    by (rule save_and_account_value [OF c3(2)])
  note spawns = spawned_handles [OF u refl]
  have "0 < unat p" using coord(3) by (simp add: unat_gt_0)
  then have port: "(0 < ?p) = True" by (simp only: of_nat_0_less_iff)
  have word: "word_of_int ?p = p" by simp
  have args: "(length [coord_exe, worker_exe, path] < 3) = False" "[coord_exe, worker_exe, path] ! 1 = worker_exe"
    "[coord_exe, worker_exe, path] ! 2 = path" by simp_all
  have init: "me_init env = True" using u by (simp add: undisturbed_def)
  have "mp_proof_main env ok_io No_fault [coord_exe, worker_exe, path] fs hs = Some (if list_all (\<lambda>b. b) r6 then 0 else 1, l, hs)"
    if r6: "recover env ok_io No_fault coord_exe (?child 4) path (store_digest (store_snapshot (co_store c4))) (Connected c4) = (r6, l)"
    for r6 l
    unfolding mp_proof_main_def
    by (simp only: Let_def list.size nth_Cons_0 args init if_False if_True spawns kill_handles prod.case
        coord(1,2) option.case c1(1) c2(1) verify_unchanged_value [OF c2(2)] c3(1) c4(1) r6 [unfolded c4(4)]
        port word Proc.simps append.simps filter.simps not_True_eq_False simp_thms)
      (simp add: filter_empty_conv list_all_iff)
  then show thesis using that [OF c4(2) c4(3) [folded c4(4)]] by blast
qed

text \<open>
  A blank in the path.  The harness puts the path unquoted into the command line of the second
  coordinator, which reads it as two arguments, loads nothing and serves an empty store.
\<close>

lemma recover_blank_path:
  assumes u: "undisturbed env p p2 hs" and exe: "CHR ''\"'' \<notin> set exe"
    and ab: "plain_word a" "plain_word b" "b \<noteq> ''load''"
  obtains r l where "recover env ok_io No_fault exe (child_of env 4) (a @ '' '' @ b) D1 (Connected c) = (r, l)"
    "\<not> list_all (\<lambda>b. b) r"
proof -
  have stop: "control_op ok_io Op_Shutdown [] (Connected c) = (''bye'', Connected (c\<lparr>co_stopping := True\<rparr>))"
    by (simp add: handle_request_def)
  let ?fs = "co_files (c\<lparr>co_stopping := True\<rparr>)" and ?ws = "[''0'', a, b, ''load'']"
  let ?c2 = "initial_coordinator ?fs"
  have start: "start_coordinator None No_fault ?fs = Some (Serving ?c2)" by (simp add: start_coordinator_def)
  have lines: "start_lines (loaded_lines ?c2)" by (simp add: start_lines_def loaded_lines_def initial_coordinator_def)
  let ?run = "coordinator_process env 4 (child_of env 4) exe (''0 '' @ (a @ '' '' @ b) @ '' load'') No_fault ?fs"
  have coord2: "second_port (read_until (child_of env 4) ''LISTENING'' (piped env 4 ?run)) = int (unat p2)"
    "connect_to (int (unat p2)) ?run ?fs = Connected ?c2"
    using child_coordinator(2,3) [OF u _ exe start lines, of 4 p2 ?ws] ab by simp_all
  obtain r where r: "read_u64 (new_reader (bytes_u64 (get state_S1))) = (get state_S1, r)"
    using bytes_u64_request(2) by (metis prod.collapse)
  have q: "query_state ok_io state_S1 (Connected ?c2) = ((''absent'', False), Connected ?c2)"
    using bytes_u64_request(1) [of "get state_S1"]
    by (simp add: query_state_def handle_request_def handle_query_def r initial_coordinator_def empty_store_def find_record_def
        starts_with_def lookup_empty)
  obtain t2 b2 l2 where q2: "query_state ok_io state_S2 (Connected ?c2) = ((t2, b2), l2)" by (metis prod.collapse)
  obtain save2 l3 where s2: "control_op ok_io Op_Save (bytes_of_string ((a @ '' '' @ b) @ ''.verify'')) l2 = (save2, l3)"
    by (rule prod.exhaust)
  have "recover env ok_io No_fault exe (child_of env 4) (a @ '' '' @ b) D1 (Connected c)
      = ([0 < int (unat p2), False, get_field save2 ''digest'' \<noteq> [] \<and> get_field save2 ''digest'' = D1], l3)"
    by (simp only: recover_def Let_def stop prod.case link_files.simps coord2 q q2 s2 simp_thms)
  then show thesis by (rule that) simp
qed

text \<open>
  C15: The harness passes: in an undisturbed environment with undisturbed files every check of
  \<^verbatim>\<open>main\<close> succeeds, its exit code is 0 and every handle it opened is closed again, for any snapshot
  path without blanks and quotes and whatever files exist before; the coordinator that is left has
  been recovered from the snapshot and holds exactly S1 and S2.
\<close>

theorem mp_proof_passes:
  assumes u: "undisturbed env p p2 hs"
    and path: "plain_word path" and exe: "CHR ''\"'' \<notin> set coord_exe" "CHR ''\"'' \<notin> set worker_exe"
  shows "\<exists>c. mp_proof_main env ok_io No_fault [coord_exe, worker_exe, path] fs hs = Some (0, Connected c, hs)
    \<and> Mapping.keys (st_records (co_store c)) = {state_S1, state_S2}"
proof -
  obtain c fs0 fs' where c: "serving [record_S1, record_S2] authority_3 2 7 fs' c"
    "save_file (store_snapshot (co_store c)) path ok_io fs0 = (Saved, fs')"
    and run: "\<forall>r6 l. recover env ok_io No_fault coord_exe (child_of env 4) path
        (store_digest (store_snapshot (co_store c))) (Connected c) = (r6, l) \<longrightarrow>
      mp_proof_main env ok_io No_fault [coord_exe, worker_exe, path] fs hs
        = Some (if list_all (\<lambda>b. b) r6 then 0 else 1, l, hs)"
    by (rule mp_proof_until_recovery [OF u exe])
  obtain c2 where "recover env ok_io No_fault coord_exe (child_of env 4) path
      (store_digest (store_snapshot (co_store c))) (Connected c) = ([True, True, True], Connected c2)"
    "st_records (co_store c2) = stored subject_id (\<lambda>d. d) [record_S1, record_S2]"
    by (rule recover_value [OF u path exe(1) c])
  with run show ?thesis by (auto simp: keys_stored)
qed

text \<open>With a blank in the snapshot path the harness fails, whatever the program does.\<close>

theorem mp_proof_blank_path:
  assumes u: "undisturbed env p p2 hs" and exe: "CHR ''\"'' \<notin> set coord_exe" "CHR ''\"'' \<notin> set worker_exe"
    and path: "plain_word a" "plain_word b" "b \<noteq> ''load''"
  shows "\<exists>l. mp_proof_main env ok_io No_fault [coord_exe, worker_exe, a @ '' '' @ b] fs hs = Some (1, l, hs)"
proof -
  obtain c fs0 fs' where "serving [record_S1, record_S2] authority_3 2 7 fs' c"
    and run: "\<forall>r6 l. recover env ok_io No_fault coord_exe (child_of env 4) (a @ '' '' @ b)
        (store_digest (store_snapshot (co_store c))) (Connected c) = (r6, l) \<longrightarrow>
      mp_proof_main env ok_io No_fault [coord_exe, worker_exe, a @ '' '' @ b] fs hs
        = Some (if list_all (\<lambda>b. b) r6 then 0 else 1, l, hs)"
    by (rule mp_proof_until_recovery [OF u exe])
  obtain r l where "recover env ok_io No_fault coord_exe (child_of env 4) (a @ '' '' @ b)
      (store_digest (store_snapshot (co_store c))) (Connected c) = (r, l)" "\<not> list_all (\<lambda>b. b) r"
    by (rule recover_blank_path [OF u exe(1) path])
  with run show ?thesis by auto
qed

definition sample_env :: MpEnv where
  "sample_env = \<lparr>me_init = True,
     me_spawn = (\<lambda>k. \<lparr>sw_pipe = Some (of_nat (10 * k + 1), of_nat (10 * k + 2)),
       sw_process = Some (of_nat (10 * k + 3), of_nat (10 * k + 4), 1)\<rparr>),
     me_argv = blank_argv, me_net = (\<lambda>k. quiet_env), me_pieces = (\<lambda>k t. [t])\<rparr>"

lemma sample_env_undisturbed: "undisturbed sample_env 7000 7000 {}"
proof -
  have five: "(\<forall>k < 5. P k) \<longleftrightarrow> P 0 \<and> P 1 \<and> P 2 \<and> P 3 \<and> P (4 :: nat)" for P
    by (auto simp: numeral_eq_Suc less_Suc_eq)
  have few: "(\<forall>j < 0. P j)" "(\<forall>j < 1. P j) \<longleftrightarrow> P 0" "(\<forall>j < 2. P j) \<longleftrightarrow> P 0 \<and> P 1"
    "(\<forall>j < 3. P j) \<longleftrightarrow> P 0 \<and> P 1 \<and> P 2" "(\<forall>j < 4. P j) \<longleftrightarrow> P 0 \<and> P 1 \<and> P 2 \<and> P (3 :: nat)" for P
    by (auto simp: numeral_eq_Suc less_Suc_eq)
  have "net_serves quiet_env 7000" by (simp add: net_serves_def quiet_env_def invalid_socket_def)
  moreover have "delivers_lines [t] t" if "t \<noteq> []" "last t = CHR 0x0A" "length t \<le> 256" for t
    using that by (simp add: delivers_lines_def)
  ultimately show ?thesis
    unfolding undisturbed_def five few
    by (simp add: sample_env_def blank_argv_splits fresh_answer_def answer_handles_def)
qed

theorem mp_proof_passes_witness:
  "\<exists>c. mp_proof_main sample_env ok_io No_fault [''c.exe'', ''w.exe'', ''s.bin''] (\<lambda>p. None) {} = Some (0, Connected c, {})
    \<and> Mapping.keys (st_records (co_store c)) = {state_S1, state_S2}"
  by (rule mp_proof_passes [OF sample_env_undisturbed]) (simp_all add: plain_word_def)

theorem mp_proof_blank_path_witness:
  "\<exists>l. mp_proof_main sample_env ok_io No_fault [''c.exe'', ''w.exe'', ''my'' @ '' '' @ ''s.bin''] (\<lambda>p. None) {} = Some (1, l, {})"
  by (rule mp_proof_blank_path [OF sample_env_undisturbed]) (simp_all add: plain_word_def)

end
