(* ===== verification/Cuda_Proof.thy ===== *)
theory Cuda_Proof
  imports Store_Contents
begin

text \<open>
  \<^verbatim>\<open>cuda_proof.cu\<close>: the provenance of a state that a GPU computes.  The CUDA runtime, the kernel and
  the floating-point comparison are outside the model: a \<open>CudaRun\<close> holds what each call of the
  runtime returned, the bytes of the three buffers that are hashed, and the two verdicts
  \<^verbatim>\<open>maxerr < 1e-4\<close>.  Everything else is modelled: the records and their publication, the reuse
  decisions, the invalidation, the snapshot and the recovery, and the count of failed checks.
\<close>

section \<open>The environment of a run\<close>

record CudaRun =
  run_count_ok :: bool
  run_devices :: int
  run_select_ok :: bool
  run_properties_ok :: bool
  run_major :: int
  run_minor :: int
  run_malloc_x :: bool
  run_malloc_y :: bool
  run_copy_in :: bool
  run_kernel :: bool
  run_copy_out :: bool
  run_verified :: bool
  run_copy_in2 :: bool
  run_kernel2 :: bool
  run_copy_out2 :: bool
  run_verified2 :: bool
  run_free_x :: bool
  run_free_y :: bool
  run_reset :: bool
  run_x :: "byte list"
  run_y :: "byte list"
  run_y2 :: "byte list"

section \<open>Authority, records and requests\<close>

definition cuda_authority :: "ProvenanceStore \<Rightarrow> ProvenanceStore" where
  "cuda_authority s =
     store_begin_attempt (ScalarIdentifier 1) (ScalarIdentifier 1)
       (store_set_policy_generation (ScalarIdentifier 1)
         (store_set_dependency_generation (ScalarIdentifier 1)
           (store_set_model_generation (ScalarIdentifier 1)
             (store_roll_state_generation (ScalarIdentifier 1)
               (store_roll_provenance_generation (ScalarIdentifier 1) s)))))"

definition kernel_id :: ModelId where "kernel_id = ScalarIdentifier 0x6000000000000001"
definition backend :: BackendId where "backend = ScalarIdentifier 0x6100000000000001"
definition runtime :: RuntimeId where "runtime = ScalarIdentifier 0x6200000000000001"
definition toolchain :: ToolchainId where "toolchain = ScalarIdentifier 0x6300000000000001"
definition device :: DeviceId where "device = ScalarIdentifier 0x6400000000000001"
definition producer :: ProducerId where "producer = ScalarIdentifier 0x6500000000000001"
definition execution :: ExecutionId where "execution = ScalarIdentifier 0x6600000000000001"
definition input_state :: StateId where "input_state = ScalarIdentifier 0x7000000000000001"
definition y1_state :: StateId where "y1_state = ScalarIdentifier 0x7000000000000002"
definition y2_state :: StateId where "y2_state = ScalarIdentifier 0x7000000000000003"

text \<open>\<^verbatim>\<open>std::to_string(digest::crc32(...))\<close> behind a prefix.\<close>

definition crc_text :: "string \<Rightarrow> byte list \<Rightarrow> string" where
  "crc_text prefix bs = prefix @ dec_string (unat (crc32 bs))"

definition input_record :: "byte list \<Rightarrow> RecordData" where
  "input_record x = empty_record\<lparr>
     provenance_id := ScalarIdentifier (get input_state), provenance_generation := ScalarIdentifier 1,
     subject_id := input_state, subject_kind := SK_Buffer, state_generation := ScalarIdentifier 1,
     producer_id := producer, producer_generation := ScalarIdentifier 1,
     execution_id := execution, attempt_id := ScalarIdentifier 1, attempt_generation := ScalarIdentifier 1,
     dtype := ''float32'', layout := ''rowmajor'', shape := ''65536'',
     evidence := EV_MEASURED, validity := VS_VALID, coordinator_epoch := 1,
     worker_id := ScalarIdentifier 1, worker_boot := ScalarIdentifier 1,
     content_digest := crc_text ''crc32-io:'' x, record_note := ''host input''\<rparr>"

definition y1_record :: "byte list \<Rightarrow> RecordData" where
  "y1_record y = empty_record\<lparr>
     provenance_id := ScalarIdentifier (get y1_state), provenance_generation := ScalarIdentifier 1,
     subject_id := y1_state, subject_kind := SK_TensorState, state_generation := ScalarIdentifier 1,
     producer_id := producer, producer_generation := ScalarIdentifier 1,
     execution_id := execution, attempt_id := ScalarIdentifier 1, attempt_generation := ScalarIdentifier 1,
     model_id := kernel_id, model_generation := ScalarIdentifier 1,
     backend_id := backend, runtime_id := runtime, toolchain_id := toolchain, device_id := device,
     architecture := ''sm_120'', compute_capability := ''12.0'', abi := ''sm_120'',
     dtype := ''float32'', layout := ''rowmajor'', shape := ''65536'',
     input_states := [input_state],
     dependencies := [Dependency (ScalarIdentifier 1) (ScalarIdentifier 1) ''compiled-kernel'' (to_string kernel_id)],
     evidence := EV_MEASURED, validity := VS_VALID, coordinator_epoch := 1,
     worker_id := ScalarIdentifier 1, worker_boot := ScalarIdentifier 1,
     content_digest := crc_text ''crc32:'' y, record_note := ''DERIVED state from RTX 5090 kernel''\<rparr>"

definition y2_record :: "RecordData \<Rightarrow> byte list \<Rightarrow> RecordData" where
  "y2_record y1 y = y1\<lparr>
     provenance_id := ScalarIdentifier (get y2_state), subject_id := y2_state,
     provenance_generation := ScalarIdentifier 2, model_generation := ScalarIdentifier 2,
     state_generation := ScalarIdentifier 2, content_digest := crc_text ''crc32:'' y\<rparr>"

definition cuda_request :: ReuseRequest where
  "cuda_request = empty_request\<lparr>q_model_id := kernel_id, q_model_generation := ScalarIdentifier 1,
     q_architecture := ''sm_120'', q_compute_capability := ''12.0'',
     q_dtype := ''float32'', q_layout := ''rowmajor'', q_shape := ''65536'',
     q_backend_id := backend, q_runtime_id := runtime, q_toolchain_id := toolchain\<rparr>"

section \<open>The run\<close>

text \<open>Each part returns the outcomes of its \<^verbatim>\<open>REQUIRE\<close>s; \<open>None\<close> is an exception.\<close>

definition require_publish :: "RecordData \<Rightarrow> ProvenanceStore \<Rightarrow> (bool \<times> ProvenanceStore) option" where
  "require_publish d s = (case publish d s of (Inl e, s) \<Rightarrow> None | (Inr out, s) \<Rightarrow> Some (po_ok out, s))"

text \<open>The checks of step 1 before the first early return and before the second.\<close>

definition device_present :: "CudaRun \<Rightarrow> bool" where
  "device_present r \<longleftrightarrow> run_count_ok r \<and> 1 \<le> run_devices r"

definition is_rtx5090 :: "CudaRun \<Rightarrow> bool" where
  "is_rtx5090 r \<longleftrightarrow> run_major r = 12 \<and> run_minor r = 0"

definition publish_derived :: "CudaRun \<Rightarrow> ProvenanceStore \<Rightarrow> (bool list \<times> ProvenanceStore) option" where
  "publish_derived r s =
     (case require_publish (input_record (run_x r)) s of
        None \<Rightarrow> None
      | Some (in_ok, s) \<Rightarrow>
          (case require_publish (y1_record (run_y r)) s of
             None \<Rightarrow> None
           | Some (y1_ok, s) \<Rightarrow>
               Some ([in_ok, run_malloc_x r, run_malloc_y r, run_copy_in r, run_kernel r, run_copy_out r,
                      run_verified r, y1_ok,
                      d_eligibility (check_reuse s y1_state cuda_request) = RE_ELIGIBLE], s)))"

definition mutate_revision :: "ProvenanceStore \<Rightarrow> (bool list \<times> ProvenanceStore) option" where
  "mutate_revision s =
     (let s = store_set_model_generation (ScalarIdentifier 2) s;
          s = store_set_dependency_generation (ScalarIdentifier 2) s
      in case invalidate (InvalidatingSubject y1_state IR_ModelRevisionChange
                ''kernel revision changed from gen1 to gen2'') s of
           None \<Rightarrow> None
         | Some (out, s) \<Rightarrow>
             Some ([io_ok out \<and> 1 \<le> length (affected (io_result out)),
                    d_eligibility (check_reuse s y1_state cuda_request) = RE_INVALIDATED], s))"

definition recompute :: "CudaRun \<Rightarrow> ProvenanceStore \<Rightarrow> (bool list \<times> ProvenanceStore) option" where
  "recompute r s =
     (case require_publish (y2_record (y1_record (run_y r)) (run_y2 r)) s of
        None \<Rightarrow> None
      | Some (y2_ok, s) \<Rightarrow>
          Some ([run_copy_in2 r, run_kernel2 r, run_copy_out2 r, run_verified2 r, y2_ok,
                 d_eligibility (check_reuse s y2_state (cuda_request\<lparr>q_model_generation := ScalarIdentifier 2\<rparr>))
                   = RE_ELIGIBLE], s))"

definition replay_snapshot :: "ProvenanceStore \<Rightarrow> bool list option" where
  "replay_snapshot s =
     (let snap = store_snapshot s; dig = store_digest snap
      in case encode_snapshot snap of
           None \<Rightarrow> None
         | Some bs \<Rightarrow>
             (case decode_snapshot bs of
                Inl e \<Rightarrow> Some [False]
              | Inr sn \<Rightarrow>
                  (case restore sn empty_store of
                     Some (Inr u, r) \<Rightarrow> Some [True, store_digest sn = dig]
                   | _ \<Rightarrow> None)))"

definition teardown :: "CudaRun \<Rightarrow> bool list" where
  "teardown r =
     (let freed = (if run_free_x r then 65536 * 4 else 0 :: nat);
          freed = (if run_free_y r then freed + 65536 * 4 else freed)
      in [freed = 2 * (65536 * 4), run_reset r])"

text \<open>\<^verbatim>\<open>main\<close>: the exit code.\<close>

definition cuda_main :: "CudaRun \<Rightarrow> nat option" where
  "cuda_main r =
     (let r1 = [device_present r]
      in if run_devices r < 1 then Some 1
         else let r2 = r1 @ [run_select_ok r, run_properties_ok r, is_rtx5090 r]
         in if \<not> is_rtx5090 r then Some 1
         else (case publish_derived r (cuda_authority empty_store) of
             None \<Rightarrow> None
           | Some (r3, s) \<Rightarrow>
               (case mutate_revision s of
                  None \<Rightarrow> None
                | Some (r4, s) \<Rightarrow>
                    (case recompute r s of
                       None \<Rightarrow> None
                     | Some (r5, s) \<Rightarrow>
                         (case replay_snapshot s of
                            None \<Rightarrow> None
                          | Some r6 \<Rightarrow>
                              let g_failures = length (List.filter Not (r2 @ r3 @ r4 @ r5 @ r6 @ teardown r))
                              in Some (if g_failures \<noteq> 0 then 1 else 0))))))"

section \<open>The kernel\<close>

text \<open>
  \<^verbatim>\<open>derive_kernel\<close> in one thread: the scalar function of the device (\<^verbatim>\<open>sinf(v) + scale * v\<close>) is the
  parameter \<open>f\<close>, \<open>blockDim.x\<close> is 256.  A launch runs the threads of all blocks in some order.
\<close>

fun derive_kernel :: "('v \<Rightarrow> 'v) \<Rightarrow> 'v list \<Rightarrow> nat \<Rightarrow> nat \<times> nat \<Rightarrow> 'v list \<Rightarrow> 'v list" where
  "derive_kernel f x n (block, thread) y =
     (let i = block * 256 + thread in if i < n then y[i := f (x ! i)] else y)"

definition launch_grid :: "nat \<Rightarrow> (nat \<times> nat) list" where
  "launch_grid n = (let threads = 256; blocks = (n + threads - 1) div threads
     in List.product [0..<blocks] [0..<threads])"

lemma derive_kernel_length [simp]: "length (derive_kernel f x n bt y) = length y"
  by (cases bt) (simp add: Let_def)

lemma launch_length [simp]: "length (fold (derive_kernel f x n) ts y) = length y"
  by (induction ts arbitrary: y) simp_all

lemma launch_effect:
  assumes "i < n" "length y = n"
  shows "fold (derive_kernel f x n) ts y ! i = (if \<exists>(b, t) \<in> set ts. b * 256 + t = i then f (x ! i) else y ! i)"
  using assms(2)
proof (induction ts arbitrary: y)
  case (Cons bt ts)
  obtain b t where "bt = (b, t)" by (rule prod.exhaust)
  with Cons assms(1) show ?case by (auto simp: Let_def nth_list_update)
qed simp

lemma grid_covers: "i < n \<Longrightarrow> \<exists>(b, t) \<in> set (launch_grid n). b * 256 + t = i"
  by (rule bexI [of _ "(i div 256, i mod 256)"]) (auto simp: launch_grid_def Let_def)

section \<open>The contents of the store\<close>

lemma small_crc_text: "length prefix \<le> 10 \<Longrightarrow> length (crc_text prefix bs) \<le> 20"
proof -
  assume p: "length prefix \<le> 10"
  have "unat (crc32 bs) < 2 ^ 32" by (rule order_less_le_trans [OF unsigned_less]) simp
  then have "unat (crc32 bs) < 10 ^ Suc 9" by simp
  from length_dec_string [OF this] p show ?thesis by (simp add: crc_text_def)
qed

lemmas cuda_ids = kernel_id_def backend_def runtime_def toolchain_def device_def producer_def execution_def
  input_state_def y1_state_def y2_state_def

lemma cuda_records:
  "small_record (input_record x)" "small_record (y1_record y)" "small_record (y2_record (y1_record y) z)"
  "record_ok (input_record x)" "record_ok (y1_record y)" "record_ok (y2_record (y1_record y) z)"
proof -
  have c: "length (crc_text ''crc32-io:'' x) \<le> 20" "length (crc_text ''crc32:'' y) \<le> 20" "length (crc_text ''crc32:'' z) \<le> 20"
    by (rule small_crc_text, simp)+
  then have m: "\<not> kMaxStringLen < length (crc_text ''crc32-io:'' x)" "\<not> kMaxStringLen < length (crc_text ''crc32:'' y)"
    "\<not> kMaxStringLen < length (crc_text ''crc32:'' z)" by (simp_all add: kMaxStringLen_def)
  note defs = input_record_def y1_record_def y2_record_def empty_record_def
  note sizes = small_record_def record_fits_def record_strings_def short_strings_def write_record_def put_list_def put_u32_def
    put_u64_def put_u8_def put_str_def bytes_u32_def bytes_u64_def put_dependency_def kMaxVecLen_def
  show "small_record (input_record x)" using c m by (simp add: defs sizes) (simp add: kMaxStringLen_def)
  show "small_record (y1_record y)" using c m by (simp add: defs sizes) (simp add: kMaxStringLen_def)
  show "small_record (y2_record (y1_record y) z)" using c m by (simp add: defs sizes) (simp add: kMaxStringLen_def)
  show "record_ok (input_record x)" "record_ok (y1_record y)" "record_ok (y2_record (y1_record y) z)"
    by (simp_all add: record_ok_def defs cuda_ids valid_def)
qed

lemma cuda_fields [simp]:
  "subject_id (input_record x) = input_state" "provenance_id (input_record x) = ScalarIdentifier (get input_state)"
  "input_states (input_record x) = []" "parent_provenance (input_record x) = []"
  "validity (input_record x) = VS_VALID" "record_note (input_record x) = ''host input''"
  "subject_id (y1_record y) = y1_state" "provenance_id (y1_record y) = ScalarIdentifier (get y1_state)"
  "input_states (y1_record y) = [input_state]" "parent_provenance (y1_record y) = []"
  "validity (y1_record y) = VS_VALID" "record_note (y1_record y) = ''DERIVED state from RTX 5090 kernel''"
  "subject_id (y2_record d y) = y2_state" "provenance_id (y2_record d y) = ScalarIdentifier (get y2_state)"
  "input_states (y2_record d y) = input_states d" "parent_provenance (y2_record d y) = parent_provenance d"
  "validity (y2_record d y) = validity d" "record_note (y2_record d y) = record_note d"
  by (simp_all add: input_record_def y1_record_def y2_record_def empty_record_def)

lemma cuda_states [simp]: "input_state \<noteq> y1_state" "input_state \<noteq> y2_state" "y1_state \<noteq> y2_state"
  "y1_state \<noteq> input_state" "y2_state \<noteq> input_state" "y2_state \<noteq> y1_state"
  "get input_state \<noteq> get y1_state" "get input_state \<noteq> get y2_state" "get y1_state \<noteq> get y2_state"
  "get y1_state \<noteq> get input_state" "get y2_state \<noteq> get input_state" "get y2_state \<noteq> get y1_state"
  by (simp_all add: cuda_ids)

lemma environments_met:
  "environment_met (y1_record y) cuda_request"
  "environment_met (y2_record (y1_record y) z) (cuda_request\<lparr>q_model_generation := ScalarIdentifier 2\<rparr>)"
  by (simp_all add: environment_met_def met_id_def met_str_def cuda_request_def empty_request_def
      y1_record_def y2_record_def empty_record_def cuda_ids)

lemma require_publish_value:
  assumes "contains ds m s" "record_ok d" "subject_id d \<notin> subject_id ` set ds"
      "provenance_id d \<notin> provenance_id ` set ds" "set (input_states d) \<subseteq> subject_id ` set ds" "parent_provenance d = []"
  obtains s' where "require_publish d s = Some (True, s')"
    "contains (ds @ [d]) (Mapping.update (subject_id d) (status_of_record d) m) s'"
proof -
  obtain s' where "publish_validated d s = (Inr \<lparr>po_ok = True, po_error = [], po_record = Some d\<rparr>, s')"
    "contains (ds @ [d]) (Mapping.update (subject_id d) (status_of_record d) m) s'"
    by (rule contains_publish [OF assms])
  then show thesis by (intro that) (simp_all add: require_publish_def publish_def)
qed

lemma contains_eligible:
  assumes s: "contains ds m s" and d: "d \<in> set ds" "distinct (map subject_id ds)" "\<forall>d \<in> set ds. parent_provenance d = []"
    and st: "Mapping.lookup m (subject_id d) = Some st" "rs_validity st = VS_VALID" "validity d = VS_VALID" "environment_met d q"
    and parents: "\<And>p. p \<in> set (input_states d) \<Longrightarrow> p \<notin> (\<Union>e \<in> set ds. if input_states e = [] then {} else {subject_id e})"
      "\<And>p. p \<in> set (input_states d) \<Longrightarrow> \<exists>st. Mapping.lookup m p = Some st \<and> rs_validity st = VS_VALID"
  shows "d_eligibility (check_reuse s (subject_id d) q) = RE_ELIGIBLE"
proof -
  have edge: "(p, i) \<in> edges (st_graph s) \<longleftrightarrow> (\<exists>e \<in> set ds. i = subject_id e \<and> p \<in> set (input_states e))" for p i
    using contains_edges [OF s d(2,3)] by auto
  have same: "e = d" if "e \<in> set ds" "subject_id e = subject_id d" for e
    using that d(1,2) by (metis distinct_map inj_onD)
  have anc: "a \<in> set (input_states d)" if "(a, subject_id d) \<in> (edges (st_graph s))\<^sup>+" for a
    using that
  proof (cases rule: tranclE)
    case base
    then show ?thesis using edge same by auto
  next
    case (step b)
    then have "b \<in> set (input_states d)" using edge same by auto
    moreover obtain c where "(c, b) \<in> edges (st_graph s)" using step(1) by (meson tranclD2)
    then obtain e where "e \<in> set ds" "b = subject_id e" "c \<in> set (input_states e)" using edge by auto
    ultimately show ?thesis using parents(1) by fastforce
  qed
  have agree: "graph_agrees (st_graph s) (st_records s) (prov_to_state s)"
    using s unfolding contains_def store_inv_def by blast
  have "Mapping.lookup (st_records s) (subject_id d) = Some d" using contains_record(1) [OF s d(1,2)] by (simp add: find_record_def)
  moreover have "Mapping.lookup (st_status s) (subject_id d) = Some st" using s st(1) by (simp add: contains_def)
  moreover have "set (ancestors (st_graph s) (subject_id d)) \<inter>
      (with_validity (st_status s) VS_INVALIDATED \<union> with_validity (st_status s) VS_STALE) = {}"
    using anc parents(2) s unfolding ancestors_edges [OF agree] by (fastforce simp: with_validity_def contains_def)
  ultimately show ?thesis using check_reuse_eligible [of s "subject_id d" d st q] st by blast
qed

section \<open>The parts of the run\<close>

definition derived_status :: "byte list \<Rightarrow> byte list \<Rightarrow> (StateId, RecordStatus) mapping" where
  "derived_status x y = Mapping.update y1_state (status_of_record (y1_record y))
     (Mapping.update input_state (status_of_record (input_record x)) Mapping.empty)"

lemma publish_derived_value:
  obtains s where "publish_derived r (cuda_authority empty_store)
      = Some ([True, run_malloc_x r, run_malloc_y r, run_copy_in r, run_kernel r, run_copy_out r, run_verified r, True, True], s)"
    "contains [input_record (run_x r), y1_record (run_y r)] (derived_status (run_x r) (run_y r)) s"
proof -
  let ?in = "input_record (run_x r)" and ?y1 = "y1_record (run_y r)"
  have "\<exists>a. cuda_authority empty_store = empty_store\<lparr>st_authority := a\<rparr> \<and> a_boot a = Mapping.empty"
    by (simp add: cuda_authority_def store_authority_defs empty_store_def initial_authority_def)
  then obtain a where a: "cuda_authority empty_store = empty_store\<lparr>st_authority := a\<rparr>" by blast
  have "contains [] Mapping.empty (empty_store\<lparr>st_authority := a\<rparr>)"
    by (rule contains_authority [OF contains_empty]) (simp add: empty_store_def initial_authority_def)
  then obtain s1 where s1: "require_publish ?in (empty_store\<lparr>st_authority := a\<rparr>) = Some (True, s1)"
    "contains [?in] (Mapping.update input_state (status_of_record ?in) Mapping.empty) s1"
    by (rule require_publish_value [where d = ?in]) (simp_all add: cuda_records)
  from s1(2) obtain s2 where s2: "require_publish ?y1 s1 = Some (True, s2)"
    "contains [?in, ?y1] (derived_status (run_x r) (run_y r)) s2"
    by (rule require_publish_value [where d = ?y1]) (simp_all add: cuda_records derived_status_def)
  have "d_eligibility (check_reuse s2 (subject_id ?y1) cuda_request) = RE_ELIGIBLE"
    by (rule contains_eligible [OF s2(2), where st = "status_of_record ?y1"])
      (simp_all add: derived_status_def lookup_update' environments_met)
  then show thesis using s1(1) s2 a by (intro that) (simp_all add: publish_derived_def)
qed

lemma mutate_revision_value:
  assumes "contains [input_record x, y1_record y] (derived_status x y) s"
  obtains s' m where "mutate_revision s = Some ([True, True], s')" "contains [input_record x, y1_record y] m s'"
    "Mapping.lookup m input_state = Some (status_of_record (input_record x))"
    "short_details m"
proof -
  let ?ds = "[input_record x, y1_record y]"
  let ?subj = "InvalidatingSubject y1_state IR_ModelRevisionChange ''kernel revision changed from gen1 to gen2''"
  let ?s = "store_set_dependency_generation (ScalarIdentifier 2) (store_set_model_generation (ScalarIdentifier 2) s)"
  have c: "contains ?ds (derived_status x y) ?s"
    unfolding store_set_dependency_generation_def store_set_model_generation_def
    by (intro contains_authority assms) (simp_all add: authority_ops)
  then have inv: "store_inv ?s" by (simp add: contains_def)
  have edge: "edges (st_graph ?s) = {(input_state, y1_state)}" using contains_edges [OF c] by force
  have "inv_subject ?subj \<in> Mapping.keys (st_records ?s)" using c by (simp add: contains_def keys_stored)
  from invalidate_result [OF inv this] obtain res s' where i:
    "invalidate ?subj ?s = Some (\<lparr>io_ok = True, io_error = [], io_result = res\<rparr>, s')"
    "propagate_invalidation (st_graph ?s) [?subj] = Some res"
    "s' = ?s\<lparr>st_status := st_status s', by_validity := by_validity s'\<rparr>" "store_inv s'"
    "\<forall>j. Mapping.lookup (st_status s') j = (if (y1_state, j) \<in> (edges (st_graph ?s))\<^sup>*
         then Some (invalidated_status ?subj res j (Mapping.lookup_default default_status (st_status ?s) j))
         else Mapping.lookup (st_status ?s) j)" by auto
  have reach: "(y1_state, j) \<in> (edges (st_graph ?s))\<^sup>* \<longleftrightarrow> j = y1_state" for j
  proof
    assume "(y1_state, j) \<in> (edges (st_graph ?s))\<^sup>*"
    then show "j = y1_state" by (cases rule: converse_rtranclE) (auto simp: edge)
  qed simp
  have "set (affected res) = {y1_state}"
    using set_affected [OF i(2)] reach by (auto simp: root_set_def)
  then have "1 \<le> length (affected res)" by (cases "affected res") auto
  have fields: "st_records s' = st_records ?s" "prov_to_state s' = prov_to_state ?s" "st_workers s' = st_workers ?s"
    by (subst i(3), simp)+
  have c': "contains ?ds (st_status s') s'" using c i(4) by (simp add: contains_def fields)
  have status: "st_status ?s = derived_status x y" using c by (simp add: contains_def)
  have y1: "Mapping.lookup (st_status s') y1_state
      = Some (invalidated_status ?subj res y1_state (status_of_record (y1_record y)))"
    using i(5) by (simp add: status derived_status_def lookup_default_def lookup_update')
  have others: "Mapping.lookup (st_status s') j = (if j = input_state then Some (status_of_record (input_record x)) else None)"
    if "j \<noteq> y1_state" for j
    using i(5) that reach by (simp add: status derived_status_def lookup_update' lookup_empty)
  have "Mapping.lookup (st_records s') y1_state = Some (y1_record y)"
    using contains_record(1) [OF c', of "y1_record y"] by (simp add: find_record_def)
  then have "d_eligibility (check_reuse s' y1_state cuda_request) = RE_INVALIDATED"
    by (simp add: check_reuse_def y1)
  then have "mutate_revision s = Some ([True, True], s')"
    using i(1) \<open>1 \<le> length (affected res)\<close> by (simp add: mutate_revision_def)
  moreover have "short_details (st_status s')"
    unfolding short_details_def
  proof (intro allI impI)
    fix j st assume "Mapping.lookup (st_status s') j = Some st"
    then show "length (rs_detail st) \<le> 100"
      using y1 others [of j] by (cases "j = y1_state") (auto simp: invalidated_status_def Let_def split: if_splits)
  qed
  ultimately show thesis using c' others [of input_state] by (intro that) auto
qed

lemma recompute_value:
  assumes s: "contains [input_record x, y1_record (run_y r)] m s"
    and m: "Mapping.lookup m input_state = Some (status_of_record (input_record x))"
  obtains s' where "recompute r s = Some ([run_copy_in2 r, run_kernel2 r, run_copy_out2 r, run_verified2 r, True, True], s')"
    "contains [input_record x, y1_record (run_y r), y2_record (y1_record (run_y r)) (run_y2 r)]
      (Mapping.update y2_state (status_of_record (y2_record (y1_record (run_y r)) (run_y2 r))) m) s'"
proof -
  let ?y2 = "y2_record (y1_record (run_y r)) (run_y2 r)"
  let ?ds = "[input_record x, y1_record (run_y r), ?y2]" and ?m = "Mapping.update y2_state (status_of_record ?y2) m"
  obtain s' where s': "require_publish ?y2 s = Some (True, s')" "contains ?ds ?m s'"
    by (rule require_publish_value [OF s, where d = ?y2]) (simp_all add: cuda_records)
  have "d_eligibility (check_reuse s' (subject_id ?y2) (cuda_request\<lparr>q_model_generation := ScalarIdentifier 2\<rparr>)) = RE_ELIGIBLE"
    by (rule contains_eligible [OF s'(2), where st = "status_of_record ?y2"])
      (simp_all add: lookup_update' m environments_met)
  with s' show thesis by (intro that) (simp_all add: recompute_def)
qed

lemma replay_snapshot_value:
  assumes s: "contains ds m s" and w: "list_all small_record ds" "length ds \<le> 1000"
    and detail: "short_details m"
  shows "replay_snapshot s = Some [True, True]"
proof -
  let ?sn = "store_snapshot s"
  have inv: "store_inv s" using s by (simp add: contains_def)
  note fits = contains_fits [OF s w detail]
  obtain bs where bs: "encode_snapshot ?sn = Some bs" using fits(2) by auto
  have "decode_snapshot bs = Inr ?sn"
    using decode_reads [OF reads_body [OF bs store_snapshot_fits [OF inv fits(1)]], of "[]"] by simp
  moreover obtain s' where "restore ?sn empty_store = Some (Inr (), s')"
    using restore_snapshot_result [OF inv, of empty_store] by blast
  ultimately show ?thesis by (simp add: replay_snapshot_def bs)
qed

section \<open>Properties\<close>

text \<open>What the environment has to deliver: every call succeeds, the device is the one asked for, and
  both results agree with the reference.\<close>

definition device_run_ok :: "CudaRun \<Rightarrow> bool" where
  "device_run_ok r \<longleftrightarrow> device_present r \<and> run_select_ok r \<and> run_properties_ok r \<and> is_rtx5090 r
     \<and> run_malloc_x r \<and> run_malloc_y r \<and> run_copy_in r \<and> run_kernel r \<and> run_copy_out r \<and> run_verified r
     \<and> run_copy_in2 r \<and> run_kernel2 r \<and> run_copy_out2 r \<and> run_verified2 r
     \<and> run_free_x r \<and> run_free_y r \<and> run_reset r"

text \<open>
  C16: The exit code of the CUDA proof is decided by the hardware alone: whatever bytes the device
  produces, no call on the store throws, every check on provenance (publication, eligibility,
  rejection after the revision change, eligibility of the recomputed state, replay of the snapshot)
  succeeds, and \<^verbatim>\<open>main\<close> returns 0 exactly when every call of the CUDA runtime succeeded and both
  results were verified.
\<close>

theorem cuda_exit_code: "cuda_main r = Some (if device_run_ok r then 0 else 1)"
proof (cases "run_devices r < 1 \<or> \<not> is_rtx5090 r")
  case True
  then show ?thesis by (auto simp: cuda_main_def device_run_ok_def device_present_def Let_def)
next
  case False
  let ?x = "run_x r" and ?y = "run_y r"
  obtain s1 where s1: "publish_derived r (cuda_authority empty_store)
      = Some ([True, run_malloc_x r, run_malloc_y r, run_copy_in r, run_kernel r, run_copy_out r, run_verified r, True, True], s1)"
    "contains [input_record ?x, y1_record ?y] (derived_status ?x ?y) s1"
    by (rule publish_derived_value)
  obtain s2 m where s2: "mutate_revision s1 = Some ([True, True], s2)" "contains [input_record ?x, y1_record ?y] m s2"
    "Mapping.lookup m input_state = Some (status_of_record (input_record ?x))"
    "short_details m"
    by (rule mutate_revision_value [OF s1(2)])
  let ?y2 = "y2_record (y1_record ?y) (run_y2 r)"
  obtain s3 where s3: "recompute r s2 = Some ([run_copy_in2 r, run_kernel2 r, run_copy_out2 r, run_verified2 r, True, True], s3)"
    "contains [input_record ?x, y1_record ?y, ?y2] (Mapping.update y2_state (status_of_record ?y2) m) s3"
    by (rule recompute_value [OF s2(2,3)])
  have "replay_snapshot s3 = Some [True, True]"
    by (rule replay_snapshot_value [OF s3(2)])
      (use s2(4) in \<open>auto simp: cuda_records lookup_update' short_details_def split: if_splits\<close>)
  with s1(1) s2(1) s3(1) False show ?thesis
    by (auto simp: cuda_main_def device_run_ok_def device_present_def teardown_def Let_def)
qed



end
