(* ===== verification/Examples.thy ===== *)
theory Examples
  imports Store_Contents Explain "HOL-Library.Monad_Syntax"
begin

text \<open>
  The programs of \<^verbatim>\<open>examples\<close> (01 to 10, 12 and 13) and the downstream consumer: each is a function that
  calls the model of the library as the program calls the library and returns what it prints.  The
  lemmas give the text that each of them prints.
\<close>

section \<open>Records and stores of the examples\<close>

text \<open>No caller gives the last two arguments of \<^verbatim>\<open>ex_base\<close>, so both generations are their default 1.\<close>

definition ex_base :: "StateId \<Rightarrow> ProvenanceId \<Rightarrow> RecordData" where
  "ex_base sid pid = empty_record\<lparr>
     provenance_id := pid, provenance_generation := ScalarIdentifier 1,
     subject_id := sid, subject_kind := SK_KVState, state_generation := ScalarIdentifier 1,
     producer_id := ScalarIdentifier 0xA, producer_generation := ScalarIdentifier 1,
     execution_id := ScalarIdentifier 0xE1, attempt_id := ScalarIdentifier 1, attempt_generation := ScalarIdentifier 1,
     model_id := ScalarIdentifier 7, model_generation := ScalarIdentifier 1,
     architecture := ''sm_120'', abi := ''sm_120'', dtype := ''float16'', layout := ''rowmajor'', shape := ''1024x4096'',
     evidence := EV_MEASURED, validity := VS_VALID\<rparr>"

text \<open>The first lines of every example: a store with both generations rolled to 1.\<close>

definition example_store :: ProvenanceStore where
  "example_store =
     store_roll_state_generation (ScalarIdentifier 1) (store_roll_provenance_generation (ScalarIdentifier 1) empty_store)"

text \<open>\<^verbatim>\<open>%d\<close> of a \<^verbatim>\<open>bool\<close> that was cast to \<^verbatim>\<open>int\<close>, and lines behind a prefix.\<close>

definition flag_text :: "bool \<Rightarrow> string" where
  "flag_text b = (if b then ''1'' else ''0'')"

definition id_lines :: "string \<Rightarrow> 'tag ScalarIdentifier list \<Rightarrow> string" where
  "id_lines prefix is = concat (map (\<lambda>i. prefix @ to_string i @ newline) is)"

section \<open>The programs\<close>

text \<open>
  A program is the text it prints; \<open>None\<close> is an uncaught exception or a dereferenced null pointer or
  empty optional.
\<close>

definition example_01 :: "string option" where
  "example_01 = do {
     let root = ex_base (ScalarIdentifier 1) (ScalarIdentifier 2);
     let child = (ex_base (ScalarIdentifier 2) (ScalarIdentifier 4))
       \<lparr>subject_kind := SK_TensorState, input_states := [ScalarIdentifier 1]\<rparr>;
     (_, s) \<leftarrow> returned (publish root example_store);
     (p, s) \<leftarrow> returned (publish child s);
     Some (''derivation ok='' @ flag_text (po_ok p) @ ''  size='' @ dec_string (store_size s) @ newline
       @ ''ancestry of 2:'' @ newline @ id_lines ''  <- '' (store_ancestors s (ScalarIdentifier 2))
       @ ''descendants of 1:'' @ newline @ id_lines ''  -> '' (store_descendants s (ScalarIdentifier 1)))
   }"

definition example_02 :: "string option" where
  "example_02 = do {
     (_, s) \<leftarrow> returned (publish (ex_base (ScalarIdentifier 1) (ScalarIdentifier 2)) example_store);
     (_, s) \<leftarrow> returned (publish (ex_base (ScalarIdentifier 2) (ScalarIdentifier 4)) s);
     let c = (ex_base (ScalarIdentifier 3) (ScalarIdentifier 6))
       \<lparr>input_states := [ScalarIdentifier 1, ScalarIdentifier 2]\<rparr>;
     (_, s) \<leftarrow> returned (publish c s);
     let sh = store_shared_ancestors s (ScalarIdentifier 3) (ScalarIdentifier 2);
     Some (''shared ancestors of C and B:'' @ newline @ id_lines ''  '' sh
       @ ''fan-in of C = '' @ dec_string (length (store_parents s (ScalarIdentifier 3)))
       @ ''; fan-out of A = '' @ dec_string (length (store_children s (ScalarIdentifier 1))) @ newline)
   }"

definition example_03 :: "string option" where
  "example_03 = do {
     let s = store_set_model_generation (ScalarIdentifier 3) example_store;
     let d = (ex_base (ScalarIdentifier 1) (ScalarIdentifier 2))
       \<lparr>model_id := ScalarIdentifier 0x42, model_generation := ScalarIdentifier 3, model_revision := ''llama-3-8b'',
        tokenizer := ''llama3-tok''\<rparr>;
     (_, s) \<leftarrow> returned (publish d s);
     let req = empty_request\<lparr>q_model_id := ScalarIdentifier 0x42, q_model_generation := ScalarIdentifier 3,
       q_model_revision := ''llama-3-8b'', q_tokenizer := ''llama3-tok''\<rparr>;
     let dec = check_reuse s (ScalarIdentifier 1) req;
     let req2 = req\<lparr>q_model_revision := ''llama-3-70b''\<rparr>;
     let dec2 = check_reuse s (ScalarIdentifier 1) req2;
     Some (''match  -> '' @ summary dec @ newline @ ''rev mismatch -> '' @ summary dec2 @ newline)
   }"

definition example_04 :: "string option" where
  "example_04 = do {
     let d = (ex_base (ScalarIdentifier 1) (ScalarIdentifier 2))
       \<lparr>adapter_id := ScalarIdentifier 0x31, adapter_generation := ScalarIdentifier 4,
        adapter_revision := ''loRA-r32'', composition_id := ScalarIdentifier 0x51,
        composition_generation := ScalarIdentifier 2, composition_fingerprint := ''comp:lorA+r32+quant''\<rparr>;
     (_, s) \<leftarrow> returned (publish d example_store);
     let req = empty_request\<lparr>q_adapter_id := ScalarIdentifier 0x31, q_adapter_generation := ScalarIdentifier 4,
       q_adapter_revision := ''loRA-r32'', q_composition_fingerprint := ''comp:lorA+r32+quant''\<rparr>;
     let dec = check_reuse s (ScalarIdentifier 1) req;
     let req2 = req\<lparr>q_composition_fingerprint := ''comp:unrelated''\<rparr>;
     Some (''composition match -> '' @ summary dec @ newline
       @ ''composition mismatch -> '' @ summary (check_reuse s (ScalarIdentifier 1) req2) @ newline)
   }"

definition example_05 :: "string option" where
  "example_05 = do {
     let input = (ex_base (ScalarIdentifier 1) (ScalarIdentifier 2))\<lparr>subject_kind := SK_Buffer\<rparr>;
     let kernel = (ex_base (ScalarIdentifier 2) (ScalarIdentifier 4))
       \<lparr>subject_kind := SK_CompiledKernel, dtype := ''float16'', architecture := ''sm_120'', compute_capability := ''12.0''\<rparr>;
     let out = (ex_base (ScalarIdentifier 3) (ScalarIdentifier 6))
       \<lparr>subject_kind := SK_TensorState, input_states := [ScalarIdentifier 1],
        dependencies := [Dependency (ScalarIdentifier 1) (ScalarIdentifier 1) ''compiled-kernel'' ''0x2'']\<rparr>;
     (_, s) \<leftarrow> returned (publish input example_store);
     (_, s) \<leftarrow> returned (publish kernel s);
     (p, s) \<leftarrow> returned (publish out s);
     r \<leftarrow> find_record s (ScalarIdentifier 3);
     Some (''kernel state produced='' @ flag_text (po_ok p) @ '' size='' @ dec_string (store_size s) @ newline
       @ ''dependencies of output state:'' @ newline
       @ concat (map (\<lambda>dep. ''  '' @ to_string (dep_id dep) @ '' ('' @ dep_kind dep @ '') rev '' @ dep_revision dep @ newline)
           (dependencies r)))
   }"

definition example_06 :: "string option" where
  "example_06 = do {
     let d = ex_base (ScalarIdentifier 1) (ScalarIdentifier 2);
     (_, s) \<leftarrow> returned (publish d example_store);
     let match = empty_request\<lparr>q_model_id := ScalarIdentifier 7, q_model_generation := ScalarIdentifier 1,
       q_architecture := ''sm_120'', q_dtype := ''float16''\<rparr>;
     let arch = match\<lparr>q_architecture := ''sm_100''\<rparr>;
     let dtype = match\<lparr>q_dtype := ''float32''\<rparr>;
     Some (''match -> '' @ summary (check_reuse s (ScalarIdentifier 1) match) @ newline
       @ ''arch mismatch -> '' @ summary (check_reuse s (ScalarIdentifier 1) arch) @ newline
       @ ''dtype mismatch -> '' @ summary (check_reuse s (ScalarIdentifier 1) dtype) @ newline)
   }"

definition example_07 :: "string option" where
  "example_07 = do {
     (_, s) \<leftarrow> returned (publish (ex_base (ScalarIdentifier 1) (ScalarIdentifier 2)) example_store);
     (_, s) \<leftarrow> returned (publish ((ex_base (ScalarIdentifier 2) (ScalarIdentifier 4))\<lparr>input_states := [ScalarIdentifier 1]\<rparr>) s);
     (_, s) \<leftarrow> returned (publish ((ex_base (ScalarIdentifier 3) (ScalarIdentifier 6))\<lparr>input_states := [ScalarIdentifier 2]\<rparr>) s);
     (_, s) \<leftarrow> returned (publish (ex_base (ScalarIdentifier 4) (ScalarIdentifier 8)) s);
     (inv, s) \<leftarrow> invalidate (InvalidatingSubject (ScalarIdentifier 1) IR_DependencyInvalidation ''dep gone'') s;
     let res = io_result inv;
     let ch = chain_for res (ScalarIdentifier 3);
     Some (''invalidated '' @ dec_string (length (affected res)) @ '' subject(s):'' @ newline
       @ concat (map (\<lambda>i. ''  '' @ to_string i @ '' -> ''
           @ (if validity_of s i = VS_INVALIDATED then ''INVALIDATED'' else ''VALID'') @ newline) (affected res))
       @ ''causal chain to C: '' @ concat (map (\<lambda>x. to_string x @ '' '') (chain_path ch))
       @ newline @ ''unrelated D validity = ''
       @ (if validity_of s (ScalarIdentifier 4) = VS_VALID then ''VALID'' else ''INVALIDATED'') @ newline)
   }"

definition example_08 :: "string option" where
  "example_08 = do {
     (_, s) \<leftarrow> returned (publish (ex_base (ScalarIdentifier 1) (ScalarIdentifier 2)) example_store);
     let s1 = store_roll_state_generation (ScalarIdentifier 2) (store_roll_provenance_generation (ScalarIdentifier 2) s);
     let old = empty_claim\<lparr>claim_coordinator_epoch := as_epoch (store_authority s1),
       claim_provenance_generation := ScalarIdentifier 1\<rparr>;
     let f = roll_provenance_generation (ScalarIdentifier 2) (set_epoch (as_epoch (store_authority s1)) initial_authority);
     let verdict = evaluate_claim f old;
     Some (''before rollover: prov_gen='' @ to_string (as_provenance_generation (store_authority s))
         @ '' state_gen='' @ to_string (as_state_generation (store_authority s)) @ newline
       @ ''after  rollover: prov_gen='' @ to_string (as_provenance_generation (store_authority s1))
         @ '' state_gen='' @ to_string (as_state_generation (store_authority s1)) @ newline
       @ ''old-gen claim rejected='' @ flag_text (\<not> accepted verdict) @ '' ('' @ v_dimension verdict @ '')'' @ newline)
   }"

text \<open>
  The file of example 09 lies in the directory \<open>tmp\<close>.  A failed save is only printed, and the result
  of the load is dereferenced without a test.
\<close>

definition example_09 :: "string \<Rightarrow> IoFaults \<Rightarrow> ReadFault \<Rightarrow> filesystem \<Rightarrow> (string \<times> filesystem) option" where
  "example_09 tmp io fault fs = do {
     (_, s) \<leftarrow> returned (publish (ex_base (ScalarIdentifier 1) (ScalarIdentifier 2)) example_store);
     let b = (ex_base (ScalarIdentifier 2) (ScalarIdentifier 4))\<lparr>input_states := [ScalarIdentifier 1]\<rparr>;
     (_, s) \<leftarrow> returned (publish b s);
     let path = tmp @ ''/sp_ex09.bin'';
     let d0 = store_digest (store_snapshot s);
     (err, fs) \<leftarrow> (case save_file (store_snapshot s) path io fs of
         (Saved, fs) \<Rightarrow> Some (''(none)'', fs) | (SaveError e, fs) \<Rightarrow> Some (e, fs) | (SaveThrew, fs) \<Rightarrow> None);
     sn \<leftarrow> lr_snapshot (load_file path fault fs);
     r \<leftarrow> restored sn;
     Some (''save err='' @ err @ '' digest='' @ d0 @ newline
       @ ''recovered size='' @ dec_string (store_size r) @ '' digest='' @ store_digest (store_snapshot r)
       @ '' match='' @ flag_text (store_digest (store_snapshot r) = d0) @ newline, fs(path := None))
   }"

text \<open>The loop of example 10 and the record of one iteration.\<close>

definition replay_record :: "nat \<Rightarrow> RecordData" where
  "replay_record i =
     (let d = ex_base (ScalarIdentifier (of_nat i)) (ScalarIdentifier (of_nat (i * 2)))
      in if 1 < i then d\<lparr>input_states := [ScalarIdentifier (of_nat (i - 1))]\<rparr> else d)"

fun publish_each :: "RecordData list \<Rightarrow> ProvenanceStore \<Rightarrow> ProvenanceStore option" where
  "publish_each [] s = Some s"
| "publish_each (d # ds) s = do { (_, s) \<leftarrow> returned (publish d s); publish_each ds s }"

definition example_10 :: "string option" where
  "example_10 = do {
     s \<leftarrow> publish_each (map replay_record [1..<6]) example_store;
     b1 \<leftarrow> encode_snapshot (store_snapshot s);
     b2 \<leftarrow> encode_snapshot (store_snapshot s);
     sn \<leftarrow> (case decode_snapshot b1 of Inl e \<Rightarrow> None | Inr sn \<Rightarrow> Some sn);
     r \<leftarrow> restored sn;
     Some (''encoded identical='' @ flag_text (b1 = b2) @ ''  digest='' @ store_digest (store_snapshot s) @ newline
       @ ''replay digest='' @ store_digest (store_snapshot r)
       @ ''  match='' @ flag_text (store_digest (store_snapshot r) = store_digest (store_snapshot s)) @ newline)
   }"

definition fencing_store :: ProvenanceStore where
  "fencing_store =
     store_set_dependency_generation (ScalarIdentifier 9)
       (store_begin_attempt (ScalarIdentifier 7) (ScalarIdentifier 3)
         (store_register_boot (ScalarIdentifier 0xA) (ScalarIdentifier 0xB1) example_store))"

definition fencing_claim :: "u64 \<Rightarrow> AuthorityClaim" where
  "fencing_claim epoch = empty_claim\<lparr>
     claim_worker_id := ScalarIdentifier 0xA, claim_worker_boot := ScalarIdentifier 0xB1,
     claim_attempt_id := ScalarIdentifier 7, claim_attempt_generation := ScalarIdentifier 3,
     claim_state_generation := ScalarIdentifier 1, claim_provenance_generation := ScalarIdentifier 1,
     claim_coordinator_epoch := epoch, claim_dependency_generation := Some (ScalarIdentifier 9)\<rparr>"

definition example_12 :: "string option" where
  "example_12 = do {
     let s = fencing_store;
     let d = ex_base (ScalarIdentifier 1) (ScalarIdentifier 2);
     let claim = fencing_claim (store_epoch s);
     (p, s) \<leftarrow> returned (publish_fenced d claim s);
     let s = snd (store_roll_epoch s);
     let d2 = ex_base (ScalarIdentifier 2) (ScalarIdentifier 4);
     (p2, s) \<leftarrow> returned (publish_fenced d2 claim s);
     Some (''fenced publish ok='' @ flag_text (po_ok p) @ newline
       @ ''after epoch roll: accepted='' @ flag_text (po_ok p2) @ '' error=''
       @ (if po_error p2 = [] then ''(none)'' else po_error p2) @ newline)
   }"

definition example_13 :: "string option" where
  "example_13 = do {
     let inp = (ex_base (ScalarIdentifier 1) (ScalarIdentifier 2))\<lparr>subject_kind := SK_Buffer\<rparr>;
     (_, s) \<leftarrow> returned (publish inp example_store);
     let kernel = (ex_base (ScalarIdentifier 2) (ScalarIdentifier 4))
       \<lparr>subject_kind := SK_CompiledKernel, model_id := ScalarIdentifier 0x6001,
        architecture := ''sm_120'', compute_capability := ''12.0'',
        backend_id := ScalarIdentifier 0x6101, runtime_id := ScalarIdentifier 0x6201,
        toolchain_id := ScalarIdentifier 0x6301, device_id := ScalarIdentifier 0x6401\<rparr>;
     (_, s) \<leftarrow> returned (publish kernel s);
     let out = (ex_base (ScalarIdentifier 3) (ScalarIdentifier 6))
       \<lparr>subject_kind := SK_TensorState, input_states := [ScalarIdentifier 1],
        model_id := ScalarIdentifier 0x6001, architecture := ''sm_120'', compute_capability := ''12.0'',
        dtype := ''float16'', content_digest := ''crc32:deadbeef'',
        dependencies := [Dependency (ScalarIdentifier 9) (ScalarIdentifier 1) ''compiled-kernel'' ''0x2'']\<rparr>;
     (p, s) \<leftarrow> returned (publish out s);
     Some (''CUDA kernel-derived state published='' @ flag_text (po_ok p) @ newline
       @ ''device: '' @ architecture kernel @ '' cc '' @ compute_capability kernel
       @ ''  backend='' @ to_string (backend_id kernel) @ '' runtime='' @ to_string (runtime_id kernel)
       @ '' toolchain='' @ to_string (toolchain_id kernel) @ newline
       @ ''run the real proof with: sp_cuda_proof  (validated on RTX 5090 / sm_120)'' @ newline)
   }"

section \<open>The downstream consumer\<close>

text \<open>The exit code and the line it prints.  The validity of the record is the default one.\<close>

definition consumer_record :: RecordData where
  "consumer_record = empty_record\<lparr>
     provenance_id := ScalarIdentifier 0x10, provenance_generation := ScalarIdentifier 1,
     subject_id := ScalarIdentifier 1, subject_kind := SK_KVState, state_generation := ScalarIdentifier 1,
     producer_id := ScalarIdentifier 0xA, producer_generation := ScalarIdentifier 1,
     execution_id := ScalarIdentifier 0xE1, attempt_id := ScalarIdentifier 1, attempt_generation := ScalarIdentifier 1,
     model_id := ScalarIdentifier 7, model_generation := ScalarIdentifier 1, evidence := EV_MEASURED\<rparr>"

definition consumer_main :: "(nat \<times> string) option" where
  "consumer_main = do {
     (p, s) \<leftarrow> returned (publish consumer_record example_store);
     let req = empty_request\<lparr>q_model_id := ScalarIdentifier 7, q_model_generation := ScalarIdentifier 1\<rparr>;
     let dec = check_reuse s (ScalarIdentifier 1) req;
     Some (if po_ok p \<and> d_eligibility dec = RE_ELIGIBLE then 0 else 1,
       ''downstream consumer: published='' @ flag_text (po_ok p) @ '' size='' @ dec_string (store_size s)
       @ '' reuse='' @ summary dec @ newline)
   }"

section \<open>Facts the proofs share\<close>

definition example_authority :: AuthorityState where
  "example_authority = roll_state_generation (ScalarIdentifier 1) (roll_provenance_generation (ScalarIdentifier 1) initial_authority)"

lemma example_store_built: "example_store = built example_authority []"
  by (simp add: example_store_def built_def store_roll_state_generation_def store_roll_provenance_generation_def
      example_authority_def empty_store_def)

lemma ex_base_fields [simp]:
  "subject_id (ex_base i p) = i" "provenance_id (ex_base i p) = p" "input_states (ex_base i p) = []"
  "parent_provenance (ex_base i p) = []" "validity (ex_base i p) = VS_VALID" "dependencies (ex_base i p) = []"
  by (simp_all add: ex_base_def empty_record_def)

lemma ex_base_ok [simp]:
  "record_ok (ex_base i p) \<longleftrightarrow> valid i \<and> valid p"
  "record_ok ((ex_base i p)\<lparr>input_states := [j]\<rparr>) \<longleftrightarrow> valid i \<and> valid p"
  by (auto simp: record_ok_def ex_base_def empty_record_def valid_def)

lemma hex_fixed_numeral:
  "hex_fixed (numeral k) n = hex_fixed (pred_numeral k) (n div 16) @ [hex_digit (n mod 16)]"
  unfolding numeral_eq_Suc [of k] by (rule hex_fixed.simps(2))

lemma printed:
  "to_string (ScalarIdentifier 1) = ''0x0000000000000001''" "to_string (ScalarIdentifier 2) = ''0x0000000000000002''"
  "to_string (ScalarIdentifier 3) = ''0x0000000000000003''" "to_string (ScalarIdentifier 9) = ''0x0000000000000009''"
  "to_string (ScalarIdentifier 0x6101) = ''0x0000000000006101''" "to_string (ScalarIdentifier 0x6201) = ''0x0000000000006201''"
  "to_string (ScalarIdentifier 0x6301) = ''0x0000000000006301''"
  by (simp_all add: to_string_def hex_fixed_numeral hex_digit_def)

lemma small_counts: "dec_string (Suc 0) = ''1''" "dec_string 2 = ''2''" "dec_string (Suc (Suc 0)) = ''2''" "dec_string (Suc (Suc (Suc 0))) = ''3''"
  by (simp_all add: dec_string.simps hex_digit_def)

section \<open>What they print\<close>

text \<open>
  Derivations (01, 02, 05, 13), reuse decisions (03, 04, 06), invalidation (07), generations and
  fencing (08, 12), recovery from a file and from bytes (09, 10), and the exit code of the consumer.  In 02
  the two states share no ancestor, because a state is not its own ancestor.
\<close>

theorem example_01_prints: "example_01 = Some (
    ''derivation ok=1  size=2'' @ newline
  @ ''ancestry of 2:'' @ newline
  @ ''  <- 0x0000000000000001'' @ newline
  @ ''descendants of 1:'' @ newline
  @ ''  -> 0x0000000000000002'' @ newline)"
proof -
  let ?r = "ex_base (ScalarIdentifier 1) (ScalarIdentifier 2)"
    and ?c = "(ex_base (ScalarIdentifier 2) (ScalarIdentifier 4))
       \<lparr>subject_kind := SK_TensorState, input_states := [ScalarIdentifier 1]\<rparr>"
  let ?s = "built example_authority [?r, ?c]"
  have ok: "all_publishable [] [?r, ?c]" by code_simp
  note p = publish_nth [OF ok, of 0, simplified] publish_nth [OF ok, of 1, simplified]
  have q: "store_ancestors ?s (ScalarIdentifier 2) = [ScalarIdentifier 1]"
    "store_descendants ?s (ScalarIdentifier 1) = [ScalarIdentifier 2]" by code_simp+
  show ?thesis
    by (simp add: example_01_def example_store_built p q id_lines_def printed small_counts flag_text_def built_facts(1) [OF ok] Let_def)
qed

theorem example_02_prints: "example_02 = Some (
    ''shared ancestors of C and B:'' @ newline
  @ ''fan-in of C = 2; fan-out of A = 1'' @ newline)"
proof -
  let ?a = "ex_base (ScalarIdentifier 1) (ScalarIdentifier 2)" and ?b = "ex_base (ScalarIdentifier 2) (ScalarIdentifier 4)"
    and ?c = "(ex_base (ScalarIdentifier 3) (ScalarIdentifier 6))\<lparr>input_states := [ScalarIdentifier 1, ScalarIdentifier 2]\<rparr>"
  let ?s = "built example_authority [?a, ?b, ?c]"
  have ok: "all_publishable [] [?a, ?b, ?c]" by code_simp
  note p = publish_nth [OF ok, of 0, simplified] publish_nth [OF ok, of 1, simplified] publish_nth [OF ok, of 2, simplified]
  have q: "store_shared_ancestors ?s (ScalarIdentifier 3) (ScalarIdentifier 2) = []"
    "store_parents ?s (ScalarIdentifier 3) = [ScalarIdentifier 1, ScalarIdentifier 2]"
    "store_children ?s (ScalarIdentifier 1) = [ScalarIdentifier 3]" by code_simp+
  show ?thesis
    by (simp add: example_02_def example_store_built p q id_lines_def printed small_counts Let_def)
qed

theorem example_03_prints: "example_03 = Some (
    ''match  -> ELIGIBLE'' @ newline
  @ ''rev mismatch -> INCOMPATIBLE (model revision incompatible with requested environment)'' @ newline)"
proof -
  let ?d = "(ex_base (ScalarIdentifier 1) (ScalarIdentifier 2))
       \<lparr>model_id := ScalarIdentifier 0x42, model_generation := ScalarIdentifier 3, model_revision := ''llama-3-8b'',
        tokenizer := ''llama3-tok''\<rparr>"
    and ?q = "empty_request\<lparr>q_model_id := ScalarIdentifier 0x42, q_model_generation := ScalarIdentifier 3,
       q_model_revision := ''llama-3-8b'', q_tokenizer := ''llama3-tok''\<rparr>"
    and ?a = "set_model_generation (ScalarIdentifier 3) example_authority"
  have ok: "all_publishable [] [?d]" by code_simp
  have s: "store_set_model_generation (ScalarIdentifier 3) example_store = built ?a []"
    by (simp add: example_store_built built_def store_set_model_generation_def)
  note p = publish_nth [OF ok, of 0, simplified]
  have q: "check_reuse (built ?a [?d]) (ScalarIdentifier 1) q = evaluate_reuse ?d q" for q
    using built_facts(5) [OF ok, of ?d] by simp
  have e: "summary (evaluate_reuse ?d ?q) = ''ELIGIBLE''"
    "summary (evaluate_reuse ?d (?q\<lparr>q_model_revision := ''llama-3-70b''\<rparr>))
      = ''INCOMPATIBLE (model revision incompatible with requested environment)''" by code_simp+
  show ?thesis using e by (simp add: example_03_def s p q Let_def)
qed

theorem example_04_prints: "example_04 = Some (
    ''composition match -> ELIGIBLE'' @ newline
  @ ''composition mismatch -> INCOMPATIBLE (adapter composition incompatible with requested environment)'' @ newline)"
proof -
  let ?d = "(ex_base (ScalarIdentifier 1) (ScalarIdentifier 2))
       \<lparr>adapter_id := ScalarIdentifier 0x31, adapter_generation := ScalarIdentifier 4,
        adapter_revision := ''loRA-r32'', composition_id := ScalarIdentifier 0x51,
        composition_generation := ScalarIdentifier 2, composition_fingerprint := ''comp:lorA+r32+quant''\<rparr>"
    and ?q = "empty_request\<lparr>q_adapter_id := ScalarIdentifier 0x31, q_adapter_generation := ScalarIdentifier 4,
       q_adapter_revision := ''loRA-r32'', q_composition_fingerprint := ''comp:lorA+r32+quant''\<rparr>"
  have ok: "all_publishable [] [?d]" by code_simp
  note p = publish_nth [OF ok, of 0, simplified]
  have q: "check_reuse (built example_authority [?d]) (ScalarIdentifier 1) q = evaluate_reuse ?d q" for q
    using built_facts(5) [OF ok, of ?d] by simp
  have e: "summary (evaluate_reuse ?d ?q) = ''ELIGIBLE''"
    "summary (evaluate_reuse ?d (?q\<lparr>q_composition_fingerprint := ''comp:unrelated''\<rparr>))
      = ''INCOMPATIBLE (adapter composition incompatible with requested environment)''" by code_simp+
  show ?thesis using e by (simp add: example_04_def example_store_built p q Let_def)
qed

theorem example_05_prints: "example_05 = Some (
    ''kernel state produced=1 size=3'' @ newline
  @ ''dependencies of output state:'' @ newline
  @ ''  0x0000000000000001 (compiled-kernel) rev 0x2'' @ newline)"
proof -
  let ?i = "(ex_base (ScalarIdentifier 1) (ScalarIdentifier 2))\<lparr>subject_kind := SK_Buffer\<rparr>"
    and ?k = "(ex_base (ScalarIdentifier 2) (ScalarIdentifier 4))
       \<lparr>subject_kind := SK_CompiledKernel, dtype := ''float16'', architecture := ''sm_120'', compute_capability := ''12.0''\<rparr>"
    and ?o = "(ex_base (ScalarIdentifier 3) (ScalarIdentifier 6))
       \<lparr>subject_kind := SK_TensorState, input_states := [ScalarIdentifier 1],
        dependencies := [Dependency (ScalarIdentifier 1) (ScalarIdentifier 1) ''compiled-kernel'' ''0x2'']\<rparr>"
  have ok: "all_publishable [] [?i, ?k, ?o]" by code_simp
  note p = publish_nth [OF ok, of 0, simplified] publish_nth [OF ok, of 1, simplified] publish_nth [OF ok, of 2, simplified]
  have q: "find_record (built example_authority [?i, ?k, ?o]) (ScalarIdentifier 3) = Some ?o"
    using built_facts(4) [OF ok, of ?o] by simp
  show ?thesis
    by (simp add: example_05_def example_store_built p q built_facts(1) [OF ok] flag_text_def printed small_counts Let_def)
qed

theorem example_06_prints: "example_06 = Some (
    ''match -> ELIGIBLE'' @ newline
  @ ''arch mismatch -> INCOMPATIBLE (architecture incompatible with requested environment)'' @ newline
  @ ''dtype mismatch -> INCOMPATIBLE (dtype incompatible with requested environment)'' @ newline)"
proof -
  let ?d = "ex_base (ScalarIdentifier 1) (ScalarIdentifier 2)"
    and ?q = "empty_request\<lparr>q_model_id := ScalarIdentifier 7, q_model_generation := ScalarIdentifier 1,
       q_architecture := ''sm_120'', q_dtype := ''float16''\<rparr>"
  have ok: "all_publishable [] [?d]" by code_simp
  note p = publish_nth [OF ok, of 0, simplified]
  have q: "check_reuse (built example_authority [?d]) (ScalarIdentifier 1) q = evaluate_reuse ?d q" for q
    using built_facts(5) [OF ok, of ?d] by simp
  have e: "summary (evaluate_reuse ?d ?q) = ''ELIGIBLE''"
    "summary (evaluate_reuse ?d (?q\<lparr>q_architecture := ''sm_100''\<rparr>))
      = ''INCOMPATIBLE (architecture incompatible with requested environment)''"
    "summary (evaluate_reuse ?d (?q\<lparr>q_dtype := ''float32''\<rparr>))
      = ''INCOMPATIBLE (dtype incompatible with requested environment)''" by code_simp+
  show ?thesis using e by (simp add: example_06_def example_store_built p q Let_def)
qed

theorem example_07_prints: "example_07 = Some (
    ''invalidated 3 subject(s):'' @ newline
  @ ''  0x0000000000000001 -> INVALIDATED'' @ newline
  @ ''  0x0000000000000002 -> INVALIDATED'' @ newline
  @ ''  0x0000000000000003 -> INVALIDATED'' @ newline
  @ ''causal chain to C: 0x0000000000000001 0x0000000000000002 0x0000000000000003 '' @ newline
  @ ''unrelated D validity = VALID'' @ newline)"
proof -
  let ?a = "ex_base (ScalarIdentifier 1) (ScalarIdentifier 2)"
    and ?b = "(ex_base (ScalarIdentifier 2) (ScalarIdentifier 4))\<lparr>input_states := [ScalarIdentifier 1]\<rparr>"
    and ?c = "(ex_base (ScalarIdentifier 3) (ScalarIdentifier 6))\<lparr>input_states := [ScalarIdentifier 2]\<rparr>"
    and ?d = "ex_base (ScalarIdentifier 4) (ScalarIdentifier 8)"
  let ?run = "invalidate (InvalidatingSubject (ScalarIdentifier 1) IR_DependencyInvalidation ''dep gone'')
    (built example_authority [?a, ?b, ?c, ?d])"
  have ok: "all_publishable [] [?a, ?b, ?c, ?d]" by code_simp
  note p = publish_nth [OF ok, of 0, simplified] publish_nth [OF ok, of 1, simplified]
    publish_nth [OF ok, of 2, simplified] publish_nth [OF ok, of 3, simplified]
  have "map_option (\<lambda>(inv, s). affected (io_result inv)) ?run
      = Some [ScalarIdentifier 1, ScalarIdentifier 2, ScalarIdentifier 3]"
    "map_option (\<lambda>(inv, s). chain_path (chain_for (io_result inv) (ScalarIdentifier 3))) ?run
      = Some [ScalarIdentifier 1, ScalarIdentifier 2, ScalarIdentifier 3]"
    "map_option (\<lambda>(inv, s). validity_of s (ScalarIdentifier 1)) ?run = Some VS_INVALIDATED"
    "map_option (\<lambda>(inv, s). validity_of s (ScalarIdentifier 2)) ?run = Some VS_INVALIDATED"
    "map_option (\<lambda>(inv, s). validity_of s (ScalarIdentifier 3)) ?run = Some VS_INVALIDATED"
    "map_option (\<lambda>(inv, s). validity_of s (ScalarIdentifier 4)) ?run = Some VS_VALID"
    by code_simp+
  then obtain inv s where "?run = Some (inv, s)"
      "affected (io_result inv) = [ScalarIdentifier 1, ScalarIdentifier 2, ScalarIdentifier 3]"
      "chain_path (chain_for (io_result inv) (ScalarIdentifier 3)) = [ScalarIdentifier 1, ScalarIdentifier 2, ScalarIdentifier 3]"
      "validity_of s (ScalarIdentifier 1) = VS_INVALIDATED" "validity_of s (ScalarIdentifier 2) = VS_INVALIDATED"
      "validity_of s (ScalarIdentifier 3) = VS_INVALIDATED" "validity_of s (ScalarIdentifier 4) = VS_VALID"
    by auto
  then show ?thesis
    by (simp add: example_07_def example_store_built p printed small_counts Let_def)
qed

theorem example_08_prints: "example_08 = Some (
    ''before rollover: prov_gen=0x0000000000000001 state_gen=0x0000000000000001'' @ newline
  @ ''after  rollover: prov_gen=0x0000000000000002 state_gen=0x0000000000000002'' @ newline
  @ ''old-gen claim rejected=1 (ProvenanceGeneration)'' @ newline)"
proof -
  let ?d = "ex_base (ScalarIdentifier 1) (ScalarIdentifier 2)"
  let ?s = "built example_authority [?d]"
  have ok: "all_publishable [] [?d]" by code_simp
  note p = publish_nth [OF ok, of 0, simplified]
  have a: "as_epoch (store_authority (s\<lparr>st_authority := a\<rparr>)) = a_epoch a"
    "as_state_generation (store_authority (s\<lparr>st_authority := a\<rparr>)) = a_state_generation a"
    "as_provenance_generation (store_authority (s\<lparr>st_authority := a\<rparr>)) = a_provenance_generation a" for s a
    by (simp_all add: store_authority_def Let_def)
  have b: "a_epoch (st_authority ?s) = 1" "a_state_generation (st_authority ?s) = ScalarIdentifier 1"
    "a_provenance_generation (st_authority ?s) = ScalarIdentifier 1"
    "as_state_generation (store_authority ?s) = ScalarIdentifier 1"
    "as_provenance_generation (store_authority ?s) = ScalarIdentifier 1"
    using a [where s = ?s and a = "st_authority ?s"] built_facts(3) [OF ok, of example_authority]
    by (simp_all add: example_authority_def authority_ops initial_authority_def)
  have v: "\<not> accepted (evaluate_claim (roll_provenance_generation (ScalarIdentifier 2) (set_epoch 1 initial_authority))
      (empty_claim\<lparr>claim_coordinator_epoch := 1, claim_provenance_generation := ScalarIdentifier 1\<rparr>))"
    "v_dimension (evaluate_claim (roll_provenance_generation (ScalarIdentifier 2) (set_epoch 1 initial_authority))
      (empty_claim\<lparr>claim_coordinator_epoch := 1, claim_provenance_generation := ScalarIdentifier 1\<rparr>)) = ''ProvenanceGeneration''"
    by code_simp+
  show ?thesis
    using v by (simp add: example_08_def example_store_built p a b printed flag_text_def Let_def authority_ops
      store_roll_state_generation_def store_roll_provenance_generation_def)
qed

lemma small_examples [simp]: "small_record (ex_base i p)" "small_record ((ex_base i p)\<lparr>input_states := [j]\<rparr>)"
proof -
  note sizes = small_record_def record_fits_def record_strings_def short_strings_def write_record_def put_list_def put_u32_def
    put_u64_def put_u8_def put_str_def bytes_u32_def bytes_u64_def kMaxVecLen_def
  show "small_record (ex_base i p)"
    by (simp add: ex_base_def empty_record_def sizes) (simp add: kMaxStringLen_def)
  show "small_record ((ex_base i p)\<lparr>input_states := [j]\<rparr>)"
    by (simp add: ex_base_def empty_record_def sizes) (simp add: kMaxStringLen_def)
qed

lemma record_note_ex_base [simp]: "record_note (ex_base i p) = []"
  by (simp add: ex_base_def empty_record_def)

text \<open>
  The saved store is recovered with the digest it had, and the directory is as before; a save that
  fails where there is no older file ends in the dereferenced empty result.
\<close>

theorem example_09_recovers:
  assumes "fs (tmp @ ''/sp_ex09.bin'') = None" "fs (tmp @ ''/sp_ex09.bin.tmp'') = None"
  shows "if open_ok io \<and> written io = None \<and> rename1_ok io
     then \<exists>dig. example_09 tmp io No_fault fs = Some (
           ''save err=(none) digest='' @ dig @ newline
         @ ''recovered size=2 digest='' @ dig @ '' match=1'' @ newline, fs)
     else platform io = Windows \<longrightarrow> example_09 tmp io No_fault fs = None"
proof -
  let ?a = "ex_base (ScalarIdentifier 1) (ScalarIdentifier 2)"
    and ?b = "(ex_base (ScalarIdentifier 2) (ScalarIdentifier 4))\<lparr>input_states := [ScalarIdentifier 1]\<rparr>"
  let ?s = "built example_authority [?a, ?b]" and ?path = "tmp @ ''/sp_ex09.bin''"
  let ?dig = "store_digest (store_snapshot ?s)"
  have ok: "all_publishable [] [?a, ?b]" by code_simp
  note p = publish_nth [OF ok, of 0, simplified] publish_nth [OF ok, of 1, simplified]
  have inv: "store_inv ?s" and size: "store_size ?s = 2" using built_facts [OF ok] by simp_all
  have fits: "store_fits ?s" by (rule built_fits(1) [OF ok]) simp_all
  obtain bs where bs: "encode_snapshot (store_snapshot ?s) = Some bs"
    using built_fits(2) [OF ok, of example_authority] by auto
  have "store_epoch ?s \<noteq> 0"
    using built_facts(3) [OF ok, of example_authority]
    by (simp add: store_epoch_def example_authority_def authority_ops initial_authority_def)
  from restored_store [OF inv this] obtain r where r: "restored (store_snapshot ?s) = Some r" "store_size r = store_size ?s"
    "store_digest (store_snapshot r) = ?dig" by blast
  show ?thesis
  proof (cases "open_ok io \<and> written io = None \<and> rename1_ok io")
    case True
    let ?fs = "rename_file (?path @ ''.tmp'') ?path (fs(?path @ ''.tmp'' := Some (file_bytes bs)))"
    have save: "save_file (store_snapshot ?s) ?path io fs = (Saved, ?fs)" using True bs by (simp add: save_file_def Let_def)
    have "lr_snapshot (load_file ?path No_fault ?fs) = Some (store_snapshot ?s)"
      by (rule load_saved_store [OF inv fits save])
    moreover have "?fs(?path := None) = fs" using assms by (auto simp: rename_file_def)
    ultimately have "example_09 tmp io No_fault fs = Some (
         ''save err=(none) digest='' @ ?dig @ newline
       @ ''recovered size=2 digest='' @ ?dig @ '' match=1'' @ newline, fs)"
      using save r size by (simp add: example_09_def example_store_built p flag_text_def small_counts Let_def)
    with True show ?thesis by auto
  next
    case False
    then show ?thesis using assms bs
      by (auto simp: example_09_def example_store_built p save_file_def load_file_def load_failed_def Let_def split: option.splits)
  qed
qed

theorem example_09_recovers_witness:
  "\<exists>dig. example_09 ''/tmp'' ok_io No_fault (\<lambda>p. None) = Some (
      ''save err=(none) digest='' @ dig @ newline
    @ ''recovered size=2 digest='' @ dig @ '' match=1'' @ newline, \<lambda>p. None)"
  using example_09_recovers [of "\<lambda>p. None" "''/tmp''" ok_io] by (simp add: ok_io_def)

theorem example_10_prints:
  "\<exists>dig. example_10 = Some (
      ''encoded identical=1  digest='' @ dig @ newline
    @ ''replay digest='' @ dig @ ''  match=1'' @ newline)"
proof -
  let ?ds = "map replay_record [1..<6]"
  let ?s = "built example_authority ?ds"
  have ok: "all_publishable [] ?ds" by (simp add: publishable_def replay_record_def upt_rec valid_def)
  have each: "publish_each es (built a ds) = Some (built a (ds @ es))" if "all_publishable [] (ds @ es)" for a ds es
    using that
  proof (induction es arbitrary: ds)
    case (Cons e es)
    then have "all_publishable [] (ds @ [e])" by (simp add: all_publishable_append)
    from publish_built [OF this] Cons show ?case by simp
  qed simp
  have s: "publish_each ?ds example_store = Some ?s" using each [of "[]" ?ds] ok by (simp add: example_store_built)
  have "list_all small_record ?ds" "list_all (\<lambda>d. record_note d = []) ?ds"
    by (auto simp: list_all_iff replay_record_def Let_def)
  then obtain bs where bs: "encode_snapshot (store_snapshot ?s) = Some bs" "decode_snapshot bs = Inr (store_snapshot ?s)"
    using built_fits(2) [OF ok] by auto
  have "store_epoch ?s \<noteq> 0"
    using built_facts(3) [OF ok, of example_authority]
    by (simp add: store_epoch_def example_authority_def authority_ops initial_authority_def)
  from restored_store [OF built_facts(2) [OF ok] this] obtain r where "restored (store_snapshot ?s) = Some r"
    "store_digest (store_snapshot r) = store_digest (store_snapshot ?s)" by blast
  then show ?thesis using s bs
    by (intro exI [of _ "store_digest (store_snapshot ?s)"]) (simp add: example_10_def flag_text_def)
qed

theorem example_12_prints: "example_12 = Some (
    ''fenced publish ok=1'' @ newline
  @ ''after epoch roll: accepted=0 error=stale authority [CoordinatorEpoch]: claim epoch 1 != current epoch 2'' @ newline)"
proof -
  let ?d = "ex_base (ScalarIdentifier 1) (ScalarIdentifier 2)" and ?e = "ex_base (ScalarIdentifier 2) (ScalarIdentifier 4)"
    and ?a = "st_authority fencing_store"
  have ok: "all_publishable [] [?d]" by code_simp
  have s: "fencing_store = built ?a []"
    by (simp add: fencing_store_def example_store_built built_def store_authority_defs)
  have one: "store_epoch fencing_store = 1" by code_simp
  have "accepted (evaluate_claim ?a (fencing_claim 1))" by code_simp
  from publish_fenced_built [of "[]" ?d, OF _ this] ok
  have p: "publish_fenced ?d (fencing_claim 1) fencing_store
      = (Inr \<lparr>po_ok = True, po_error = [], po_record = Some ?d\<rparr>, built ?a [?d])" by (simp flip: s)
  have t: "st_authority (snd (store_roll_epoch (built ?a [?d]))) = snd (roll_epoch ?a)"
    using built_facts(3) [OF ok, of ?a] by (simp add: store_roll_epoch_def split: prod.split)
  have "record_ok ?e" by (simp add: valid_def)
  moreover have "\<not> accepted (evaluate_claim (snd (roll_epoch ?a)) (fencing_claim 1))"
    "v_dimension (evaluate_claim (snd (roll_epoch ?a)) (fencing_claim 1)) = ''CoordinatorEpoch''"
    "v_detail (evaluate_claim (snd (roll_epoch ?a)) (fencing_claim 1)) = ''claim epoch 1 != current epoch 2''" by code_simp+
  ultimately show ?thesis
    by (simp add: example_12_def one p publish_fenced_alt [of ?e] t failure_def flag_text_def Let_def)
qed

theorem example_13_prints: "example_13 = Some (
    ''CUDA kernel-derived state published=1'' @ newline
  @ ''device: sm_120 cc 12.0  backend=0x0000000000006101 runtime=0x0000000000006201 toolchain=0x0000000000006301'' @ newline
  @ ''run the real proof with: sp_cuda_proof  (validated on RTX 5090 / sm_120)'' @ newline)"
proof -
  let ?i = "(ex_base (ScalarIdentifier 1) (ScalarIdentifier 2))\<lparr>subject_kind := SK_Buffer\<rparr>"
    and ?k = "(ex_base (ScalarIdentifier 2) (ScalarIdentifier 4))
       \<lparr>subject_kind := SK_CompiledKernel, model_id := ScalarIdentifier 0x6001,
        architecture := ''sm_120'', compute_capability := ''12.0'',
        backend_id := ScalarIdentifier 0x6101, runtime_id := ScalarIdentifier 0x6201,
        toolchain_id := ScalarIdentifier 0x6301, device_id := ScalarIdentifier 0x6401\<rparr>"
    and ?o = "(ex_base (ScalarIdentifier 3) (ScalarIdentifier 6))
       \<lparr>subject_kind := SK_TensorState, input_states := [ScalarIdentifier 1],
        model_id := ScalarIdentifier 0x6001, architecture := ''sm_120'', compute_capability := ''12.0'',
        dtype := ''float16'', content_digest := ''crc32:deadbeef'',
        dependencies := [Dependency (ScalarIdentifier 9) (ScalarIdentifier 1) ''compiled-kernel'' ''0x2'']\<rparr>"
  have ok: "all_publishable [] [?i, ?k, ?o]" by code_simp
  note p = publish_nth [OF ok, of 0, simplified] publish_nth [OF ok, of 1, simplified] publish_nth [OF ok, of 2, simplified]
  show ?thesis by (simp add: example_13_def example_store_built p flag_text_def printed Let_def)
qed

theorem consumer_exit_code:
  "consumer_main = Some (0, ''downstream consumer: published=1 size=1 reuse=ELIGIBLE'' @ newline)"
proof -
  let ?q = "empty_request\<lparr>q_model_id := ScalarIdentifier 7, q_model_generation := ScalarIdentifier 1\<rparr>"
  have ok: "all_publishable [] [consumer_record]" by code_simp
  note p = publish_nth [OF ok, of 0, simplified]
  have q: "check_reuse (built example_authority [consumer_record]) (ScalarIdentifier 1) q = evaluate_reuse consumer_record q" for q
    using built_facts(5) [OF ok, of consumer_record] by (simp add: consumer_record_def)
  have "d_eligibility (evaluate_reuse consumer_record ?q) = RE_ELIGIBLE"
    "summary (evaluate_reuse consumer_record ?q) = ''ELIGIBLE''" by code_simp+
  then show ?thesis
    by (simp add: consumer_main_def example_store_built p q built_facts(1) [OF ok] flag_text_def small_counts Let_def)
qed

end
