(* ===== verification/Ingestion.thy ===== *)
theory Ingestion
  imports Examples
begin

text \<open>
  \<^verbatim>\<open>examples/11_concurrent_ingestion.cpp\<close>: four threads that publish and one that reads, under every
  scheduling.  The theory proves that no interleaving loses or refuses a record, and that every run
  ends.
\<close>

section \<open>Threads and steps\<close>

text \<open>
  Example 11: four threads publish twenty records each, a fifth reads.  A state holds the store, the
  next index of each loop and the two counters; a step is one iteration of one of the loops.  Nothing
  reads the counter of the successes before the threads are joined, so the increment is in the step
  of its publication; the queries of the reader do not change the state.
\<close>

definition ingest_id :: "nat \<Rightarrow> nat \<Rightarrow> StateId" where
  "ingest_id w i = ScalarIdentifier (of_nat (0x10000 + w * 1000 + i))"

definition ingest_record :: "nat \<Rightarrow> nat \<Rightarrow> RecordData" where
  "ingest_record w i =
     (let sid = ingest_id w i; d = ex_base sid (ScalarIdentifier (get sid * 2))
      in if 0 < i then d\<lparr>input_states := [ingest_id w (i - 1)]\<rparr> else d)"

record Ingestion =
  in_store :: ProvenanceStore
  in_next :: "nat list"
  in_ok :: nat
  in_reads :: nat

definition ingestion_start :: Ingestion where
  "ingestion_start = \<lparr>in_store = example_store, in_next = [0, 0, 0, 0], in_ok = 0, in_reads = 0\<rparr>"

inductive ingest_step :: "Ingestion \<Rightarrow> Ingestion \<Rightarrow> bool" where
  publishing: "w < 4 \<Longrightarrow> in_next c ! w < 20 \<Longrightarrow>
    returned (publish (ingest_record w (in_next c ! w)) (in_store c)) = Some (p, s) \<Longrightarrow>
    ingest_step c (c\<lparr>in_store := s, in_next := (in_next c)[w := Suc (in_next c ! w)],
      in_ok := (if po_ok p then Suc (in_ok c) else in_ok c)\<rparr>)"
| reading: "in_reads c < 500 \<Longrightarrow> ingest_step c (c\<lparr>in_reads := Suc (in_reads c)\<rparr>)"

inductive_cases ingest_stepE: "ingest_step c c'"

text \<open>All threads are joined, and what is printed then.\<close>

definition ingest_done :: "Ingestion \<Rightarrow> bool" where
  "ingest_done c \<longleftrightarrow> in_next c = [20, 20, 20, 20] \<and> in_reads c = 500"

definition ingest_output :: "Ingestion \<Rightarrow> string" where
  "ingest_output c = ''published='' @ dec_string (in_ok c) @ ''  size='' @ dec_string (store_size (in_store c)) @ newline"

text \<open>The iterations that are left.\<close>

definition ingest_left :: "Ingestion \<Rightarrow> nat" where
  "ingest_left c = (80 - sum_list (in_next c)) + (500 - in_reads c)"

section \<open>The records of the threads\<close>

lemma ingest_fields [simp]:
  "subject_id (ingest_record w i) = ingest_id w i"
  "provenance_id (ingest_record w i) = ScalarIdentifier (get (ingest_id w i) * 2)"
  "input_states (ingest_record w i) = (if 0 < i then [ingest_id w (i - 1)] else [])"
  "parent_provenance (ingest_record w i) = []" "validity (ingest_record w i) = VS_VALID"
  by (simp_all add: ingest_record_def Let_def)

lemma ingest_id_value: "w < 4 \<Longrightarrow> i < 20 \<Longrightarrow> unat (get (ingest_id w i)) = 0x10000 + w * 1000 + i"
  "w < 4 \<Longrightarrow> i < 20 \<Longrightarrow> unat (get (ingest_id w i) * 2) = 2 * (0x10000 + w * 1000 + i)"
proof -
  assume w: "w < 4" "i < 20"
  let ?n = "0x10000 + w * 1000 + i"
  have "unat (of_nat ?n :: u64) = ?n" by (rule of_nat_inverse [OF refl]) (use w in simp)
  then show "unat (get (ingest_id w i)) = ?n" by (simp add: ingest_id_def)
  have "get (ingest_id w i) * 2 = (of_nat (2 * ?n) :: u64)" by (simp add: ingest_id_def)
  moreover have "unat (of_nat (2 * ?n) :: u64) = 2 * ?n" by (rule of_nat_inverse [OF refl]) (use w in simp)
  ultimately show "unat (get (ingest_id w i) * 2) = 2 * ?n" by simp
qed

lemma ingest_id_eq:
  assumes "w < 4" "i < 20" "w' < 4" "i' < 20"
  shows "ingest_id w i = ingest_id w' i' \<longleftrightarrow> w = w' \<and> i = i'"
    "get (ingest_id w i) * 2 = get (ingest_id w' i') * 2 \<longleftrightarrow> w = w' \<and> i = i'"
proof -
  have "w = w' \<and> i = i'" if "w * 1000 + i = w' * 1000 + i'"
  proof -
    have "w = (w * 1000 + i) div 1000" "w' = (w' * 1000 + i') div 1000" using assms by simp_all
    with that show ?thesis by simp
  qed
  then have "0x10000 + w * 1000 + i = 0x10000 + w' * 1000 + i' \<longleftrightarrow> w = w' \<and> i = i'"
    "2 * (0x10000 + w * 1000 + i) = 2 * (0x10000 + w' * 1000 + i') \<longleftrightarrow> w = w' \<and> i = i'" by auto
  then show "ingest_id w i = ingest_id w' i' \<longleftrightarrow> w = w' \<and> i = i'"
    "get (ingest_id w i) * 2 = get (ingest_id w' i') * 2 \<longleftrightarrow> w = w' \<and> i = i'"
    using ingest_id_value assms by metis+
qed

section \<open>Invariant\<close>

text \<open>What every reachable state satisfies: the store holds exactly the records of the finished iterations.\<close>

definition ingested :: "nat list \<Rightarrow> RecordData set" where
  "ingested next = {ingest_record w i | w i. w < 4 \<and> i < next ! w}"

definition ingest_inv :: "Ingestion \<Rightarrow> bool" where
  "ingest_inv c \<longleftrightarrow> length (in_next c) = 4 \<and> (\<forall>w<4. in_next c ! w \<le> 20) \<and> in_reads c \<le> 500
     \<and> in_ok c = sum_list (in_next c)
     \<and> (\<exists>ds. holds ds (in_store c) \<and> set ds = ingested (in_next c) \<and> length ds = in_ok c)"

lemma ingest_start_inv: "ingest_inv ingestion_start"
proof -
  have "holds [] example_store" using built_holds [of "[]"] by (simp add: example_store_built)
  moreover have zeros: "[0, 0, 0, 0] = replicate 4 (0 :: nat)" by (simp add: numeral_eq_Suc)
  ultimately show ?thesis
    unfolding ingest_inv_def ingestion_start_def Ingestion.simps zeros
    by (auto simp: ingested_def sum_list_replicate)
qed

lemma ingest_publishable:
  assumes "\<forall>w<4. next ! w \<le> 20" "w < 4" "next ! w < 20" "set ds = ingested next"
  shows "publishable ds (ingest_record w (next ! w))"
proof -
  let ?i = "next ! w"
  have "ingest_id w ?i \<notin> subject_id ` set ds"
  proof
    assume "ingest_id w ?i \<in> subject_id ` set ds"
    then obtain v j where "v < 4" "j < next ! v" "ingest_id w ?i = ingest_id v j" using assms(4) by (auto simp: ingested_def)
    with assms(1-3) ingest_id_eq(1) [of w ?i v j] show False by fastforce
  qed
  moreover have "ScalarIdentifier (get (ingest_id w ?i) * 2) \<notin> provenance_id ` set ds"
  proof
    assume "ScalarIdentifier (get (ingest_id w ?i) * 2) \<in> provenance_id ` set ds"
    then obtain v j where "v < 4" "j < next ! v" "get (ingest_id w ?i) * 2 = get (ingest_id v j) * 2"
      using assms(4) by (auto simp: ingested_def)
    with assms(1-3) ingest_id_eq(2) [of w ?i v j] show False by fastforce
  qed
  moreover have "ingest_id w (?i - 1) \<in> subject_id ` set ds" if "0 < ?i"
  proof -
    have "?i - 1 < next ! w" using that by simp
    with assms(2) have "ingest_record w (?i - 1) \<in> set ds" unfolding assms(4) ingested_def by blast
    then have "subject_id (ingest_record w (?i - 1)) \<in> subject_id ` set ds" by (rule imageI)
    then show ?thesis by (simp only: ingest_fields)
  qed
  moreover have "record_ok (ingest_record w ?i)"
  proof -
    have "unat (get (ingest_id w ?i)) \<noteq> 0" "unat (get (ingest_id w ?i) * 2) \<noteq> 0"
      using ingest_id_value [OF assms(2,3)] by simp_all
    then have "get (ingest_id w ?i) \<noteq> 0" "get (ingest_id w ?i) * 2 \<noteq> 0" by (metis unat_0)+
    then show ?thesis by (cases "next ! w = 0") (simp_all add: ingest_record_def valid_def Let_def)
  qed
  ultimately show ?thesis by (auto simp: publishable_def)
qed

lemma ingested_update:
  assumes "length next = 4" "w < 4"
  shows "ingested (next[w := Suc (next ! w)]) = insert (ingest_record w (next ! w)) (ingested next)"
  using assms by (auto simp: ingested_def nth_list_update less_Suc_eq)

lemma ingest_publishes:
  assumes inv: "ingest_inv c" and w: "w < 4" "in_next c ! w < 20"
  obtains s where "publish (ingest_record w (in_next c ! w)) (in_store c)
      = (Inr \<lparr>po_ok = True, po_error = [], po_record = Some (ingest_record w (in_next c ! w))\<rparr>, s)"
    "ingest_inv (c\<lparr>in_store := s, in_next := (in_next c)[w := Suc (in_next c ! w)], in_ok := Suc (in_ok c)\<rparr>)"
proof -
  let ?d = "ingest_record w (in_next c ! w)"
  obtain ds where ds: "holds ds (in_store c)" "set ds = ingested (in_next c)" "length ds = in_ok c"
    and n: "length (in_next c) = 4" "\<forall>w<4. in_next c ! w \<le> 20" "in_ok c = sum_list (in_next c)" "in_reads c \<le> 500"
    using inv by (auto simp: ingest_inv_def)
  obtain s where s: "publish ?d (in_store c) = (Inr \<lparr>po_ok = True, po_error = [], po_record = Some ?d\<rparr>, s)" "holds (ds @ [?d]) s"
    using holds_publish [OF ds(1) ingest_publishable [OF n(2) w ds(2)]] by blast
  moreover have "sum_list ((in_next c)[w := Suc (in_next c ! w)]) = Suc (sum_list (in_next c))"
    using w n(1) by (simp add: sum_list_update member_le_sum_list)
  moreover have "set (ds @ [?d]) = ingested ((in_next c)[w := Suc (in_next c ! w)])"
    using ds(2) ingested_update [OF n(1) w(1)] by simp
  ultimately show thesis
    using n w ds(3)
    by (intro that [of s]) (auto simp: ingest_inv_def nth_list_update intro!: exI [of _ "ds @ [?d]"])
qed

lemma ingest_step_inv:
  assumes "ingest_step c c'" "ingest_inv c"
  shows "ingest_inv c'"
  using assms(1)
proof cases
  case (publishing w p s)
  obtain t where "publish (ingest_record w (in_next c ! w)) (in_store c)
      = (Inr \<lparr>po_ok = True, po_error = [], po_record = Some (ingest_record w (in_next c ! w))\<rparr>, t)"
    "ingest_inv (c\<lparr>in_store := t, in_next := (in_next c)[w := Suc (in_next c ! w)], in_ok := Suc (in_ok c)\<rparr>)"
    by (rule ingest_publishes [OF assms(2) publishing(2,3)])
  with publishing(1,4) show ?thesis by auto
qed (use assms(2) in \<open>auto simp: ingest_inv_def\<close>)

lemma four_sum: "length xs = 4 \<Longrightarrow> \<forall>w<4. xs ! w \<le> k \<Longrightarrow> sum_list xs \<le> 4 * (k :: nat)"
  using sum_list_mono2 [of xs "replicate 4 k"] by (simp add: sum_list_replicate)

lemma four_equal: "length xs = 4 \<Longrightarrow> \<forall>w<4. xs ! w = k \<Longrightarrow> xs = [k, k, k, k]"
proof -
  assume "length xs = 4" "\<forall>w<4. xs ! w = k"
  then have "xs = replicate 4 k" by (intro nth_equalityI) auto
  moreover have "replicate 4 k = [k, k, k, k]" by (simp add: numeral_eq_Suc)
  ultimately show ?thesis by simp
qed

section \<open>Properties\<close>

text \<open>
  C39: Example 11 publishes all its records under every scheduling of its threads: in a state that an
  interleaving can reach, either all loops have ended, and the program prints that 80 publications
  succeeded and the store holds 80 records, or some thread can take its next step; and a step
  leaves fewer iterations to do, so that every run gets there.
\<close>

theorem ingestion_completes:
  assumes "ingest_step\<^sup>*\<^sup>* ingestion_start c"
  shows "(if ingest_done c then ingest_output c = ''published=80  size=80'' @ newline else \<exists>c'. ingest_step c c')
    \<and> (\<forall>c'. ingest_step c c' \<longrightarrow> ingest_left c' < ingest_left c)"
proof -
  have inv: "ingest_inv c"
    using assms by (induction rule: rtranclp_induct) (auto intro: ingest_start_inv ingest_step_inv)
  then obtain ds where ds: "holds ds (in_store c)" "length ds = in_ok c"
    and n: "length (in_next c) = 4" "\<forall>w<4. in_next c ! w \<le> 20" "in_ok c = sum_list (in_next c)" "in_reads c \<le> 500"
    by (auto simp: ingest_inv_def)
  have "ingest_output c = ''published=80  size=80'' @ newline" if "ingest_done c"
  proof -
    have len: "length ds = 80" "in_ok c = 80" using that ds(2) n(3) by (simp_all add: ingest_done_def)
    then have "store_size (in_store c) = 80"
      using ds(1) contains_record(2) [of ds _ "in_store c" "hd ds"] by (cases ds) (auto simp: holds_def)
    with len show ?thesis by (simp add: ingest_output_def dec_string.simps hex_digit_def)
  qed
  moreover have "\<exists>c'. ingest_step c c'" if "\<not> ingest_done c"
  proof (cases "in_reads c < 500")
    case False
    then have "in_next c \<noteq> [20, 20, 20, 20]" using that n(4) by (simp add: ingest_done_def)
    then obtain w where w: "w < 4" "in_next c ! w \<noteq> 20"
      using four_equal [OF n(1), of 20] by blast
    with n(2) have "in_next c ! w < 20" by (simp add: order_less_le)
    with w(1) show ?thesis using ingest_publishes [OF inv w(1)] by (metis ingest_step.publishing returned_simps(1))
  qed (auto intro: ingest_step.reading)
  moreover have "ingest_left c' < ingest_left c" if step: "ingest_step c c'" for c'
  proof -
    have inv': "ingest_inv c'" by (rule ingest_step_inv [OF step inv])
    have le: "sum_list (in_next c') \<le> 80"
      using inv' four_sum [of "in_next c'" 20] by (auto simp: ingest_inv_def)
    from step show ?thesis
    proof cases
      case (publishing w p s)
      then have "sum_list (in_next c') = Suc (sum_list (in_next c))" "in_reads c' = in_reads c"
        using n(1) by (simp_all add: sum_list_update member_le_sum_list)
      with le show ?thesis by (simp add: ingest_left_def)
    qed (simp add: ingest_left_def)
  qed
  ultimately show ?thesis by simp
qed

theorem ingestion_completes_witness:
  "\<exists>c. ingest_step\<^sup>*\<^sup>* ingestion_start c \<and> ingest_done c \<and> ingest_output c = ''published=80  size=80'' @ newline"
proof -
  have "\<exists>c'. ingest_step\<^sup>*\<^sup>* ingestion_start c' \<and> ingest_done c'" if "ingest_step\<^sup>*\<^sup>* ingestion_start c" for c
    using that
  proof (induction "ingest_left c" arbitrary: c rule: less_induct)
    case less
    show ?case
    proof (cases "ingest_done c")
      case False
      with ingestion_completes [OF less.prems] obtain c' where "ingest_step c c'" "ingest_left c' < ingest_left c" by auto
      with less show ?thesis by (meson rtranclp.rtrancl_into_rtrancl)
    qed (use less.prems in blast)
  qed
  from this [of ingestion_start] obtain c where "ingest_step\<^sup>*\<^sup>* ingestion_start c" "ingest_done c" by auto
  with ingestion_completes [of c] show ?thesis by auto
qed

end
