(* ===== verification/Spec2Isabelle.thy ===== *)
theory Spec2Isabelle
  imports Worker Cli_Sessions Concurrency Record_Builder Wire_Session Mp_Scenario Cuda_Proof Socket_Setup Ingestion
begin

text \<open>
  State Provenance: a verification development of the C++ library under
  \<^verbatim>\<open>include/stateprovenance\<close> and of the programs built on it (\<^verbatim>\<open>tools/coordinator.cpp\<close>,
  \<^verbatim>\<open>tools/worker.cpp\<close>, \<^verbatim>\<open>cli/main.cpp\<close>), of the two proof programs that exercise them
  (\<^verbatim>\<open>tools/mp_proof.cpp\<close>, \<^verbatim>\<open>cuda/cuda_proof.cu\<close>), and of the programs under \<^verbatim>\<open>examples\<close> and
  \<^verbatim>\<open>downstream/consumer\<close>.

  The program.  A state (a cache block, a tensor, a plan) is described by an immutable provenance
  record: who produced it, from which states, under which model, runtime and policy.  A store keeps
  the records with the graph of their derivations, a status for each, the authority against which
  publications are fenced, and indexes.  It answers whether a state may be reused in a requested
  environment, propagates invalidations to everything derived, and is saved to and restored from a
  checksummed file.  A coordinator process serves one store over framed TCP; workers ask it for
  the current authority and publish under a claim; a command line tool works on a saved file.

  Theories, bottom up, with the file each one models (under \<^verbatim>\<open>include/stateprovenance\<close> unless
  another directory is named):

  \<^item> \<open>Prelude\<close>: bytes, maps of sets, decimal and hexadecimal text, facts on lists and words that
    several components use; the named collections \<open>set_at_simps\<close>, \<open>bytes_simps\<close> and \<open>xor_inj\<close>.
  \<^item> \<open>Ids\<close> (\<^verbatim>\<open>ids.hpp\<close>): identities and generations with a phantom tag, their text form and
    parser.  Parsing accepts exactly the numerals that fit 64 bits.
  \<^item> \<open>Enums\<close> (\<^verbatim>\<open>enums.hpp\<close>): the enumerations with their byte and name tables; the locale
    \<open>enum_table\<close> is the contract of a table, interpreted on each of them.
  \<^item> \<open>Digest\<close> (\<^verbatim>\<open>digest.hpp\<close>): the mixing digest and the CRC; any change within 32 bits alters it.
  \<^item> \<open>Provenance_Record\<close>, \<open>Record_Builder\<close> (\<^verbatim>\<open>record.hpp\<close>): records, their validation and
    derivation digest; the builder yields exactly the valid records.
  \<^item> \<open>Derivation_Graph\<close> (\<^verbatim>\<open>graph.hpp\<close>): arcs, closures, the cycle test and the topological order,
    against the relation of the arcs.
  \<^item> \<open>Authority\<close> (\<^verbatim>\<open>authority.hpp\<close>): the fence; a claim is accepted exactly when it matches.
  \<^item> \<open>Compat\<close> (\<^verbatim>\<open>compat.hpp\<close>): the comparison of a record with a requested environment.
  \<^item> \<open>Invalidate\<close> (\<^verbatim>\<open>invalidate.hpp\<close>): breadth-first propagation and causal chains.
  \<^item> \<open>Store\<close>, \<open>Store_Restore\<close>, \<open>Store_Queries\<close> (\<^verbatim>\<open>store.hpp\<close>): the store, its invariant
    \<open>store_inv\<close> (records, graph, status table and the nine indexes agree), each operation with its
    effect on it, snapshot and restore, and the queries.  \<open>store_step\<close> is one operation and
    \<open>store_reachable\<close> what operations can lead to.
  \<^item> \<open>Persist\<close>, \<open>Persist_Codec\<close>, \<open>Persist_Files\<close> (\<^verbatim>\<open>persist.hpp\<close>): the binary format as writers
    and reading steps, the locale that composes round trips out of the fields, and files with the
    faults of the operating system.
  \<^item> \<open>Text_Input\<close>, \<open>Protocol\<close> (\<^verbatim>\<open>protocol.hpp\<close>): string searching and hexadecimal input,
    framing over a socket that delivers any fragments (locale \<open>stream_socket\<close>), payloads.
  \<^item> \<open>Coordinator\<close>, \<open>Worker\<close> (\<^verbatim>\<open>tools/coordinator.cpp\<close>, \<^verbatim>\<open>tools/worker.cpp\<close>): request handlers,
    connections, start and restart; what a worker reads, builds and sends.
  \<^item> \<open>Explain\<close>, \<open>Explain_Json\<close> (\<^verbatim>\<open>explain.hpp\<close>): text and JSON, and a reader for the JSON.
  \<^item> \<open>Cli\<close>, \<open>Cli_Sessions\<close> (\<^verbatim>\<open>cli/main.cpp\<close>): every command as a function of its arguments and
    the file system; runs one after the other through the file.
  \<^item> \<open>Concurrency\<close> (\<^verbatim>\<open>store.hpp\<close>): threads whose fenced publication is two steps.
  \<^item> \<open>Socket_Setup\<close> (\<^verbatim>\<open>protocol.hpp\<close>, \<^verbatim>\<open>tools/coordinator.cpp\<close>): opening and closing sockets over a
    table of handles, and \<^verbatim>\<open>main\<close> of the coordinator around its accept loop; every failure closes
    what it opened.
  \<^item> \<open>Store_Contents\<close>: what a store built by a list of publications holds, that it is within the
    bounds of the file format and is recovered from a snapshot; shared by the next theories.
  \<^item> \<open>Mp_Process\<close> (\<^verbatim>\<open>tools/mp_proof.cpp\<close>): spawning and killing children over a set of open handles,
    reading a pipe up to a marker, the port in what was read, and command lines.
  \<^item> \<open>Mp_Proof\<close>, \<open>Mp_Scenario\<close> (\<^verbatim>\<open>tools/mp_proof.cpp\<close>): the control connection, the stale replays and
    each step of the multiprocess scenario on the models of coordinator and worker; \<open>serving\<close> is what
    the coordinator holds between two steps, and the theorem is that every check succeeds and no handle
    stays open.
  \<^item> \<open>Wire_Session\<close>: worker and coordinator as two processes joined by their sockets; a connection
    serves the requests in its stream, and the composition refines the requests of \<open>Mp_Proof\<close>.
  \<^item> \<open>Cuda_Proof\<close> (\<^verbatim>\<open>cuda/cuda_proof.cu\<close>): the kernel under any order of its threads, and the
    provenance of its result from publication to recovery.
  \<^item> \<open>Examples\<close>, \<open>Ingestion\<close> (\<^verbatim>\<open>examples\<close>, \<^verbatim>\<open>downstream/consumer/main.cpp\<close>): every example as the text it
    prints, and the threads of example 11 as a step relation; no scheduling loses a record.

  How the code is mirrored.  Structures are records or datatypes with the source's fields; 64, 32
  and 8 bit integers are words, and arithmetic wraps where the source's does; a byte buffer is a
  list of bytes; \<^verbatim>\<open>std::map\<close> and \<^verbatim>\<open>unordered_map\<close> are mappings, read in key order where the code
  iterates an ordered one or sorts.  A \<^verbatim>\<open>std::string\<close> is a list of characters, one for each byte.
  Mutating methods return the new state.  A thrown exception is the left side of a sum (\<open>store_exn\<close>),
  an error string the failed outcome the code returns.

  Loops.  Recursions over a list are structural.  The closures and the cycle test terminate because
  each step visits a new node of a finite type.  The breadth-first propagation, Kahn's algorithm and
  the loop of a connection are \<open>partial_function (option)\<close>, and the lemmas show that they return on
  every input (\<open>propagate_result\<close>, \<open>topological_order_result\<close>, \<open>records_in_topo_order_result\<close> and
  \<open>connection_returns\<close>, where each frame consumes input).  The only bounds used
  as fuel are those of the path walk in \<open>Invalidate\<close>, which is in the code, and of the JSON reader in
  \<open>Explain_Json\<close>, for which the length of the text is enough (\<open>need_le\<close>).

  What the properties show.  Publishing is all or nothing and keeps the invariant; every reachable
  store is consistent, also under interleaved connections and threads; saving, restarting and
  restoring give the same records, status and digest; damaged files are refused and a crash in a
  save leaves the old or the new file; a stale claim is refused, except in the window between the
  check and the lock (\<open>fence_overtaken\<close>); invalidation marks exactly the descendants and blocks
  reuse, through the library and through the tool; the wire and JSON formats are read back; every
  run of the tool and every connection ends.  Some theorems state what the code does against its
  intention: a worker's decimal epoch is read as hexadecimal, a failed save or an unreadable file
  loses data in the tool, a registered boot is lost on a restart.  The multiprocess proof returns 0
  for all previous files and every snapshot path without blanks and quotes, and 1 for a path with a
  blank (\<open>mp_proof_blank_path\<close>); the exit code of the CUDA proof depends on the
  calls of the CUDA runtime alone.

  Parameters.  What the operating system does is an argument: which steps of a save fail and how much
  of a write arrives (\<open>IoFaults\<close>, with the branch on the platform), whether a read fails
  (\<open>ReadFault\<close>), the fragments a socket delivers and accepts, the answers of the socket calls
  (\<open>NetEnv\<close>), the answers of the process calls with the pieces in which a pipe delivers its text and
  the way a command line is split (\<open>SpawnAnswer\<close>, \<open>MpEnv\<close>), and the clock of \<^verbatim>\<open>benchmark\<close>.  A \<open>CudaRun\<close> holds what the calls of the CUDA runtime
  returned, the bytes of the buffers and the verdicts of the floating-point comparison.

  Not modelled.  The scheduling of the processes and the sleeps of \<^verbatim>\<open>mp_proof.cpp\<close>: a worker has run to
  its end where it is spawned; starting the threads of the coordinator.  The arithmetic of \<^verbatim>\<open>float\<close> and
  the CUDA runtime are not code of the repository.  Tests and benchmarks have no logic of their own,
  and the build files no code.  Memory exhaustion and the races of reading the authority without its
  lock are left out: such a read is taken to see one state of the authority.
\<close>

end
